(* ===== verification/Prelude.thy ===== *)
theory Prelude
  imports Main "HOL-Library.Word" "HOL-Library.AList"
begin

text \<open>
  The vocabulary the component theories share: the outcome of a Go call (a value, a
  returned error, or a panic), Go errors, dynamically typed values, slice primitives with
  their run-time checks, and the state-passing sequencing and loop combinators with their
  invariant rules.

  A Go function that returns \<^verbatim>\<open>(v, nil)\<close> is \<open>Ok v\<close>, one that returns
  \<^verbatim>\<open>(zero, err)\<close> is \<open>Err e\<close>, one that panics is \<open>Panic p\<close>.  A method
  with a pointer receiver is a function of the receiver's state that also returns the new
  state, on every path: \<open>'s \<Rightarrow> 'a go \<times> 's\<close>.
\<close>

named_theorems go_defs "definitions of the slice and sequencing primitives"
named_theorems go_inv "invariant preservation lemmas of the components"

section \<open>Errors, panics, outcomes\<close>

text \<open>The sentinel errors of \<^verbatim>\<open>errlist/prefix/prefix.go\<close>.\<close>

datatype sentinel =
    OutLenError | SentinelCatchError | NotMatchingError | NotExistsError
  | ClosedError | CreateError | ParseError

text \<open>
  An error value: a sentinel, an error of the operating system, a driver or a library
  (\<open>ESys\<close>), one made by \<^verbatim>\<open>fmt.Errorf\<close> (\<open>EFmt\<close>), or one made by
  \<^verbatim>\<open>errlist.ErrG.NewError(err, format, ...)\<close> (\<open>EWrap\<close>; the wrapped error may be
  nil).  The string is the format literal of the source; the interpolated arguments are not
  kept.  Theory \<open>Errlist\<close> models the linked representation of \<open>EWrap\<close>.
\<close>

datatype gerror =
    ESentinel sentinel
  | ESys string
  | EFmt string
  | EWrap "gerror option" string

datatype panic =
    PIndex
  | PNilDeref
  | PNilMap
  | PSendClosed
  | PCloseClosed
  | PMakeSlice
  | PTypeAssert
  | PExplicit string

datatype 'a go = Ok (go_val: 'a) | Err gerror | Panic panic

fun bind_go :: "'a go \<Rightarrow> ('a \<Rightarrow> 'b go) \<Rightarrow> 'b go" where
  "bind_go (Ok a) f = f a"
| "bind_go (Err e) f = Err e"
| "bind_go (Panic p) f = Panic p"

text \<open>\<^verbatim>\<open>if err != nil { return NewError(err, msg) }\<close>\<close>

fun wrap_err :: "string \<Rightarrow> 'a go \<Rightarrow> 'a go" where
  "wrap_err msg (Err e) = Err (EWrap (Some e) msg)"
| "wrap_err msg r = r"

fun is_panic :: "'a go \<Rightarrow> bool" where
  "is_panic (Panic p) = True"
| "is_panic r = False"

text \<open>Building a fresh \<^verbatim>\<open>errlist\<close> error around a sentinel, and around nil.\<close>

definition sentinel_err :: "sentinel \<Rightarrow> string \<Rightarrow> gerror" where
  "sentinel_err k msg = EWrap (Some (ESentinel k)) msg"

definition bare_err :: "string \<Rightarrow> gerror" where
  "bare_err msg = EWrap None msg"

text \<open>The innermost error of a chain of wraps: what \<^verbatim>\<open>realErr\<close> of its last link holds.\<close>

fun root_cause :: "gerror \<Rightarrow> gerror option" where
  "root_cause (EWrap (Some e) msg) = root_cause e"
| "root_cause (EWrap None msg) = None"
| "root_cause e = Some e"

lemma bind_go_Ok_iff: "bind_go m f = Ok b \<longleftrightarrow> (\<exists>a. m = Ok a \<and> f a = Ok b)"
  by (cases m) auto

lemma bind_go_Err_iff:
  "bind_go m f = Err e \<longleftrightarrow> m = Err e \<or> (\<exists>a. m = Ok a \<and> f a = Err e)"
  by (cases m) auto

lemma bind_go_Panic_iff:
  "bind_go m f = Panic p \<longleftrightarrow> m = Panic p \<or> (\<exists>a. m = Ok a \<and> f a = Panic p)"
  by (cases m) auto

lemma bind_go_assoc: "bind_go (bind_go m f) g = bind_go m (\<lambda>a. bind_go (f a) g)"
  by (cases m) auto

lemma bind_go_cong [fundef_cong]:
  "m = m' \<Longrightarrow> (\<And>a. m' = Ok a \<Longrightarrow> f a = f' a) \<Longrightarrow> bind_go m f = bind_go m' f'"
  by (cases m') auto

lemma wrap_err_Ok_iff [simp]: "wrap_err msg r = Ok a \<longleftrightarrow> r = Ok a"
  by (cases r) auto

lemma wrap_err_Panic_iff [simp]: "wrap_err msg r = Panic p \<longleftrightarrow> r = Panic p"
  by (cases r) auto

lemma is_panic_iff: "is_panic r \<longleftrightarrow> (\<exists>p. r = Panic p)"
  by (cases r) auto

lemma root_cause_wrap [simp]:
  "root_cause (sentinel_err k msg) = Some (ESentinel k)" "root_cause (bare_err msg) = None"
  by (simp_all add: sentinel_err_def bare_err_def)

section \<open>Dynamically typed values\<close>

text \<open>
  Go's \<^verbatim>\<open>any\<close> as the drivers and plans use it.  \<^verbatim>\<open>int\<close> and \<^verbatim>\<open>int64\<close> are
  64-bit words, floats are their IEEE bit patterns, \<^verbatim>\<open>[]byte\<close> and \<^verbatim>\<open>[]any\<close> are
  lists; a value of any other dynamic type is \<open>GOther\<close> with the type's name.
\<close>

type_synonym int64 = "64 word"

datatype goval =
    GNil
  | GString string
  | GInt int64
  | GInt64 int64
  | GFloat32 "32 word"
  | GFloat64 "64 word"
  | GBool bool
  | GBytes "8 word list"
  | GSlice "goval list"
  | GOther string

section \<open>Slices\<close>

definition go_index :: "'a list \<Rightarrow> int \<Rightarrow> 'a go" where
  [go_defs]: "go_index xs i = (if 0 \<le> i \<and> i < int (length xs) then Ok (xs ! nat i) else Panic PIndex)"

definition go_store :: "'a list \<Rightarrow> int \<Rightarrow> 'a \<Rightarrow> 'a list go" where
  [go_defs]: "go_store xs i v =
    (if 0 \<le> i \<and> i < int (length xs) then Ok (xs[nat i := v]) else Panic PIndex)"

definition go_make :: "int \<Rightarrow> 'a \<Rightarrow> 'a list go" where
  [go_defs]: "go_make n z = (if n < 0 then Panic PMakeSlice else Ok (replicate (nat n) z))"

text \<open>\<^verbatim>\<open>copy(dst, src)\<close>: the first \<open>min\<close> of the two lengths elements are replaced.\<close>

definition go_copy :: "'a list \<Rightarrow> 'a list \<Rightarrow> 'a list" where
  [go_defs]: "go_copy dst src = take (length dst) src @ drop (length src) dst"

lemma length_go_copy [simp]: "length (go_copy dst src) = length dst"
  by (auto simp: go_copy_def)

lemma nth_go_copy:
  "i < length dst \<Longrightarrow> go_copy dst src ! i = (if i < length src then src ! i else dst ! i)"
  by (auto simp: go_copy_def nth_append min_def)

lemma go_index_Ok_iff: "go_index xs i = Ok v \<longleftrightarrow> 0 \<le> i \<and> i < int (length xs) \<and> v = xs ! nat i"
  by (auto simp: go_index_def)

lemma go_index_Panic_iff: "go_index xs i = Panic p \<longleftrightarrow> p = PIndex \<and> (i < 0 \<or> int (length xs) \<le> i)"
  by (auto simp: go_index_def)

lemma go_index_int [simp]: "i < length xs \<Longrightarrow> go_index xs (int i) = Ok (xs ! i)"
  by (simp add: go_index_def)

lemma go_store_int [simp]: "i < length xs \<Longrightarrow> go_store xs (int i) v = Ok (xs[i := v])"
  by (simp add: go_store_def)


section \<open>Go maps as association lists\<close>

text \<open>A Go map is an association list with distinct keys, in the order one iteration visits
  it; \<open>AList.update\<close> stores and \<open>map_of\<close> reads.\<close>

lemma set_alist_update: "set (AList.update k v kvs) \<subseteq> insert (k, v) (set kvs)"
  by (induction kvs) auto

lemma map_of_filter_val:
  "distinct (map fst kvs) \<Longrightarrow>
    map_of (filter (\<lambda>kv. P (snd kv)) kvs) k =
      (case map_of kvs k of None \<Rightarrow> None | Some v \<Rightarrow> if P v then Some v else None)"
  by (induction kvs) (auto simp: map_of_eq_None_iff split: option.splits)

section \<open>Methods: state-passing outcomes\<close>

type_synonym ('s, 'a) goS = "'s \<Rightarrow> 'a go \<times> 's"

definition retS :: "'a \<Rightarrow> ('s, 'a) goS" where
  "retS a s = (Ok a, s)"

definition failS :: "gerror \<Rightarrow> ('s, 'a) goS" where
  "failS e s = (Err e, s)"

definition panicS :: "panic \<Rightarrow> ('s, 'a) goS" where
  "panicS p s = (Panic p, s)"

definition liftS :: "'a go \<Rightarrow> ('s, 'a) goS" where
  "liftS r s = (r, s)"

text \<open>Sequencing: an error or a panic skips what follows and keeps the state reached.\<close>

definition bindS :: "('s, 'a) goS \<Rightarrow> ('a \<Rightarrow> ('s, 'b) goS) \<Rightarrow> ('s, 'b) goS" where
  "bindS m f s =
    (case m s of
      (Ok a, s') \<Rightarrow> f a s'
    | (Err e, s') \<Rightarrow> (Err e, s')
    | (Panic p, s') \<Rightarrow> (Panic p, s'))"

definition wrapS :: "string \<Rightarrow> ('s, 'a) goS \<Rightarrow> ('s, 'a) goS" where
  "wrapS msg m s = (case m s of (r, s') \<Rightarrow> (wrap_err msg r, s'))"

text \<open>\<^verbatim>\<open>for _, x := range xs { ... }\<close> whose body may return early with an error.\<close>

primrec forS :: "'x list \<Rightarrow> ('x \<Rightarrow> ('s, unit) goS) \<Rightarrow> ('s, unit) goS" where
  "forS [] f = retS ()"
| "forS (x # xs) f = bindS (f x) (\<lambda>_. forS xs f)"

lemmas goS_defs = retS_def failS_def panicS_def liftS_def bindS_def wrapS_def

lemma retS_apply [simp]: "retS a s = (Ok a, s)"
  and failS_apply [simp]: "failS e s = (Err e, s)"
  and panicS_apply [simp]: "panicS p s = (Panic p, s)"
  and liftS_apply [simp]: "liftS r s = (r, s)"
  by (simp_all add: goS_defs)

lemma bindS_cases:
  assumes "bindS m f s = (r, s')"
  obtains (ok) a t where "m s = (Ok a, t)" "f a t = (r, s')"
    | (err) e where "m s = (Err e, s')" "r = Err e"
    | (panic) p where "m s = (Panic p, s')" "r = Panic p"
  using assms by (auto simp: bindS_def split: prod.splits go.splits)

lemma bindS_Ok [simp]: "m s = (Ok a, t) \<Longrightarrow> bindS m f s = f a t"
  and bindS_Err [simp]: "m s = (Err e, t) \<Longrightarrow> bindS m f s = (Err e, t)"
  and bindS_Panic [simp]: "m s = (Panic p, t) \<Longrightarrow> bindS m f s = (Panic p, t)"
  by (simp_all add: bindS_def)

lemma wrapS_eq: "wrapS msg m s = (wrap_err msg (fst (m s)), snd (m s))"
  by (simp add: wrapS_def split: prod.splits)

lemma bindS_ret [simp]: "bindS (retS a) f = f a"
  by (rule ext) (simp add: bindS_def)

lemma bindS_liftS [simp]:
  "bindS (liftS (Ok a)) f = f a" "bindS (liftS (Err e)) f = failS e"
  "bindS (liftS (Panic p)) f = panicS p"
  by (auto simp: bindS_def goS_defs)

lemma bindS_retS_right [simp]: "bindS m retS = m"
  by (rule ext) (simp add: bindS_def split: prod.splits go.splits)

lemma bindS_cong_Ok: "(\<And>a s s'. m s = (Ok a, s') \<Longrightarrow> f a = g a) \<Longrightarrow> bindS m f = bindS m g"
  by (rule ext) (auto simp: bindS_def split: prod.splits go.splits)

lemma bindS_assoc: "bindS (bindS m f) g = bindS m (\<lambda>a. bindS (f a) g)"
  by (rule ext) (simp add: bindS_def split: prod.splits go.splits)

text \<open>
  Invariants: \<open>keepsS I m\<close> says that \<open>m\<close> keeps \<open>I\<close> on every path (value, error,
  panic).  Sequencing and loops keep what their parts keep.
\<close>

definition keepsS :: "('s \<Rightarrow> bool) \<Rightarrow> ('s, 'a) goS \<Rightarrow> bool" where
  "keepsS I m \<longleftrightarrow> (\<forall>s. I s \<longrightarrow> I (snd (m s)))"

lemma keepsSI: "(\<And>s. I s \<Longrightarrow> I (snd (m s))) \<Longrightarrow> keepsS I m"
  by (simp add: keepsS_def)

lemma keepsSD: "keepsS I m \<Longrightarrow> I s \<Longrightarrow> m s = (r, s') \<Longrightarrow> I s'"
  by (metis keepsS_def snd_conv)

lemma keepsS_ret [go_inv, simp]: "keepsS I (retS a)"
  and keepsS_fail [go_inv, simp]: "keepsS I (failS e)"
  and keepsS_panic [go_inv, simp]: "keepsS I (panicS p)"
  and keepsS_lift [go_inv, simp]: "keepsS I (liftS r)"
  by (simp_all add: keepsS_def)

lemma keepsS_bind [go_inv]:
  assumes "keepsS I m" and "\<And>a. keepsS I (f a)"
  shows "keepsS I (bindS m f)"
  using assms by (auto simp: keepsS_def bindS_def split: prod.splits go.splits)

lemma keepsS_wrap [go_inv]: "keepsS I m \<Longrightarrow> keepsS I (wrapS msg m)"
  by (simp add: keepsS_def wrapS_eq)

lemma keepsS_for [go_inv]:
  "(\<And>x. x \<in> set xs \<Longrightarrow> keepsS I (f x)) \<Longrightarrow> keepsS I (forS xs f)"
  by (induction xs) (auto intro!: keepsS_bind)

text \<open>
  Total correctness of a loop: when each body, started from a state of \<open>I\<close> with
  \<open>k\<close> iterations done, returns normally into \<open>I\<close> with \<open>k + 1\<close> done, so does the
  whole loop.
\<close>

lemma forS_total:
  assumes "I 0 s"
    and "\<And>k t. k < length xs \<Longrightarrow> I k t \<Longrightarrow> \<exists>t'. f (xs ! k) t = (Ok (), t') \<and> I (Suc k) t'"
  shows "\<exists>t. forS xs f s = (Ok (), t) \<and> I (length xs) t"
  using assms
proof (induction xs arbitrary: s I)
  case Nil
  then show ?case by simp
next
  case (Cons x xs)
  obtain t where t: "f x s = (Ok (), t)" "I 1 t"
    using Cons.prems(2)[of 0 s] Cons.prems(1) by auto
  have "\<exists>t'. forS xs f t = (Ok (), t') \<and> I (Suc (length xs)) t'"
    by (rule Cons.IH[of "\<lambda>k. I (Suc k)"]) (use t Cons.prems(2) in force)+
  with t show ?case by simp
qed

lemma forS_append: "forS (xs @ ys) f = bindS (forS xs f) (\<lambda>_. forS ys f)"
  by (induction xs) (simp_all add: bindS_assoc)

lemma forS_Err_step:
  "forS xs f s = (Err e, s') \<Longrightarrow> \<exists>x \<in> set xs. \<exists>t. f x t = (Err e, s')"
  by (induction xs arbitrary: s) (auto elim!: bindS_cases)

lemma forS_Panic_step:
  "forS xs f s = (Panic p, s') \<Longrightarrow> \<exists>x \<in> set xs. \<exists>t. f x t = (Panic p, s')"
  by (induction xs arbitrary: s) (auto elim!: bindS_cases)

text \<open>What a wrapped operation gives back.\<close>

lemma wrap_err_Err_iff: "wrap_err msg r = Err e \<longleftrightarrow> (\<exists>e'. r = Err e' \<and> e = EWrap (Some e') msg)"
  by (cases r) auto

lemma wrapS_Ok_iff: "wrapS msg m w = (Ok a, w') \<longleftrightarrow> m w = (Ok a, w')"
  by (auto simp: wrapS_def split: prod.splits)

lemma wrapS_Err_iff: "wrapS msg m w = (Err e, w') \<longleftrightarrow> (\<exists>e'. m w = (Err e', w') \<and> e = EWrap (Some e') msg)"
  by (auto simp: wrapS_def wrap_err_Err_iff split: prod.splits)

lemma wrapS_result: "wrapS msg m w = (r, w') \<Longrightarrow> \<exists>r'. m w = (r', w')"
  by (auto simp: wrapS_def split: prod.splits)

text \<open>The first statement of a loop that fails.\<close>

lemma forS_first_Err:
  assumes "forS xs f w = (Err e, w')"
  shows "\<exists>ys x zs w1. xs = ys @ x # zs \<and> forS ys f w = (Ok (), w1) \<and> f x w1 = (Err e, w')"
  using assms
proof (induction xs arbitrary: w)
  case (Cons x xs)
  from Cons.prems have "bindS (f x) (\<lambda>_. forS xs f) w = (Err e, w')" by simp
  then show ?case
  proof (cases rule: bindS_cases)
    case (ok a t)
    then obtain ys y zs w1 where "xs = ys @ y # zs" "forS ys f t = (Ok (), w1)" "f y w1 = (Err e, w')"
      using Cons.IH by blast
    with ok show ?thesis
      by (intro exI[of _ "x # ys"] exI[of _ y] exI[of _ zs] exI[of _ w1]) simp
  next
    case (err e')
    then show ?thesis
      by (intro exI[of _ "[]"] exI[of _ x] exI[of _ xs] exI[of _ w]) simp
  qed simp
qed simp

text \<open>A list of goroutines around one of them.\<close>

lemma split_thread:
  assumes "t < length ts"
  obtains ps qs where "ts = ps @ ts ! t # qs" "length ps = t"
  using id_take_nth_drop[OF assms] assms by (metis length_take min.absorb4)

end
