(* ===== verification/Gostd.thy ===== *)
theory Gostd
  imports Prelude
begin

text \<open>
  The parts of Go's \<^verbatim>\<open>strconv\<close> and \<^verbatim>\<open>strings\<close> packages the program uses.
  A Go string is its list of bytes.  \<^verbatim>\<open>Atoi\<close> and \<^verbatim>\<open>Itoa\<close> are modelled with the
  64-bit range of \<^verbatim>\<open>int\<close>; upper-casing and trimming treat ASCII, which is what type
  names, units and queries are made of.
\<close>

section \<open>Decimal numbers\<close>

definition digit_char :: "nat \<Rightarrow> char" where
  "digit_char n = char_of (48 + n)"

definition digit_val :: "char \<Rightarrow> nat option" where
  "digit_val c = (let n = of_char c in if 48 \<le> n \<and> n \<le> 57 then Some (n - 48) else None)"

fun nat_dec :: "nat \<Rightarrow> string" where
  "nat_dec n = (if n < 10 then [digit_char n] else nat_dec (n div 10) @ [digit_char (n mod 10)])"

declare nat_dec.simps [simp del]

definition itoa :: "int \<Rightarrow> string" where
  "itoa i = (if i < 0 then CHR ''-'' # nat_dec (nat (- i)) else nat_dec (nat i))"

fun dec_value :: "nat \<Rightarrow> string \<Rightarrow> nat option" where
  "dec_value acc [] = Some acc"
| "dec_value acc (c # cs) =
    (case digit_val c of None \<Rightarrow> None | Some d \<Rightarrow> dec_value (10 * acc + d) cs)"

definition in_int64 :: "int \<Rightarrow> bool" where
  "in_int64 i \<longleftrightarrow> - (2 ^ 63) \<le> i \<and> i < 2 ^ 63"

definition atoi_err :: "gerror" where
  "atoi_err = ESys ''strconv.Atoi''"

definition atoi :: "string \<Rightarrow> int go" where
  "atoi s =
    (let (neg, ds) = (case s of
        [] \<Rightarrow> (False, [])
      | c # cs \<Rightarrow> if c = CHR ''-'' then (True, cs) else if c = CHR ''+'' then (False, cs) else (False, s))
     in if ds = [] then Err atoi_err
        else (case dec_value 0 ds of
            None \<Rightarrow> Err atoi_err
          | Some n \<Rightarrow>
              (let i = (if neg then - int n else int n)
               in if in_int64 i then Ok i else Err atoi_err)))"

lemma digit_val_char [simp]: "d < 10 \<Longrightarrow> digit_val (digit_char d) = Some d"
  by (simp add: digit_val_def digit_char_def Let_def)

lemma nat_dec_nonempty [simp]: "nat_dec n \<noteq> []"
  by (subst nat_dec.simps) simp

lemma dec_value_append:
  "dec_value acc (xs @ ys) =
    (case dec_value acc xs of None \<Rightarrow> None | Some a \<Rightarrow> dec_value a ys)"
  by (induction acc xs rule: dec_value.induct) (auto split: option.splits)

lemma dec_value_nat_dec [simp]: "dec_value 0 (nat_dec n) = Some n"
proof (induction n rule: nat_dec.induct)
  case (1 n)
  show ?case
  proof (cases "n < 10")
    case True
    then show ?thesis by (subst nat_dec.simps) simp
  next
    case False
    then have "dec_value 0 (nat_dec (n div 10)) = Some (n div 10)" by (rule "1.IH")
    with False show ?thesis by (subst nat_dec.simps) (simp add: dec_value_append)
  qed
qed

lemma digit_char_not_sign: "d < 10 \<Longrightarrow> digit_char d \<noteq> CHR ''-'' \<and> digit_char d \<noteq> CHR ''+''"
proof -
  assume d: "d < 10"
  have "of_char (digit_char d) = (48 + d :: nat)"
    using d by (simp add: digit_char_def)
  then show ?thesis by auto
qed

lemma hd_nat_dec: "\<exists>d cs. d < 10 \<and> nat_dec n = digit_char d # cs"
proof (induction n rule: nat_dec.induct)
  case (1 n)
  show ?case
  proof (cases "n < 10")
    case True
    then show ?thesis by (subst nat_dec.simps) auto
  next
    case False
    then obtain d cs where "d < 10" "nat_dec (n div 10) = digit_char d # cs"
      using "1.IH" by blast
    with False show ?thesis by (subst nat_dec.simps) auto
  qed
qed

text \<open>Parsing what \<open>itoa\<close> prints gives the number back, over the whole range of \<^verbatim>\<open>int\<close>.\<close>

lemma atoi_itoa [simp]: "in_int64 i \<Longrightarrow> atoi (itoa i) = Ok i"
proof (cases "i < 0")
  case True
  assume "in_int64 i"
  with True show ?thesis by (simp add: atoi_def itoa_def)
next
  case False
  assume i: "in_int64 i"
  obtain d cs where h: "d < 10" "nat_dec (nat i) = digit_char d # cs"
    using hd_nat_dec by blast
  have "dec_value 0 (digit_char d # cs) = Some (nat i)"
    using h(2) by (metis dec_value_nat_dec)
  with False i h digit_char_not_sign[OF h(1)] show ?thesis
    by (simp add: atoi_def itoa_def Let_def del: dec_value.simps)
qed

lemma atoi_in_int64: "atoi s = Ok i \<Longrightarrow> in_int64 i"
  by (auto simp: atoi_def Let_def split: prod.splits option.splits if_splits)

lemma atoi_not_Panic [simp]: "atoi s \<noteq> Panic p"
  by (auto simp: atoi_def Let_def split: prod.splits option.splits if_splits list.splits)

section \<open>Strings\<close>

definition has_prefix :: "string \<Rightarrow> string \<Rightarrow> bool" where
  "has_prefix s p \<longleftrightarrow> take (length p) s = p"

fun contains :: "string \<Rightarrow> string \<Rightarrow> bool" where
  "contains [] p = (p = [])"
| "contains (c # cs) p = (has_prefix (c # cs) p \<or> contains cs p)"

definition upper_char :: "char \<Rightarrow> char" where
  "upper_char c = (let n = of_char c in if 97 \<le> n \<and> n \<le> 122 then char_of (n - 32 :: nat) else c)"

definition to_upper :: "string \<Rightarrow> string" where
  "to_upper s = map upper_char s"

definition is_space :: "char \<Rightarrow> bool" where
  "is_space c \<longleftrightarrow> (of_char c :: nat) \<in> {9, 10, 11, 12, 13, 32}"

definition trim_space :: "string \<Rightarrow> string" where
  "trim_space s = rev (dropWhile is_space (rev (dropWhile is_space s)))"

text \<open>\<^verbatim>\<open>strings.Split(s, sep)\<close> for a non-empty separator.\<close>

function split_go :: "string \<Rightarrow> string \<Rightarrow> string \<Rightarrow> string list" where
  "split_go sep acc [] = [rev acc]"
| "split_go sep acc (c # cs) =
    (if has_prefix (c # cs) sep then rev acc # split_go sep [] (drop (length sep - 1) cs)
     else split_go sep (c # acc) cs)"
  by pat_completeness auto
termination by (relation "measure (\<lambda>(sep, acc, s). length s)") auto

definition go_split :: "string \<Rightarrow> string \<Rightarrow> string list" where
  "go_split s sep = split_go sep [] s"

lemma split_go_nonempty [simp]: "split_go sep acc s \<noteq> []"
  by (induction sep acc s rule: split_go.induct) auto

lemma go_split_nonempty [simp]: "go_split s sep \<noteq> []"
  by (simp add: go_split_def)

lemma has_prefix_Nil [simp]: "has_prefix s []"
  by (simp add: has_prefix_def)

lemma has_prefix_append [simp]: "has_prefix (p @ s) p"
  by (simp add: has_prefix_def)

lemma has_prefixD: "has_prefix s p \<Longrightarrow> s = p @ drop (length p) s"
  by (metis append_take_drop_id has_prefix_def)

lemma trim_space_Nil [simp]: "trim_space [] = []"
  by (simp add: trim_space_def)

text \<open>\<^verbatim>\<open>strings.SplitN(s, sep, n)\<close> for positive \<open>n\<close> and a one-byte separator: at most
  \<open>n\<close> parts, the last one unsplit.\<close>

fun split_n :: "char \<Rightarrow> nat \<Rightarrow> string \<Rightarrow> string list" where
  "split_n sep 0 s = []"
| "split_n sep (Suc 0) s = [s]"
| "split_n sep (Suc (Suc n)) s =
    (let p = takeWhile (\<lambda>c. c \<noteq> sep) s in
     if p = s then [s] else p # split_n sep (Suc n) (drop (Suc (length p)) s))"

text \<open>\<^verbatim>\<open>strings.Replace(s, old, new, 1)\<close> for a non-empty \<open>old\<close>.\<close>

fun replace_first :: "string \<Rightarrow> string \<Rightarrow> string \<Rightarrow> string" where
  "replace_first [] old new = []"
| "replace_first (c # cs) old new =
    (if has_prefix (c # cs) old then new @ drop (length old) (c # cs)
     else c # replace_first cs old new)"

end
