(* ===== verification/Syncmap.thy ===== *)
theory Syncmap
  imports Gostd "HOL-Library.AList"
begin

text \<open>
  \<^verbatim>\<open>utils/generic/sync.go\<close> (the typed wrapper \<^verbatim>\<open>SyncMap\<close> around \<^verbatim>\<open>sync.Map\<close>),
  \<^verbatim>\<open>utils/generic/util_func.go\<close> (\<^verbatim>\<open>Difference\<close>) and
  \<^verbatim>\<open>utils/convert_bind.go\<close>.  The interface the rest of the program relies on is the
  locale \<open>keyed_store\<close>; it is interpreted on the model of \<^verbatim>\<open>SyncMap\<close>.
\<close>

section \<open>The keyed-store interface\<close>

locale keyed_store =
  fixes wf :: "'m \<Rightarrow> bool"
    and lookup :: "'m \<Rightarrow> 'k \<Rightarrow> 'v option"
    and put :: "'m \<Rightarrow> 'k \<Rightarrow> 'v \<Rightarrow> 'm"
    and del :: "'m \<Rightarrow> 'k \<Rightarrow> 'm"
    and keys :: "'m \<Rightarrow> 'k list"
  assumes wf_put: "wf m \<Longrightarrow> wf (put m k v)"
    and wf_del: "wf m \<Longrightarrow> wf (del m k)"
    and lookup_put: "wf m \<Longrightarrow> lookup (put m k v) = (lookup m)(k \<mapsto> v)"
    and lookup_del: "wf m \<Longrightarrow> lookup (del m k) = (lookup m)(k := None)"
    and keys_dom: "wf m \<Longrightarrow> set (keys m) = dom (lookup m)"
    and keys_distinct: "wf m \<Longrightarrow> distinct (keys m)"
begin

lemma lookup_put_same: "wf m \<Longrightarrow> lookup (put m k v) k = Some v"
  by (simp add: lookup_put)

lemma lookup_put_other: "wf m \<Longrightarrow> k' \<noteq> k \<Longrightarrow> lookup (put m k v) k' = lookup m k'"
  by (simp add: lookup_put)

lemma put_put: "wf m \<Longrightarrow> lookup (put (put m k v) k w) = lookup (put m k w)"
  by (simp add: lookup_put wf_put)

lemma del_put: "wf m \<Longrightarrow> lookup (del (put m k v) k) = lookup (del m k)"
  by (simp add: lookup_put lookup_del wf_put)

text \<open>Storing the entries of a list one by one, and deleting a list of keys.\<close>

lemma lookup_put_all:
  "wf m \<Longrightarrow> wf (foldl (\<lambda>m kv. put m (fst kv) (snd kv)) m kvs) \<and>
    lookup (foldl (\<lambda>m kv. put m (fst kv) (snd kv)) m kvs) = lookup m ++ map_of (rev kvs)"
proof (induction kvs arbitrary: m)
  case Nil
  then show ?case by simp
next
  case (Cons kv kvs)
  then show ?case by (simp add: wf_put lookup_put map_add_def fun_eq_iff split: option.splits)
qed

lemma lookup_del_all:
  "wf m \<Longrightarrow> wf (foldl del m ks) \<and> lookup (foldl del m ks) = lookup m |` (- set ks)"
proof (induction ks arbitrary: m)
  case Nil
  then show ?case by simp
next
  case (Cons k ks)
  then show ?case by (auto simp: wf_del lookup_del restrict_map_def fun_eq_iff)
qed

end

section \<open>SyncMap\<close>

text \<open>
  The entries, in the order \<^verbatim>\<open>Range\<close> visits them (Go leaves it open; no theorem below
  depends on it).  A method that returns \<^verbatim>\<open>val.(V)\<close> panics when \<^verbatim>\<open>val\<close> is a nil
  interface: \<open>nl\<close> says which stored values are (none of them when \<^verbatim>\<open>V\<close> is a struct).
\<close>

type_synonym ('k, 'v) sync_map = "('k \<times> 'v) list"

definition sm_wf :: "('k, 'v) sync_map \<Rightarrow> bool" where
  "sm_wf m \<longleftrightarrow> distinct (map fst m)"

definition new_sync_map :: "('k, 'v) sync_map" where
  "new_sync_map = []"

definition type_assert :: "('v \<Rightarrow> bool) \<Rightarrow> 'v option \<Rightarrow> 'v go" where
  "type_assert nl x =
    (case x of None \<Rightarrow> Panic PTypeAssert | Some v \<Rightarrow> if nl v then Panic PTypeAssert else Ok v)"

definition sm_load :: "('v \<Rightarrow> bool) \<Rightarrow> ('k, 'v) sync_map \<Rightarrow> 'k \<Rightarrow> 'v option go" where
  "sm_load nl m k =
    (case map_of m k of None \<Rightarrow> Ok None | Some v \<Rightarrow> bind_go (type_assert nl (Some v)) (\<lambda>v. Ok (Some v)))"

definition sm_store :: "('k, 'v) sync_map \<Rightarrow> 'k \<Rightarrow> 'v \<Rightarrow> ('k, 'v) sync_map" where
  "sm_store m k v = AList.update k v m"

definition sm_load_or_store ::
    "('v \<Rightarrow> bool) \<Rightarrow> ('k, 'v) sync_map \<Rightarrow> 'k \<Rightarrow> 'v \<Rightarrow> ('v \<times> bool) go \<times> ('k, 'v) sync_map" where
  "sm_load_or_store nl m k v =
    (case map_of m k of
      None \<Rightarrow> (bind_go (type_assert nl (Some v)) (\<lambda>a. Ok (a, False)), sm_store m k v)
    | Some w \<Rightarrow> (bind_go (type_assert nl (Some w)) (\<lambda>a. Ok (a, True)), m))"

definition sm_delete :: "('k, 'v) sync_map \<Rightarrow> 'k \<Rightarrow> ('k, 'v) sync_map" where
  "sm_delete m k = AList.delete k m"

text \<open>\<^verbatim>\<open>LoadAndDelete\<close> asserts the type before it looks at \<^verbatim>\<open>loaded\<close>.\<close>

definition sm_load_and_delete ::
    "('v \<Rightarrow> bool) \<Rightarrow> ('k, 'v) sync_map \<Rightarrow> 'k \<Rightarrow> ('v \<times> bool) go \<times> ('k, 'v) sync_map" where
  "sm_load_and_delete nl m k =
    (bind_go (type_assert nl (map_of m k)) (\<lambda>a. Ok (a, map_of m k \<noteq> None)), sm_delete m k)"

text \<open>\<^verbatim>\<open>Range\<close>: the callback sees each entry and says whether to go on.\<close>

fun sm_range :: "('k \<Rightarrow> 'v \<Rightarrow> 's \<Rightarrow> bool \<times> 's) \<Rightarrow> ('k, 'v) sync_map \<Rightarrow> 's \<Rightarrow> 's" where
  "sm_range f [] s = s"
| "sm_range f ((k, v) # m) s =
    (case f k v s of (go_on, s') \<Rightarrow> if go_on then sm_range f m s' else s')"

definition sm_write :: "('k, 'v) sync_map \<Rightarrow> ('k, 'v) sync_map \<Rightarrow> ('k, 'v) sync_map" where
  "sm_write m src = sm_range (\<lambda>k v d. (True, sm_store d k v)) src m"

definition sm_read :: "('k, 'v) sync_map \<Rightarrow> ('k, 'v) sync_map \<Rightarrow> ('k, 'v) sync_map" where
  "sm_read m dst = sm_range (\<lambda>k v d. (True, sm_store d k v)) m dst"

definition sm_raw_read :: "('k, 'v) sync_map \<Rightarrow> ('k \<rightharpoonup> 'v) \<Rightarrow> ('k \<rightharpoonup> 'v)" where
  "sm_raw_read m dst = sm_range (\<lambda>k v d. (True, d(k \<mapsto> v))) m dst"

definition sm_raw_write :: "('k, 'v) sync_map \<Rightarrow> ('k \<times> 'v) list \<Rightarrow> ('k, 'v) sync_map" where
  "sm_raw_write m src = foldl (\<lambda>m kv. sm_store m (fst kv) (snd kv)) m src"

lemma sm_wf_new [simp]: "sm_wf new_sync_map"
  by (simp add: sm_wf_def new_sync_map_def)

lemma sm_wf_store [go_inv, simp]: "sm_wf m \<Longrightarrow> sm_wf (sm_store m k v)"
  by (simp add: sm_wf_def sm_store_def distinct_update)

lemma sm_wf_delete [go_inv, simp]: "sm_wf m \<Longrightarrow> sm_wf (sm_delete m k)"
  by (simp add: sm_wf_def sm_delete_def distinct_delete)

lemma map_of_sm_store [simp]: "map_of (sm_store m k v) = (map_of m)(k \<mapsto> v)"
  by (simp add: sm_store_def update_conv')

lemma map_of_sm_delete [simp]: "map_of (sm_delete m k) = (map_of m)(k := None)"
  by (simp add: sm_delete_def delete_conv')

lemma sm_load_plain [simp]: "sm_load (\<lambda>_. False) m k = Ok (map_of m k)"
  by (simp add: sm_load_def type_assert_def split: option.splits)

interpretation sync: keyed_store sm_wf map_of sm_store sm_delete "map fst"
  by unfold_locales (auto simp: dom_map_of_conv_image_fst dest: sm_wf_def[THEN iffD1])

lemma sm_range_write:
  "sm_range (\<lambda>k v d. (True, sm_store d k v)) src m = foldl (\<lambda>m kv. sm_store m (fst kv) (snd kv)) m src"
  by (induction src arbitrary: m) auto

lemma map_of_rev_distinct: "distinct (map fst kvs) \<Longrightarrow> map_of (rev kvs) = map_of kvs"
  by (rule map_of_inject_set[THEN iffD2]) (auto simp: rev_map[symmetric])

lemma map_of_sm_write: "sm_wf m \<Longrightarrow> sm_wf src \<Longrightarrow> map_of (sm_write m src) = map_of m ++ map_of src"
  using sync.lookup_put_all[of m src]
  by (simp add: sm_write_def sm_range_write map_of_rev_distinct sm_wf_def)

lemma sm_raw_read_eq: "sm_wf m \<Longrightarrow> sm_raw_read m dst = dst ++ map_of m"
proof -
  have "sm_range (\<lambda>k v d. (True, d(k \<mapsto> v))) m dst = dst ++ map_of (rev m)" for dst
    by (induction m arbitrary: dst) (auto simp: map_add_def fun_eq_iff split: option.splits)
  moreover assume "sm_wf m"
  ultimately show ?thesis by (simp add: sm_raw_read_def map_of_rev_distinct sm_wf_def)
qed

section \<open>Difference, ConvertMapDataBind\<close>

fun difference_loop :: "'a list \<Rightarrow> 'a list \<Rightarrow> 'a list \<Rightarrow> 'a list" where
  "difference_loop existing [] result = result"
| "difference_loop existing (v # incoming) result =
    difference_loop existing incoming (if v \<in> set existing then result else result @ [v])"

definition difference :: "'a list \<Rightarrow> 'a list \<Rightarrow> 'a list" where
  "difference existing incoming = difference_loop existing incoming []"

lemma difference_loop_eq:
  "difference_loop ex inc res = res @ filter (\<lambda>v. v \<notin> set ex) inc"
  by (induction ex inc res rule: difference_loop.induct) auto

lemma difference_eq: "difference ex inc = filter (\<lambda>v. v \<notin> set ex) inc"
  by (simp add: difference_def difference_loop_eq)

fun convert_map_data_bind :: "(string \<rightharpoonup> goval) \<Rightarrow> string list \<Rightarrow> goval list go" where
  "convert_map_data_bind m [] = Ok []"
| "convert_map_data_bind m (k # ks) =
    (case m k of
      None \<Rightarrow> Err (bare_err ''not support key %s'')
    | Some v \<Rightarrow> bind_go (convert_map_data_bind m ks) (\<lambda>vs. Ok (v # vs)))"

lemma convert_map_data_bind_Ok_iff:
  "convert_map_data_bind m ks = Ok vs \<longleftrightarrow> map m ks = map Some vs"
  by (induction ks arbitrary: vs) (auto simp: bind_go_Ok_iff Cons_eq_map_conv split: option.splits)

end
