(* ===== verification/Cfg.thy ===== *)
theory Cfg
  imports Syncmap
begin

text \<open>
  The data the plans and fetchers are configured with: \<^verbatim>\<open>connpool/types/types.go\<close>,
  \<^verbatim>\<open>cmd/oncecall_sync/cfg/typed.go\<close> and \<^verbatim>\<open>state/ident.go\<close>.  A pointer field is an
  option; a Go map is an association list in the order one iteration visits it; a slice whose
  nilness the drivers look at (\<^verbatim>\<open>Args.Args\<close>) is an option of a list.
\<close>

section \<open>Connections\<close>

type_synonym rows = "goval list list"

record conn_args =
  a_Query :: string
  a_Args :: "rows option"
  a_IsTransaction :: bool

record conn_config =
  cc_DBType :: string
  cc_Name :: string
  cc_Server :: string
  cc_Id :: string
  cc_Password :: string
  cc_MaxConn :: int
  cc_OptionMap :: "(string \<times> goval) list"

definition zero_conn_config :: conn_config where
  "zero_conn_config = \<lparr>cc_DBType = [], cc_Name = [], cc_Server = [], cc_Id = [],
     cc_Password = [], cc_MaxConn = 0, cc_OptionMap = []\<rparr>"

section \<open>Scripts\<close>

record dyn_sync =
  ds_PlanIdx :: int
  ds_Col :: string
  ds_StartSyncOffset :: int

record sync_pos =
  sp_Dynamic :: "dyn_sync option"
  sp_Static :: "string option"

record prev_vm =
  pv_Lang :: string
  pv_Script :: string

record sync_bind =
  sb_Fix :: "(string \<times> sync_pos) list option"
  sb_PrevVm :: "prev_vm option"
  sb_Prev :: bool

record sync_plan =
  sy_Bind :: "sync_bind option"
  sy_Tran :: bool
  sy_Query :: string

record dyn_read =
  dr_PlanIdx :: int
  dr_Col :: string
  dr_RowIdx :: int

record read_pos =
  rp_Dynamic :: "dyn_read option"
  rp_Static :: "string option"

record read_bind =
  rb_Fix :: "(string \<times> read_pos) list option"
  rb_PrevVm :: "prev_vm option"
  rb_Prev :: bool

record read_plan =
  rd_Bind :: "read_bind option"
  rd_Tran :: bool
  rd_Query :: string
  rd_IsNext :: "string option"

record self_init =
  si_Query :: string
  si_Trigger :: string

record other_init =
  oi_Query :: "string list"
  oi_Trigger :: string

record script_init =
  in_Self :: "self_init list"
  in_Other :: "(string \<times> other_init) list"

record script_option =
  so_PlanRowBufCap :: int
  so_PlanColsBufAlloc :: int
  so_PlanRowBufIdleTime :: int

record read_entry =
  re_Ident :: string
  re_Plan :: read_plan

record script_config =
  sc_IntervalSec :: int
  sc_Init :: "script_init option"
  sc_Option :: "script_option option"
  sc_VmLang :: "string option"
  sc_Read :: "read_entry list"
  sc_Sync :: sync_plan

section \<open>The process\<close>

record log_file_cfg =
  lf_Dir :: string
  lf_MaxSize :: string
  lf_Rotate :: int

record sync_queries =
  q_SelfConnInfo :: string
  q_DbList :: string
  q_DbOption :: string
  q_Script :: string

record process_config =
  pc_Version :: int
  pc_ManageDB :: conn_config
  pc_PerfAddress :: "string option"
  pc_LogLevel :: string
  pc_LogFile :: "log_file_cfg option"
  pc_LoopIntervalSec :: int
  pc_UpdateTimeoutMs :: int
  pc_FetchTimeoutMs :: int
  pc_DbSyncList :: string
  pc_Sync :: sync_queries

definition line_break :: "nat \<Rightarrow> string" where
  "line_break tabs = CHR 0x0A # replicate tabs (CHR 0x09)"

definition default_script_query :: string where
  "default_script_query = ''SELECT s.script_name, s.script_data '' @
     line_break 6 @ ''from scripts s join db_script_link link '' @
     line_break 6 @ ''    on s.script_name = link.script_name '' @
     line_break 6 @ ''where link.db_uuid = $1''"

definition default_process_config :: process_config where
  "default_process_config =
    \<lparr>pc_Version = 1,
     pc_ManageDB = zero_conn_config\<lparr>cc_Name := ''postgres'', cc_Id := ''postgres'',
       cc_Password := ''postgres'', cc_Server := ''localhost:5432'', cc_DBType := ''postgres'',
       cc_MaxConn := 5\<rparr>,
     pc_PerfAddress = Some ''localhost:8001'',
     pc_LogLevel = ''debug'',
     pc_LogFile = Some \<lparr>lf_Dir = ''../log'', lf_MaxSize = ''100M'', lf_Rotate = 3\<rparr>,
     pc_LoopIntervalSec = 5, pc_UpdateTimeoutMs = 1000, pc_FetchTimeoutMs = 1000,
     pc_DbSyncList = ''SELECT db_uuid FROM db_list where is_enable = true'',
     pc_Sync =
       \<lparr>q_SelfConnInfo = ''SELECT * FROM db_list where db_uuid = $1 and is_enable = true'',
        q_DbList = ''SELECT * FROM db_list where is_enable = true and db_uuid != $1'',
        q_DbOption = ''SELECT opt.db_uuid, opt.\"key\", opt.value FROM db_option opt where exists db_uuid = $1'',
        q_Script = default_script_query\<rparr>\<rparr>"

section \<open>Thread keys\<close>

type_synonym thread_key = "string \<times> string"

definition new_ident_key :: "string \<Rightarrow> string \<Rightarrow> thread_key" where
  "new_ident_key dbID scriptName = (dbID, scriptName)"

definition db_id :: "thread_key \<Rightarrow> string" where
  "db_id k = fst k"

definition script_name :: "thread_key \<Rightarrow> string" where
  "script_name k = snd k"

lemma ident_key_sel [simp]: "db_id (new_ident_key d s) = d" "script_name (new_ident_key d s) = s"
  by (simp_all add: new_ident_key_def db_id_def script_name_def)

section \<open>The configuration parser\<close>

text \<open>\<^verbatim>\<open>extension/parser/parser.go\<close>; \<open>unmarshal\<close> is the TOML library's, with the value it
  makes of the one it is given.\<close>

definition toml_parse :: "(string \<Rightarrow> 'c go) \<Rightarrow> string \<Rightarrow> 'c go" where
  [simp]: "toml_parse unmarshal txt = wrap_err ''Toml Constructor failed'' (unmarshal txt)"

end
