(* ===== verification/Round_Store.thy ===== *)
theory Round_Store
  imports Prelude
begin

text \<open>
  The interface between a plan and the buffer that carries one round's query results to the
  bind parameters of the queries after it: cells are written column by column, row by row,
  and read back later in the same round.  \<open>alloc_table\<close> is the double loop of
  \<^verbatim>\<open>scriptPlan.allocCurrentDataToState\<close> over any such buffer; the locale proves once
  that a rectangular result table written by it reads back cell by cell, if it has at most the
  \<open>room\<close> rows the buffer can make slices for.  Both buffers of the
  repository (\<^verbatim>\<open>plan/plan_buffer.go\<close> and \<^verbatim>\<open>plan/new/plan_buffer.go\<close>) interpret it.
\<close>

definition alloc_row ::
    "(string \<Rightarrow> nat \<Rightarrow> goval \<Rightarrow> ('b, unit) goS) \<Rightarrow> string list \<Rightarrow> nat \<Rightarrow> goval list \<Rightarrow> ('b, unit) goS" where
  "alloc_row wr cols ri row =
    forS (enumerate 0 row) (\<lambda>(di, d).
      bindS (liftS (go_index cols (int di))) (\<lambda>c. wrapS ''plan buffer set failed'' (wr c ri d)))"

definition alloc_table ::
    "(string \<Rightarrow> nat \<Rightarrow> goval \<Rightarrow> ('b, unit) goS) \<Rightarrow> string list \<Rightarrow> goval list list \<Rightarrow> ('b, unit) goS" where
  "alloc_table wr cols rows = forS (enumerate 0 rows) (\<lambda>(ri, row). alloc_row wr cols ri row)"

lemma alloc_table_keeps:
  assumes "\<And>j r d. j < length cols \<Longrightarrow> keepsS I (wr (cols ! j) r d)"
  shows "keepsS I (alloc_table wr cols rows)"
proof -
  have "keepsS I (bindS (liftS (go_index cols (int di))) (\<lambda>c. wrapS ''plan buffer set failed'' (wr c ri d)))"
    for di ri d
    by (cases "di < length cols") (simp_all add: keepsS_wrap assms go_index_def)
  then show ?thesis
    unfolding alloc_table_def alloc_row_def by (intro keepsS_for) (auto intro!: keepsS_for)
qed

locale round_store =
  fixes inv :: "'b \<Rightarrow> bool"
    and height :: "'b \<Rightarrow> string \<Rightarrow> nat"
    and rd :: "'b \<Rightarrow> string \<Rightarrow> nat \<Rightarrow> goval go"
    and wr :: "string \<Rightarrow> nat \<Rightarrow> goval \<Rightarrow> ('b, unit) goS"
    and room :: nat
  assumes wr_ok: "inv b \<Longrightarrow> r \<le> height b c \<Longrightarrow> r < room \<Longrightarrow> fst (wr c r d b) = Ok ()"
    and wr_inv: "inv b \<Longrightarrow> r \<le> height b c \<Longrightarrow> r < room \<Longrightarrow> inv (snd (wr c r d b))"
    and wr_height: "inv b \<Longrightarrow> r \<le> height b c \<Longrightarrow> r < room \<Longrightarrow> r < height (snd (wr c r d b)) c"
    and wr_same: "inv b \<Longrightarrow> r \<le> height b c \<Longrightarrow> r < room \<Longrightarrow> rd (snd (wr c r d b)) c r = Ok d"
    and wr_below: "inv b \<Longrightarrow> r \<le> height b c \<Longrightarrow> r < room \<Longrightarrow> r' < r \<Longrightarrow>
      rd (snd (wr c r d b)) c r' = rd b c r'"
    and wr_other_height: "inv b \<Longrightarrow> r \<le> height b c \<Longrightarrow> r < room \<Longrightarrow> c' \<noteq> c \<Longrightarrow>
      height (snd (wr c r d b)) c' = height b c'"
    and wr_other: "inv b \<Longrightarrow> r \<le> height b c \<Longrightarrow> r < room \<Longrightarrow> c' \<noteq> c \<Longrightarrow> r' < height b c' \<Longrightarrow>
      rd (snd (wr c r d b)) c' r' = rd b c' r'"
begin

lemmas wr_laws = wr_ok wr_inv wr_height wr_same wr_below wr_other_height wr_other

text \<open>
  What the loops maintain: the first \<open>k\<close> rows of the table are in the buffer, and so are
  the first \<open>j\<close> cells of row \<open>k\<close>.
\<close>

definition stored :: "string list \<Rightarrow> goval list list \<Rightarrow> nat \<Rightarrow> nat \<Rightarrow> 'b \<Rightarrow> bool" where
  "stored cols rows k j b \<longleftrightarrow> inv b \<and>
    (\<forall>di < length cols. k \<le> height b (cols ! di) \<and> (di < j \<longrightarrow> k < height b (cols ! di))) \<and>
    (\<forall>ri di. di < length cols \<longrightarrow> ri < k \<or> (ri = k \<and> di < j) \<longrightarrow>
      rd b (cols ! di) ri = Ok (rows ! ri ! di))"

lemma stored_start: "inv b \<Longrightarrow> stored cols rows 0 0 b"
  by (simp add: stored_def)

lemma stored_next_row:
  "stored cols rows k (length cols) b \<Longrightarrow> stored cols rows (Suc k) 0 b"
  by (auto simp: stored_def less_Suc_eq Suc_le_eq)

lemma stored_cell:
  assumes "stored cols rows k j b" "j < length cols" "distinct cols" "d = rows ! k ! j" "k < room"
  shows "fst (wr (cols ! j) k d b) = Ok ()"
    and "stored cols rows k (Suc j) (snd (wr (cols ! j) k d b))"
proof -
  have b: "inv b" "k \<le> height b (cols ! j)" "k < room"
    using assms(1,2,5) by (auto simp: stored_def)
  show "fst (wr (cols ! j) k d b) = Ok ()" by (rule wr_ok[OF b])
  let ?b = "snd (wr (cols ! j) k d b)"
  have ne: "cols ! di \<noteq> cols ! j" if "di < length cols" "di \<noteq> j" for di
    using that assms(2,3) by (simp add: nth_eq_iff_index_eq)
  have hts: "k \<le> height ?b (cols ! di) \<and> (di < Suc j \<longrightarrow> k < height ?b (cols ! di))"
    if di: "di < length cols" for di
  proof (cases "di = j")
    case True
    then show ?thesis using wr_height[OF b, of d] by simp
  next
    case False
    then show ?thesis
      using assms(1) di wr_other_height[OF b ne[OF di False], of d] by (auto simp: stored_def)
  qed
  have vals: "rd ?b (cols ! di) ri = Ok (rows ! ri ! di)"
    if di: "di < length cols" and ri: "ri < k \<or> (ri = k \<and> di < Suc j)" for ri di
  proof (cases "di = j")
    case True
    then show ?thesis
      using assms(1,2,4) ri wr_same[OF b, of d] wr_below[OF b, of ri d] by (auto simp: stored_def)
  next
    case False
    then have "ri < height b (cols ! di)" and "rd b (cols ! di) ri = Ok (rows ! ri ! di)"
      using assms(1) di ri by (auto simp: stored_def dest: order_less_le_trans)
    then show ?thesis using wr_other[OF b ne[OF di False]] by simp
  qed
  show "stored cols rows k (Suc j) ?b"
    unfolding stored_def using wr_inv[OF b, of d] hts vals by blast
qed

lemma alloc_row_stored:
  assumes "stored cols rows k 0 b" "distinct cols" "length (rows ! k) = length cols" "k < room"
  shows "\<exists>b'. alloc_row wr cols k (rows ! k) b = (Ok (), b') \<and> stored cols rows (Suc k) 0 b'"
proof -
  let ?body = "\<lambda>(di, d). bindS (liftS (go_index cols (int di)))
    (\<lambda>c. wrapS ''plan buffer set failed'' (wr c k d))"
  have "\<exists>b'. forS (enumerate 0 (rows ! k)) ?body b = (Ok (), b') \<and>
      stored cols rows k (length (enumerate 0 (rows ! k))) b'"
  proof (rule forS_total)
    show "stored cols rows k 0 b" by fact
  next
    fix j t
    assume j: "j < length (enumerate 0 (rows ! k))" and st: "stored cols rows k j t"
    have jn: "j < length cols" using j assms(3) by simp
    have step: "?body (enumerate 0 (rows ! k) ! j) t =
        wrapS ''plan buffer set failed'' (wr (cols ! j) k (rows ! k ! j)) t"
      using j jn by (simp add: nth_enumerate_eq)
    show "\<exists>t'. ?body (enumerate 0 (rows ! k) ! j) t = (Ok (), t') \<and> stored cols rows k (Suc j) t'"
      unfolding step wrapS_eq using stored_cell[OF st jn assms(2) refl assms(4)] by simp
  qed
  then show ?thesis
    using assms(3) by (auto simp: alloc_row_def intro: stored_next_row)
qed

theorem alloc_table_stored:
  assumes "inv b" "distinct cols" "\<And>row. row \<in> set rows \<Longrightarrow> length row = length cols" "length rows \<le> room"
  shows "\<exists>b'. alloc_table wr cols rows b = (Ok (), b') \<and> inv b' \<and>
    (\<forall>ri < length rows. \<forall>di < length cols. rd b' (cols ! di) ri = Ok (rows ! ri ! di))"
proof -
  have "\<exists>b'. forS (enumerate 0 rows) (\<lambda>(ri, row). alloc_row wr cols ri row) b = (Ok (), b') \<and>
      stored cols rows (length (enumerate 0 rows)) 0 b'"
  proof (rule forS_total)
    show "stored cols rows 0 0 b" using assms(1) by (rule stored_start)
  next
    fix k t
    assume k: "k < length (enumerate 0 rows)" and st: "stored cols rows k 0 t"
    have "length (rows ! k) = length cols" "k < room" using k assms(3,4) by simp_all
    from alloc_row_stored[OF st assms(2) this] k
    show "\<exists>t'. (case enumerate 0 rows ! k of (ri, row) \<Rightarrow> alloc_row wr cols ri row) t = (Ok (), t') \<and>
        stored cols rows (Suc k) 0 t'"
      by (simp add: nth_enumerate_eq)
  qed
  then show ?thesis by (auto simp: alloc_table_def stored_def)
qed

text \<open>
  A property of single columns that each write advances by one row holds, after the table,
  at the table's height.
\<close>

lemma alloc_table_column_inv:
  assumes "inv b" "distinct cols" "\<And>row. row \<in> set rows \<Longrightarrow> length row = length cols"
    and start: "\<And>c. c \<in> set cols \<Longrightarrow> Q 0 b c"
    and step: "\<And>b k c d. inv b \<Longrightarrow> k \<le> height b c \<Longrightarrow> k < room \<Longrightarrow> Q k b c \<Longrightarrow> Q (Suc k) (snd (wr c k d b)) c"
    and other: "\<And>b k k' c c' d. inv b \<Longrightarrow> k \<le> height b c \<Longrightarrow> k < room \<Longrightarrow> c' \<noteq> c \<Longrightarrow> Q k' b c' \<Longrightarrow>
      Q k' (snd (wr c k d b)) c'"
    and "alloc_table wr cols rows b = (r, b')" "c \<in> set cols" "length rows \<le> room"
  shows "Q (length rows) b' c"
proof -
  define I where "I k j t \<longleftrightarrow> stored cols rows k j t \<and>
    (\<forall>di < length cols. Q (if di < j then Suc k else k) t (cols ! di))" for k j t
  have cell: "fst (wr (cols ! j) k (rows ! k ! j) t) = Ok () \<and> I k (Suc j) (snd (wr (cols ! j) k (rows ! k ! j) t))"
    if I: "I k j t" and j: "j < length cols" and k: "k < room" for k j t
  proof -
    have st: "stored cols rows k j t" and t: "inv t" "k \<le> height t (cols ! j)" "k < room"
      using I j k by (auto simp: I_def stored_def)
    have "Q (if di < Suc j then Suc k else k) (snd (wr (cols ! j) k (rows ! k ! j) t)) (cols ! di)"
      if di: "di < length cols" for di
    proof (cases "di = j")
      case True
      then show ?thesis using I j step[OF t] by (auto simp: I_def)
    next
      case False
      then have "cols ! di \<noteq> cols ! j" using di j assms(2) by (simp add: nth_eq_iff_index_eq)
      then show ?thesis using I di False other[OF t] by (auto simp: I_def less_Suc_eq)
    qed
    then show ?thesis
      using stored_cell[OF st j assms(2) refl k] by (simp add: I_def)
  qed
  have row: "\<exists>t'. alloc_row wr cols k (rows ! k) t = (Ok (), t') \<and> I (Suc k) 0 t'"
    if "I k 0 t" "k < length rows" for k t
  proof -
    have len: "length (rows ! k) = length cols" and k: "k < room" using that(2) assms(3,9) by simp_all
    have "\<exists>t'. alloc_row wr cols k (rows ! k) t = (Ok (), t') \<and>
        I k (length (enumerate 0 (rows ! k))) t'"
      unfolding alloc_row_def
    proof (rule forS_total)
      fix j u
      assume "j < length (enumerate 0 (rows ! k))" and u: "I k j u"
      then have j: "j < length cols" using len by simp
      show "\<exists>t'. (case enumerate 0 (rows ! k) ! j of (di, d) \<Rightarrow>
          bindS (liftS (go_index cols (int di))) (\<lambda>c. wrapS ''plan buffer set failed'' (wr c k d))) u =
          (Ok (), t') \<and> I k (Suc j) t'"
        using cell[OF u j k] j len by (simp add: nth_enumerate_eq wrapS_eq)
    qed (fact that(1))
    then show ?thesis using len by (auto simp: I_def intro: stored_next_row)
  qed
  have "\<exists>t'. alloc_table wr cols rows b = (Ok (), t') \<and> I (length (enumerate 0 rows)) 0 t'"
    unfolding alloc_table_def
  proof (rule forS_total)
    show "I 0 0 b" using stored_start[OF assms(1)] start by (simp add: I_def)
  next
    fix k t
    assume "k < length (enumerate 0 rows)" "I k 0 t"
    then show "\<exists>t'. (case enumerate 0 rows ! k of (ri, row) \<Rightarrow> alloc_row wr cols ri row) t =
        (Ok (), t') \<and> I (Suc k) 0 t'"
      using row by (simp add: nth_enumerate_eq)
  qed
  then show ?thesis using assms(7,8) by (auto simp: I_def in_set_conv_nth)
qed

end

end
