(* ===== verification/PlanBuffer.thy ===== *)
theory PlanBuffer
  imports Round_Store "HOL-Library.AList"
begin

text \<open>
  \<^verbatim>\<open>cmd/oncecall_sync/plan/plan_buffer.go\<close>: the buffer of the running plan.  One map
  per read plan, from column names to slices of cells, each cell stamped with the round
  (\<^verbatim>\<open>seq\<close>, microseconds) that wrote it.  Sequence numbers are 64-bit words compared
  signed; lengths and indices are \<open>int\<close>.
\<close>

section \<open>State and operations\<close>

record cell =
  c_data :: goval
  c_seq :: int64

type_synonym plan_map = "(string \<times> cell list) list"

record plan_buffer =
  pb_m :: "plan_map list"
  pb_rowCap :: int
  pb_rowIdleSec :: int

definition zero_cell :: cell where
  "zero_cell = \<lparr>c_data = GNil, c_seq = 0\<rparr>"

definition new_plan_param_buffer :: "int \<Rightarrow> int \<Rightarrow> int \<Rightarrow> int \<Rightarrow> plan_buffer go" where
  "new_plan_param_buffer count mapInitSize rowInitCap rowIdleSec =
    bind_go (go_make count [])
      (\<lambda>obj. Ok \<lparr>pb_m = obj, pb_rowCap = rowInitCap, pb_rowIdleSec = rowIdleSec\<rparr>)"

text \<open>\<^verbatim>\<open>planMap[col]\<close>: a missing key reads as the nil slice.\<close>

definition col_of :: "plan_map \<Rightarrow> string \<Rightarrow> cell list" where
  "col_of pm col = (case map_of pm col of None \<Rightarrow> [] | Some c \<Rightarrow> c)"

definition pb_get :: "plan_buffer \<Rightarrow> int \<Rightarrow> string \<Rightarrow> int \<Rightarrow> int64 \<Rightarrow> goval go" where
  "pb_get b idx col row seq =
    (if int (length (pb_m b)) \<le> idx then Ok GNil
     else bind_go (go_index (pb_m b) idx) (\<lambda>planMap.
       let c = col_of planMap col in
       if int (length c) \<le> row
       then Err (sentinel_err OutLenError ''plan len :%d, search idx : %d'')
       else bind_go (go_index c row) (\<lambda>x.
         if sint seq < sint (c_seq x) then Ok GNil else Ok (c_data x))))"

text \<open>\<^verbatim>\<open>int64(time.Second*idle)\<close>, with 60 in place of a non-positive setting.\<close>

definition idle_limit :: "int \<Rightarrow> int64" where
  "idle_limit sec = word_of_int (1000000000 * (if sec \<le> 0 then 60 else sec))"

text \<open>What \<^verbatim>\<open>set\<close> makes of the column before it stores the cell.\<close>

definition pb_grow :: "plan_buffer \<Rightarrow> cell list \<Rightarrow> int \<Rightarrow> int64 \<Rightarrow> cell list go" where
  "pb_grow b c row seq =
    (if int (length c) \<le> row
     then bind_go (go_make (int (length c) + pb_rowCap b) zero_cell) (\<lambda>temp. Ok (go_copy temp c))
     else bind_go (go_index c (int (length c) - 1)) (\<lambda>last.
       if sint (idle_limit (pb_rowIdleSec b)) < sint (seq - c_seq last)
       then bind_go (go_make (row + pb_rowCap b) zero_cell) (\<lambda>temp. Ok (go_copy temp c))
       else Ok c))"

definition put_col :: "plan_buffer \<Rightarrow> nat \<Rightarrow> string \<Rightarrow> cell list \<Rightarrow> plan_buffer" where
  "put_col b i col c = b\<lparr>pb_m := (pb_m b)[i := AList.update col c (pb_m b ! i)]\<rparr>"

definition pb_set ::
    "int \<Rightarrow> string \<Rightarrow> int \<Rightarrow> goval \<Rightarrow> int64 \<Rightarrow> (plan_buffer, unit) goS" where
  "pb_set idx col row data seq b =
    (if int (length (pb_m b)) \<le> idx
     then (Err (EWrap (Some (ESys ''os.ErrInvalid'')) ''overflow %d <= %d''), b)
     else case go_index (pb_m b) idx of
       Ok planMap \<Rightarrow>
         (case pb_grow b (col_of planMap col) row seq of
           Ok c \<Rightarrow>
             (case go_store c row \<lparr>c_data = data, c_seq = seq\<rparr> of
               Ok c' \<Rightarrow> (Ok (), put_col b (nat idx) col c')
             | Err e \<Rightarrow> (Err e, put_col b (nat idx) col c)
             | Panic p \<Rightarrow> (Panic p, put_col b (nat idx) col c))
         | Err e \<Rightarrow> (Err e, b)
         | Panic p \<Rightarrow> (Panic p, b))
     | Err e \<Rightarrow> (Err e, b)
     | Panic p \<Rightarrow> (Panic p, b))"

definition overflow_err :: gerror where
  "overflow_err = EWrap (Some (ESys ''os.ErrInvalid'')) ''overflow %d <= %d''"

definition max_col_size :: "plan_buffer \<Rightarrow> int \<Rightarrow> int64 \<Rightarrow> int go" where
  "max_col_size b idx seq =
    (if int (length (pb_m b)) \<le> idx then Err overflow_err
     else bind_go (go_index (pb_m b) idx) (\<lambda>planMap. Ok (int (length planMap))))"

definition max_row_size :: "plan_buffer \<Rightarrow> int \<Rightarrow> int64 \<Rightarrow> int go" where
  "max_row_size b idx seq =
    (if int (length (pb_m b)) \<le> idx then Err overflow_err
     else bind_go (go_index (pb_m b) idx) (\<lambda>planMap.
       Ok (foldl (\<lambda>cnt kv. max cnt (int (length (snd kv)))) 0 planMap)))"

fun max_size_loop :: "plan_buffer \<Rightarrow> int64 \<Rightarrow> nat list \<Rightarrow> int \<Rightarrow> int \<Rightarrow> (int \<times> int) go" where
  "max_size_loop b seq [] maxC maxR = Ok (maxC, maxR)"
| "max_size_loop b seq (idx # idxs) maxC maxR =
    bind_go (wrap_err '''' (max_col_size b (int idx) seq)) (\<lambda>c.
    bind_go (wrap_err '''' (max_row_size b (int idx) seq)) (\<lambda>r.
      max_size_loop b seq idxs (max maxC c) (max maxR r)))"

definition max_size :: "plan_buffer \<Rightarrow> int64 \<Rightarrow> (int \<times> int) go" where
  "max_size b seq = max_size_loop b seq [0..<length (pb_m b)] 0 0"

section \<open>Writing and reading one cell\<close>

definition pb_col :: "nat \<Rightarrow> plan_buffer \<Rightarrow> string \<Rightarrow> cell list" where
  "pb_col i b col = col_of (pb_m b ! i) col"

definition pb_wf :: "plan_buffer \<Rightarrow> bool" where
  "pb_wf b \<longleftrightarrow> (\<forall>pm \<in> set (pb_m b). distinct (map fst pm))"

lemma new_plan_param_buffer_wf:
  "new_plan_param_buffer n mi rc ri = Ok b \<Longrightarrow>
    pb_wf b \<and> int (length (pb_m b)) = n \<and> pb_rowCap b = rc"
  by (auto simp: new_plan_param_buffer_def go_make_def pb_wf_def bind_go_Ok_iff split: if_splits)

lemma put_col_simps [simp]:
  "length (pb_m (put_col b i col c)) = length (pb_m b)"
  "pb_rowCap (put_col b i col c) = pb_rowCap b"
  "pb_rowIdleSec (put_col b i col c) = pb_rowIdleSec b"
  by (simp_all add: put_col_def)

lemma pb_wf_put_col [simp]: "pb_wf b \<Longrightarrow> i < length (pb_m b) \<Longrightarrow> pb_wf (put_col b i col c)"
  by (auto simp: pb_wf_def put_col_def set_conv_nth nth_list_update distinct_update)

lemma pb_col_put_col:
  "i < length (pb_m b) \<Longrightarrow>
    pb_col j (put_col b i col c) col' = (if j = i \<and> col' = col then c else pb_col j b col')"
  by (auto simp: pb_col_def put_col_def col_of_def nth_list_update update_conv')

lemma pb_get_eq:
  assumes "i < length (pb_m b)" "r < length (pb_col i b col)"
  shows "pb_get b (int i) col (int r) seq =
    (let x = pb_col i b col ! r in Ok (if sint seq < sint (c_seq x) then GNil else c_data x))"
  using assms by (auto simp: pb_get_def pb_col_def Let_def)

text \<open>
  With a positive row capacity the column a cell is stored into is long enough, keeps the
  cells below the row, and never exceeds the old length by more than the capacity.
\<close>

lemma pb_grow_ok:
  assumes "1 \<le> pb_rowCap b" "0 \<le> row" "row \<le> int (length c)"
  shows "\<exists>c'. pb_grow b c row seq = Ok c' \<and> row < int (length c') \<and> (\<forall>r < nat row. c' ! r = c ! r)"
proof (cases "int (length c) \<le> row")
  case True
  with assms show ?thesis
    by (auto simp: pb_grow_def go_make_def nth_go_copy)
next
  case False
  then show ?thesis
    using assms by (auto simp: pb_grow_def go_make_def go_index_def nth_go_copy)
qed

lemma pb_set_ok:
  assumes "i < length (pb_m b)" "1 \<le> pb_rowCap b" "r \<le> length (pb_col i b col)"
  obtains c where "pb_set (int i) col (int r) d seq b = (Ok (), put_col b i col c)"
    "r < length c" "c ! r = \<lparr>c_data = d, c_seq = seq\<rparr>"
    "\<And>r'. r' < r \<Longrightarrow> c ! r' = pb_col i b col ! r'"
proof -
  obtain c' where c': "pb_grow b (pb_col i b col) (int r) seq = Ok c'" "r < length c'"
      "\<forall>r' < r. c' ! r' = pb_col i b col ! r'"
    using pb_grow_ok[of b "int r" "pb_col i b col" seq] assms(2,3) by auto
  have "pb_set (int i) col (int r) d seq b =
      (Ok (), put_col b i col (c'[r := \<lparr>c_data = d, c_seq = seq\<rparr>]))"
    using assms(1) c'(1,2) by (simp add: pb_set_def pb_col_def)
  then show ?thesis by (rule that) (use c'(2,3) in auto)
qed

lemma pb_set_result:
  assumes "pb_set idx col row d seq b = (r, b')"
  shows "b' = b \<or> (\<exists>c. 0 \<le> idx \<and> idx < int (length (pb_m b)) \<and> b' = put_col b (nat idx) col c)"
proof (cases "0 \<le> idx \<and> idx < int (length (pb_m b))")
  case True
  then show ?thesis
    using assms by (auto simp: pb_set_def go_index_def split: go.splits)
next
  case False
  then show ?thesis using assms by (auto simp: pb_set_def go_index_def split: if_splits)
qed

lemma pb_set_frame:
  assumes "pb_set idx col row d seq b = (r, b')"
  shows "length (pb_m b') = length (pb_m b)" "pb_rowCap b' = pb_rowCap b"
    and "(int j, c) \<noteq> (idx, col) \<Longrightarrow> pb_col j b' c = pb_col j b c"
    and "pb_wf b \<Longrightarrow> pb_wf b'"
proof -
  have "length (pb_m b') = length (pb_m b) \<and> pb_rowCap b' = pb_rowCap b \<and>
      ((int j, c) \<noteq> (idx, col) \<longrightarrow> pb_col j b' c = pb_col j b c) \<and> (pb_wf b \<longrightarrow> pb_wf b')"
    using pb_set_result[OF assms]
  proof (elim disjE exE conjE)
    fix x
    assume "0 \<le> idx" "idx < int (length (pb_m b))" and b': "b' = put_col b (nat idx) col x"
    then obtain i where "idx = int i" "i < length (pb_m b)" by (metis nat_0_le nat_less_iff)
    then show ?thesis by (simp add: b' pb_col_put_col)
  qed simp
  then show "length (pb_m b') = length (pb_m b)" "pb_rowCap b' = pb_rowCap b"
    and "(int j, c) \<noteq> (idx, col) \<Longrightarrow> pb_col j b' c = pb_col j b c"
    and "pb_wf b \<Longrightarrow> pb_wf b'"
    by blast+
qed

section \<open>The buffer implements the round store\<close>

definition pb_inv :: "nat \<Rightarrow> plan_buffer \<Rightarrow> bool" where
  "pb_inv i b \<longleftrightarrow> i < length (pb_m b) \<and> 1 \<le> pb_rowCap b \<and> pb_wf b"

interpretation pbuf: round_store "pb_inv i" "\<lambda>b c. length (pb_col i b c)"
    "\<lambda>b c r. pb_get b (int i) c (int r) seq" "\<lambda>c r d. pb_set (int i) c (int r) d seq" room
  for i seq room
proof -
  have step: "\<exists>c'. pb_set (int i) c (int r) d seq b = (Ok (), put_col b i c c') \<and> r < length c' \<and>
      c' ! r = \<lparr>c_data = d, c_seq = seq\<rparr> \<and> (\<forall>r' < r. c' ! r' = pb_col i b c ! r')"
    if "pb_inv i b" "r \<le> length (pb_col i b c)" for b r c d
    by (rule pb_set_ok[of i b r c d seq]) (use that in \<open>auto simp: pb_inv_def\<close>)
  show "round_store (pb_inv i) (\<lambda>b c. length (pb_col i b c))
      (\<lambda>b c r. pb_get b (int i) c (int r) seq) (\<lambda>c r d. pb_set (int i) c (int r) d seq) room"
  proof (unfold_locales, goal_cases)
    case (1 b r c d)
    show ?case using step[OF 1(1,2), of d] by auto
  next
    case (2 b r c d)
    show ?case using step[OF 2(1,2), of d] 2 by (auto simp: pb_inv_def)
  next
    case (3 b r c d)
    show ?case using step[OF 3(1,2), of d] 3 by (auto simp: pb_inv_def pb_col_put_col)
  next
    case (4 b r c d)
    show ?case using step[OF 4(1,2), of d] 4 by (auto simp: pb_inv_def pb_col_put_col pb_get_eq)
  next
    case (5 b r c r' d)
    show ?case using step[OF 5(1,2), of d] 5 by (auto simp: pb_inv_def pb_col_put_col pb_get_eq)
  next
    case (6 b r c c' d)
    show ?case using step[OF 6(1,2), of d] 6 by (auto simp: pb_inv_def pb_col_put_col)
  next
    case (7 b r c c' r' d)
    show ?case using step[OF 7(1,2), of d] 7 by (auto simp: pb_inv_def pb_col_put_col pb_get_eq)
  qed
qed

section \<open>Reading back, sizes\<close>

lemma pb_get_put_col:
  assumes "i < length (pb_m b)" "r < length c"
  shows "pb_get (put_col b i col c) (int i) col (int r) seq =
    Ok (if sint seq < sint (c_seq (c ! r)) then GNil else c_data (c ! r))"
  using assms by (simp add: pb_get_eq pb_col_put_col Let_def)

lemma pb_set_Ok_cases:
  assumes "pb_set idx col row d seq b = (Ok (), b')"
  obtains i r c where "idx = int i" "i < length (pb_m b)" "row = int r" "r < length c"
    "b' = put_col b i col c" "c ! r = \<lparr>c_data = d, c_seq = seq\<rparr>"
proof -
  obtain c where c: "0 \<le> idx" "idx < int (length (pb_m b))"
      "0 \<le> row" "row < int (length c)"
      "b' = put_col b (nat idx) col (c[nat row := \<lparr>c_data = d, c_seq = seq\<rparr>])"
    using assms
    by (auto simp: pb_set_def go_index_def go_store_def split: if_splits go.splits)
  show ?thesis
    by (rule that[of "nat idx" "nat row" "c[nat row := \<lparr>c_data = d, c_seq = seq\<rparr>]"])
      (use c in auto)
qed

text \<open>Reading the cell a \<^verbatim>\<open>set\<close> has just written gives the value back to every
  reader of that round or a later one, and nil to a reader whose round is older; the read
  never fails and never panics.\<close>

theorem pb_set_get:
  assumes "pb_set idx col row d seq b = (Ok (), b')"
  shows "pb_get b' idx col row seq' = Ok (if sint seq' < sint seq then GNil else d)"
  using assms by (rule pb_set_Ok_cases) (simp add: pb_get_put_col)

lemma pb_set_get_witness:
  "pb_get (snd (pb_set 0 ''c'' 1 (GInt 9) 5 \<lparr>pb_m = [[]], pb_rowCap = 2, pb_rowIdleSec = 0\<rparr>)) 0 ''c'' 1 5 = Ok (GInt 9)"
proof -
  let ?run = "pb_set 0 ''c'' 1 (GInt 9) 5 \<lparr>pb_m = [[]], pb_rowCap = 2, pb_rowIdleSec = 0\<rparr>"
  have "?run = (Ok (), snd ?run)"
    by (simp add: pb_set_def pb_grow_def col_of_def go_index_def go_store_def go_make_def prod_eq_iff)
  from pb_set_get[OF this, of 5] show ?thesis by simp
qed

text \<open>With a row capacity of 0 (what an \<^verbatim>\<open>[option]\<close> table without
  \<^verbatim>\<open>plan_buf_cap\<close> gives) storing into a row the column does not have yet always
  panics with an index out of range.\<close>

theorem pb_set_no_capacity_panics:
  assumes "pb_rowCap b = 0" "i < length (pb_m b)" "length (pb_col i b col) \<le> r"
  shows "fst (pb_set (int i) col (int r) d seq b) = Panic PIndex"
  using assms
  by (simp add: pb_set_def pb_grow_def go_make_def go_store_def pb_col_def)

lemma pb_set_no_capacity_panics_witness:
  "fst (pb_set 0 ''c'' 0 GNil 5 \<lparr>pb_m = [[]], pb_rowCap = 0, pb_rowIdleSec = 0\<rparr>) = Panic PIndex"
  using pb_set_no_capacity_panics[of "\<lparr>pb_m = [[]], pb_rowCap = 0, pb_rowIdleSec = 0\<rparr>" 0 "''c''" 0 GNil 5]
  by (simp add: pb_col_def col_of_def)

lemma foldl_max_eq:
  fixes f :: "'x \<Rightarrow> int"
  shows "foldl (\<lambda>m x. max m (f x)) z xs = Max (insert z (f ` set xs))"
proof (induction xs arbitrary: z)
  case Nil
  then show ?case by simp
next
  case (Cons x xs)
  have "foldl (\<lambda>m x. max m (f x)) z (x # xs) = Max (insert (max z (f x)) (f ` set xs))"
    using Cons.IH by simp
  also have "\<dots> = Max (insert z (insert (f x) (f ` set xs)))"
    by (cases "xs = []") (simp_all add: Max.insert_not_elem max.assoc[symmetric] Max_insert)
  finally show ?case by simp
qed

lemma max_row_size_eq:
  "i < length (pb_m b) \<Longrightarrow>
    max_row_size b (int i) seq = Ok (Max (insert 0 ((\<lambda>kv. int (length (snd kv))) ` set (pb_m b ! i))))"
  by (simp add: max_row_size_def foldl_max_eq)

lemma max_col_size_eq:
  "i < length (pb_m b) \<Longrightarrow> max_col_size b (int i) seq = Ok (int (length (pb_m b ! i)))"
  by (simp add: max_col_size_def)

definition plan_rows :: "plan_buffer \<Rightarrow> nat \<Rightarrow> int" where
  "plan_rows b i = Max (insert 0 ((\<lambda>kv. int (length (snd kv))) ` set (pb_m b ! i)))"

lemma max_size_loop_eq:
  "(\<And>i. i \<in> set is \<Longrightarrow> i < length (pb_m b)) \<Longrightarrow>
    max_size_loop b seq is c r =
      Ok (Max (insert c ((\<lambda>i. int (length (pb_m b ! i))) ` set is)), Max (insert r (plan_rows b ` set is)))"
proof (induction "is" arbitrary: c r)
  case Nil
  then show ?case by simp
next
  case (Cons i "is")
  have "max_size_loop b seq (i # is) c r =
      max_size_loop b seq is (max c (int (length (pb_m b ! i)))) (max r (plan_rows b i))"
    using Cons.prems by (simp add: max_col_size_eq max_row_size_eq plan_rows_def)
  then show ?case
    using Cons by (cases "is = []") (simp_all add: Max_insert max.assoc[symmetric])
qed

lemma pb_col_le_plan_rows: "int (length (pb_col i b col)) \<le> plan_rows b i"
  by (auto simp: pb_col_def col_of_def plan_rows_def Max_ge_iff split: option.splits dest!: map_of_SomeD)
    (metis order_refl snd_conv)

text \<open>\<^verbatim>\<open>maxSize\<close> never fails: it returns bounds on the number of columns of every
  plan and on the length of every column, and the row bound is attained (or 0).\<close>

theorem max_size_bounds:
  shows "\<exists>c r. max_size b seq = Ok (c, r) \<and>
    (\<forall>i < length (pb_m b). int (length (pb_m b ! i)) \<le> c \<and> (\<forall>col. int (length (pb_col i b col)) \<le> r)) \<and>
    (r = 0 \<or> (\<exists>i < length (pb_m b). \<exists>kv \<in> set (pb_m b ! i). r = int (length (snd kv))))"
proof -
  let ?n = "length (pb_m b)"
  let ?r = "Max (insert 0 (plan_rows b ` {..<?n}))"
  have eq: "max_size b seq = Ok (Max (insert 0 ((\<lambda>i. int (length (pb_m b ! i))) ` {..<?n})), ?r)"
    unfolding max_size_def by (subst max_size_loop_eq) (auto simp: atLeast0LessThan)
  have "?r = 0 \<or> ?r \<in> plan_rows b ` {..<?n}"
    using Max_in[of "insert 0 (plan_rows b ` {..<?n})"] by auto
  moreover have "plan_rows b i = 0 \<or> (\<exists>kv \<in> set (pb_m b ! i). plan_rows b i = int (length (snd kv)))" for i
    using Max_in[of "insert 0 ((\<lambda>kv. int (length (snd kv))) ` set (pb_m b ! i))"]
    by (auto simp: plan_rows_def)
  ultimately have "?r = 0 \<or> (\<exists>i < ?n. \<exists>kv \<in> set (pb_m b ! i). ?r = int (length (snd kv)))"
    by (metis (no_types, lifting) imageE lessThan_iff)
  moreover have "int (length (pb_col i b col)) \<le> ?r" if "i < ?n" for i col
    using that pb_col_le_plan_rows[of i b col] by (auto simp: Max_ge_iff)
  ultimately show ?thesis using eq by (auto simp: Max_ge_iff)
qed

section \<open>Padding\<close>

text \<open>
  The cells after the last row written in a fresh column are zero cells, and there are
  \<open>rowCap - 1\<close> of them: each write reallocates because the stamp 0 of the last cell is
  always too old.
\<close>

definition padded :: "nat \<Rightarrow> nat \<Rightarrow> cell list \<Rightarrow> bool" where
  "padded cap k c \<longleftrightarrow>
    (if k = 0 then c = []
     else length c = k - 1 + cap \<and> (\<forall>j. k \<le> j \<and> j < length c \<longrightarrow> c ! j = zero_cell))"

lemma padded_grow:
  assumes "pb_rowCap b = int cap" "1 \<le> cap" "sint (idle_limit (pb_rowIdleSec b)) < sint seq"
    and "padded cap k c"
  shows "\<exists>c'. pb_grow b c (int k) seq = Ok c' \<and> padded cap (Suc k) (c'[k := x])"
proof (cases "length c \<le> k")
  case True
  then have "length c = k" "k = 0 \<or> cap = 1"
    using assms(2,4) by (auto simp: padded_def split: if_splits)
  with assms(1,2) show ?thesis
    by (auto simp: pb_grow_def go_make_def padded_def nat_int_add nth_go_copy nth_list_update
        simp flip: of_nat_add)
next
  case False
  then have k: "k \<noteq> 0" "length c = k - 1 + cap"
    and zero: "\<forall>j. k \<le> j \<and> j < length c \<longrightarrow> c ! j = zero_cell"
    using assms(2,4) by (simp_all add: padded_def split: if_splits)
  have "k \<le> length c - 1" "length c - 1 < length c" using False by auto
  with zero have last: "c_seq (c ! (length c - Suc 0)) = 0" by (auto simp: zero_cell_def)
  have "nat (int (length c) - 1) = length c - Suc 0" "c \<noteq> []" using False by auto
  then have "pb_grow b c (int k) seq = Ok (go_copy (replicate (k + cap) zero_cell) c)"
    using False assms(1,3) last
    by (simp add: pb_grow_def go_make_def go_index_def nat_int_add flip: of_nat_add)
  moreover have "padded cap (Suc k) ((go_copy (replicate (k + cap) zero_cell) c)[k := x])"
    using zero k by (auto simp: padded_def nth_go_copy nth_list_update)
  ultimately show ?thesis by blast
qed

lemma pb_set_padded:
  assumes "i < length (pb_m b)" "pb_rowCap b = int cap" "1 \<le> cap"
    and "sint (idle_limit (pb_rowIdleSec b)) < sint seq" "padded cap k (pb_col i b col)"
  shows "padded cap (Suc k) (pb_col i (snd (pb_set (int i) col (int k) d seq b)) col)"
proof -
  obtain c' where c': "pb_grow b (pb_col i b col) (int k) seq = Ok c'"
      "padded cap (Suc k) (c'[k := \<lparr>c_data = d, c_seq = seq\<rparr>])"
    using padded_grow[OF assms(2-5)] by blast
  then have "k < length c'" using assms(3) by (auto simp: padded_def)
  then show ?thesis
    using c' assms(1) by (simp add: pb_set_def pb_col_def[symmetric] pb_col_put_col)
qed

lemma pb_set_idle [simp]: "pb_rowIdleSec (snd (pb_set idx col row d seq b)) = pb_rowIdleSec b"
  using pb_set_result[OF prod.collapse[symmetric], of idx col row d seq b] by auto

lemma alloc_table_fresh:
  assumes "pb_inv i b" "pb_m b ! i = []" "pb_rowCap b = int cap"
    and "sint (idle_limit (pb_rowIdleSec b)) < sint seq"
    and "distinct cols" "\<And>row. row \<in> set rows \<Longrightarrow> length row = length cols"
    and run: "alloc_table (\<lambda>c r d. pb_set (int i) c (int r) d seq) cols rows b = (r, b')"
    and "c \<in> set cols"
  shows "padded cap (length rows) (pb_col i b' c)"
proof -
  define Q where "Q k t c \<longleftrightarrow> pb_rowCap t = int cap \<and> pb_rowIdleSec t = pb_rowIdleSec b \<and>
    padded cap k (pb_col i t c)" for k t c
  have "1 \<le> cap" using assms(1,3) by (simp add: pb_inv_def)
  have "Q (length rows) b' c"
  proof (rule pbuf.alloc_table_column_inv[where room = "length rows", OF assms(1,5,6) _ _ _ run assms(8) order_refl])
    show "Q 0 b c" for c
      using assms(2,3) by (simp add: Q_def padded_def pb_col_def col_of_def)
  next
    fix t k c d
    assume "pb_inv i t" "Q k t c"
    then show "Q (Suc k) (snd (pb_set (int i) c (int k) d seq t)) c"
      using pb_set_padded[of i t cap seq k c d] pb_set_frame(2)[of "int i" c "int k" d seq t] assms(4) \<open>1 \<le> cap\<close>
      by (simp add: Q_def pb_inv_def prod_eq_iff)
  next
    fix t k k' c c' d
    assume "pb_inv i t" "c' \<noteq> c" "Q k' t c'"
    then show "Q k' (snd (pb_set (int i) c (int k) d seq t)) c'"
      using pb_set_frame(2,3)[of "int i" c "int k" d seq t] by (simp add: Q_def prod_eq_iff)
  qed
  then show ?thesis by (simp add: Q_def)
qed

lemma alloc_table_keeps_other:
  assumes "alloc_table (\<lambda>c r d. pb_set (int i) c (int r) d seq) cols rows b = (r, b')"
    and "c \<notin> set cols"
  shows "pb_col i b' c = pb_col i b c"
proof -
  let ?I = "\<lambda>t. pb_col i t c = pb_col i b c"
  have set: "keepsS ?I (pb_set (int i) (cols ! j) row d seq)" if "j < length cols" for j row d
    using pb_set_frame(3)[of "int i" "cols ! j" row d seq] that assms(2)
    by (intro keepsSI) (metis nth_mem prod.collapse prod.inject)
  have "keepsS ?I (alloc_table (\<lambda>c r d. pb_set (int i) c (int r) d seq) cols rows)"
    by (rule alloc_table_keeps) (rule set)
  from keepsSD[OF this refl assms(1)] show ?thesis .
qed

lemma alloc_table_frame:
  assumes "alloc_table (\<lambda>c r d. pb_set (int i) c (int r) d seq) cols rows b = (r, b')"
  shows "length (pb_m b') = length (pb_m b)"
proof -
  let ?I = "\<lambda>t. length (pb_m t) = length (pb_m b)"
  have set: "keepsS ?I (pb_set (int i) c row d seq)" for c row d
    using pb_set_frame(1) by (intro keepsSI) (metis prod.collapse)
  have "keepsS ?I (alloc_table (\<lambda>c r d. pb_set (int i) c (int r) d seq) cols rows)"
    by (rule alloc_table_keeps) (rule set)
  from keepsSD[OF this refl assms(1)] show ?thesis .
qed

lemma max_size_single:
  assumes "length (pb_m b) = 1" "pb_wf b" "\<And>c. length (pb_col 0 b c) \<le> n" "length (pb_col 0 b col) = n" "0 < n"
  shows "\<exists>cols. 1 \<le> cols \<and> max_size b seq = Ok (cols, int n)"
proof -
  have in_map: "kv \<in> set (pb_m b ! 0) \<Longrightarrow> pb_col 0 b (fst kv) = snd kv" for kv
    using assms(1,2) by (cases kv) (auto simp: pb_col_def col_of_def pb_wf_def)
  obtain kv where kv: "kv \<in> set (pb_m b ! 0)" "length (snd kv) = n"
    using assms(4,5) by (auto simp: pb_col_def col_of_def split: option.splits dest!: map_of_SomeD)
  have le: "int (length (snd kv')) \<le> int n" if "kv' \<in> set (pb_m b ! 0)" for kv'
    using in_map[OF that] assms(3)[of "fst kv'"] by simp
  have "plan_rows b 0 = int n"
    unfolding plan_rows_def by (rule Max_eqI) (use kv le in auto)
  moreover have "0 < length (pb_m b ! 0)" using kv(1) by (cases "pb_m b ! 0") auto
  moreover have "max_size b seq =
      Ok (Max (insert 0 ((\<lambda>i. int (length (pb_m b ! i))) ` set [0..<1])), Max (insert 0 (plan_rows b ` set [0..<1])))"
    unfolding max_size_def assms(1) by (rule max_size_loop_eq) (simp add: assms(1))
  ultimately show ?thesis by (cases "pb_m b ! 0") auto
qed

end
