(* ===== verification/ScriptPlan.thy ===== *)
theory ScriptPlan
  imports Cfg PlanBuffer
begin

text \<open>
  \<^verbatim>\<open>cmd/oncecall_sync/plan/script_plan.go\<close> and \<^verbatim>\<open>plan/plan_state.go\<close>: one script's
  plan.  \<^verbatim>\<open>Run\<close> initialises, runs the read plans in order, stores their results in the
  round's buffer, builds the parameters of the synchronising statement and executes it.

  The connection pools and the script engine are reached through the interface
  \<^verbatim>\<open>SharedStatePlanCtl\<close>; they are the record \<open>plan_ctl\<close> of operations on a world
  \<open>'w\<close>.  The context is handed to every query and otherwise only polled in \<^verbatim>\<open>runRead\<close>
  by a \<^verbatim>\<open>select\<close> whose \<^verbatim>\<open>break\<close> leaves the \<^verbatim>\<open>select\<close> and not the loop, so
  the poll has no effect and the model has none.
\<close>

section \<open>The interface to pools and script engines\<close>

type_synonym script_cache = "(string, goval) sync_map"

record 'w plan_ctl =
  ctl_get :: "string \<Rightarrow> 'w \<Rightarrow> unit go"
  ctl_query :: "string \<Rightarrow> conn_args \<Rightarrow> ('w, rows \<times> string list) goS"
  ctl_exec :: "string \<Rightarrow> conn_args \<Rightarrow> ('w, unit) goS"
  ctl_get_vm :: "string \<Rightarrow> 'w \<Rightarrow> unit go"
  ctl_vm :: "string \<Rightarrow> string \<Rightarrow> rows option \<Rightarrow> (script_cache, rows option) goS"

section \<open>Plan state\<close>

record plan_state =
  ps_seq :: int64
  ps_syncIdent :: thread_key
  ps_isInit :: bool
  ps_buf :: plan_buffer
  ps_cache :: script_cache

definition new_plan_state ::
    "thread_key \<Rightarrow> int \<Rightarrow> int \<Rightarrow> int \<Rightarrow> int \<Rightarrow> plan_state go" where
  "new_plan_state syncIdent readPlanCount colCap rowCap idleTime =
    bind_go (new_plan_param_buffer readPlanCount colCap rowCap idleTime) (\<lambda>buf.
      Ok \<lparr>ps_seq = 0, ps_syncIdent = syncIdent, ps_isInit = False, ps_buf = buf,
          ps_cache = new_sync_map\<rparr>)"

text \<open>What one run works on: the world and the plan's own state.\<close>

record 'w run_state =
  rs_world :: 'w
  rs_plan :: plan_state

definition on_world :: "('w, 'a) goS \<Rightarrow> ('w run_state, 'a) goS" where
  "on_world m s = (case m (rs_world s) of (r, w) \<Rightarrow> (r, s\<lparr>rs_world := w\<rparr>))"

definition on_buf :: "(plan_buffer, 'a) goS \<Rightarrow> ('w run_state, 'a) goS" where
  "on_buf m s = (case m (ps_buf (rs_plan s)) of (r, b) \<Rightarrow> (r, s\<lparr>rs_plan := (rs_plan s)\<lparr>ps_buf := b\<rparr>\<rparr>))"

definition on_cache :: "(script_cache, 'a) goS \<Rightarrow> ('w run_state, 'a) goS" where
  "on_cache m s = (case m (ps_cache (rs_plan s)) of (r, c) \<Rightarrow> (r, s\<lparr>rs_plan := (rs_plan s)\<lparr>ps_cache := c\<rparr>\<rparr>))"

definition plain_args :: "string \<Rightarrow> conn_args" where
  "plain_args q = \<lparr>a_Query = q, a_Args = None, a_IsTransaction = False\<rparr>"

section \<open>Initialisation\<close>

definition init_self_query :: "'w plan_ctl \<Rightarrow> string \<Rightarrow> self_init \<Rightarrow> ('w, unit) goS" where
  "init_self_query ctl self q =
    bindS (wrapS ''self init failed, trigger query failed'' (ctl_query ctl self (plain_args (si_Trigger q))))
      (\<lambda>(data, _). if data = [] then retS ()
        else wrapS ''self init failed, init query failed'' (ctl_exec ctl self (plain_args (si_Query q))))"

definition init_other_query :: "'w plan_ctl \<Rightarrow> string \<times> other_init \<Rightarrow> ('w, unit) goS" where
  "init_other_query ctl kv =
    bindS (\<lambda>w. (wrap_err ''init get failed db[%s] target[%v]'' (ctl_get ctl (fst kv) w), w)) (\<lambda>_.
    bindS (wrapS ''init failed, trigger query failed db[%s] target[%v]''
        (ctl_query ctl (fst kv) (plain_args (oi_Trigger (snd kv)))))
      (\<lambda>(data, _). if data = [] then retS ()
        else forS (oi_Query (snd kv)) (\<lambda>q.
          wrapS ''init failed, init query failed db[%s] target[%v] idx[%d]''
            (ctl_exec ctl (fst kv) (plain_args q)))))"

definition sp_init :: "'w plan_ctl \<Rightarrow> script_config \<Rightarrow> thread_key \<Rightarrow> bool \<Rightarrow> ('w, unit) goS" where
  "sp_init ctl p ident isInit =
    (if sc_Init p = None \<and> isInit then retS ()
     else bindS (\<lambda>w. (wrap_err ''cant load self pool'' (ctl_get ctl (db_id ident) w), w)) (\<lambda>_.
       case sc_Init p of
         None \<Rightarrow> panicS PNilDeref
       | Some ini \<Rightarrow>
           bindS (forS (in_Self ini) (init_self_query ctl (db_id ident))) (\<lambda>_.
             forS (in_Other ini) (init_other_query ctl))))"

section \<open>Parameters of a read plan\<close>

datatype param_type = ParamPlanNil | ParamPlanFromFix | ParamPlanFromPrev | ParamPlanFromVm

fun fix_max :: "(string \<times> 'v) list \<Rightarrow> int \<Rightarrow> int go" where
  "fix_max [] maxK = Ok maxK"
| "fix_max ((k, _) # fix) maxK =
    bind_go (wrap_err ''only number string [%s]'' (atoi k)) (\<lambda>conv. fix_max fix (max maxK conv))"

definition read_pos_value :: "plan_buffer \<Rightarrow> int64 \<Rightarrow> read_pos \<Rightarrow> goval go" where
  "read_pos_value buf seq v =
    (case rp_Static v of
      Some s \<Rightarrow> Ok (GString s)
    | None \<Rightarrow>
        (case rp_Dynamic v of
          Some d \<Rightarrow> wrap_err '''' (pb_get buf (dr_PlanIdx d) (dr_Col d) (dr_RowIdx d) seq)
        | None \<Rightarrow> Ok GNil))"

fun fix_fill :: "plan_buffer \<Rightarrow> int64 \<Rightarrow> (string \<times> read_pos) list \<Rightarrow> goval list \<Rightarrow> goval list go" where
  "fix_fill buf seq [] data = Ok data"
| "fix_fill buf seq ((k, v) # fix) data =
    bind_go (wrap_err ''only number string [%s]'' (atoi k)) (\<lambda>conv.
      if conv - 1 < 0 then Err (sentinel_err SentinelCatchError '''')
      else bind_go (read_pos_value buf seq v) (\<lambda>x.
        bind_go (go_store data (conv - 1) x) (fix_fill buf seq fix)))"

definition make_read_fix :: "plan_buffer \<Rightarrow> int64 \<Rightarrow> (string \<times> read_pos) list \<Rightarrow> rows option go" where
  "make_read_fix buf seq fix =
    bind_go (fix_max fix 0) (\<lambda>maxK.
    bind_go (go_make maxK GNil) (\<lambda>data.
    bind_go (fix_fill buf seq fix data) (\<lambda>data. Ok (Some [data]))))"

definition read_param_type :: "read_plan \<Rightarrow> param_type go" where
  "read_param_type current =
    (case rd_Bind current of
      None \<Rightarrow> Ok ParamPlanNil
    | Some b \<Rightarrow>
        if rb_Fix b \<noteq> None then Ok ParamPlanFromFix
        else if rb_PrevVm b \<noteq> None then Ok ParamPlanFromVm
        else if rb_Prev b then Ok ParamPlanFromPrev
        else Err (sentinel_err NotExistsError ''not setting param data''))"

definition run_vm :: "'w plan_ctl \<Rightarrow> prev_vm option \<Rightarrow> rows option \<Rightarrow> ('w run_state, rows option) goS" where
  "run_vm ctl vm prevData =
    (case vm of
      None \<Rightarrow> panicS PNilDeref
    | Some v \<Rightarrow>
        bindS (\<lambda>s. (wrap_err '''' (ctl_get_vm ctl (pv_Lang v) (rs_world s)), s)) (\<lambda>_.
          wrapS ''langVm Failed %s'' (on_cache (ctl_vm ctl (pv_Lang v) (pv_Script v) prevData))))"

definition make_read_plan_param ::
    "'w plan_ctl \<Rightarrow> read_plan \<Rightarrow> rows option \<Rightarrow> int64 \<Rightarrow> ('w run_state, rows option) goS" where
  "make_read_plan_param ctl current prevData seq =
    bindS (liftS (read_param_type current)) (\<lambda>t.
      case t of
        ParamPlanFromFix \<Rightarrow>
          (\<lambda>s. (make_read_fix (ps_buf (rs_plan s)) seq (the (rb_Fix (the (rd_Bind current)))), s))
      | ParamPlanFromVm \<Rightarrow> run_vm ctl (rb_PrevVm (the (rd_Bind current))) prevData
      | ParamPlanFromPrev \<Rightarrow> retS prevData
      | ParamPlanNil \<Rightarrow> retS None)"

section \<open>Parameters of the synchronising statement\<close>

definition set_cell :: "rows \<Rightarrow> nat \<Rightarrow> int \<Rightarrow> goval \<Rightarrow> rows go" where
  "set_cell param idx fixIdx v =
    bind_go (go_index param (int idx)) (\<lambda>row.
    bind_go (go_store row fixIdx v) (\<lambda>row'. go_store param (int idx) row'))"

fun sync_static :: "int \<Rightarrow> goval \<Rightarrow> nat list \<Rightarrow> rows \<Rightarrow> rows go" where
  "sync_static fixIdx v [] param = Ok param"
| "sync_static fixIdx v (idx # idxs) param =
    bind_go (set_cell param idx fixIdx v) (sync_static fixIdx v idxs)"

fun sync_dynamic :: "plan_buffer \<Rightarrow> int64 \<Rightarrow> int \<Rightarrow> dyn_sync \<Rightarrow> nat list \<Rightarrow> rows \<Rightarrow> rows go" where
  "sync_dynamic buf seq fixIdx d [] param = Ok param"
| "sync_dynamic buf seq fixIdx d (idx # idxs) param =
    (if int idx < ds_StartSyncOffset d then sync_dynamic buf seq fixIdx d idxs param
     else bind_go (wrap_err ''get dynamic plan failed, idx[%d]''
         (pb_get buf (ds_PlanIdx d) (ds_Col d) (int idx) seq)) (\<lambda>data.
       bind_go (set_cell param idx fixIdx data) (sync_dynamic buf seq fixIdx d idxs)))"

fun sync_fix_loop ::
    "plan_buffer \<Rightarrow> int64 \<Rightarrow> int \<Rightarrow> int \<Rightarrow> (string \<times> sync_pos) list \<Rightarrow> rows \<Rightarrow> rows go" where
  "sync_fix_loop buf seq colSize rowSize [] param = Ok param"
| "sync_fix_loop buf seq colSize rowSize ((k, v) # pos) param =
    bind_go (wrap_err ''only number string [%s]'' (atoi k)) (\<lambda>conv.
      if conv - 1 < 0 then Err (sentinel_err SentinelCatchError '''')
      else if colSize \<le> conv - 1 then Err (sentinel_err OutLenError '''')
      else bind_go
        (case sp_Static v of
          Some s \<Rightarrow> sync_static (conv - 1) (GString s) [0..<nat rowSize] param
        | None \<Rightarrow>
            (case sp_Dynamic v of
              Some d \<Rightarrow> sync_dynamic buf seq (conv - 1) d [0..<nat rowSize] param
            | None \<Rightarrow> Err (sentinel_err SentinelCatchError ''static and dynamic are nil [idx:%d]'')))
        (sync_fix_loop buf seq colSize rowSize pos))"

definition make_sync_fix :: "plan_buffer \<Rightarrow> int64 \<Rightarrow> (string \<times> sync_pos) list \<Rightarrow> rows option go" where
  "make_sync_fix buf seq pos =
    bind_go (wrap_err ''failed get plan bind size [k:%v]'' (max_size buf seq)) (\<lambda>(colSize, rowSize).
    bind_go (sync_fix_loop buf seq colSize rowSize pos
        (replicate (nat rowSize) (replicate (nat colSize) GNil)))
      (\<lambda>param. Ok (Some param)))"

definition sync_param_type :: "sync_bind \<Rightarrow> param_type go" where
  "sync_param_type b =
    (if sb_PrevVm b \<noteq> None then Ok ParamPlanFromVm
     else if sb_Fix b \<noteq> None then Ok ParamPlanFromFix
     else if sb_Prev b then Ok ParamPlanFromPrev
     else Err (sentinel_err NotExistsError ''not setting param data''))"

definition make_sync_plan_param ::
    "'w plan_ctl \<Rightarrow> sync_plan \<Rightarrow> rows option \<Rightarrow> int64 \<Rightarrow> ('w run_state, rows option) goS" where
  "make_sync_plan_param ctl sy prevData seq =
    (case sy_Bind sy of
      None \<Rightarrow> retS None
    | Some b \<Rightarrow>
        bindS (liftS (sync_param_type b)) (\<lambda>t.
          case t of
            ParamPlanFromFix \<Rightarrow> (\<lambda>s. (make_sync_fix (ps_buf (rs_plan s)) seq (the (sb_Fix b)), s))
          | ParamPlanFromVm \<Rightarrow> run_vm ctl (sb_PrevVm b) prevData
          | ParamPlanFromPrev \<Rightarrow> retS prevData
          | ParamPlanNil \<Rightarrow> retS None))"

section \<open>Reading, writing, running\<close>

definition get_read_plan_data_from_conn ::
    "'w plan_ctl \<Rightarrow> read_entry \<Rightarrow> rows option \<Rightarrow> ('w, rows \<times> string list \<times> bool) goS" where
  "get_read_plan_data_from_conn ctl e param =
    bindS (\<lambda>w. (wrap_err '''' (ctl_get ctl (re_Ident e) w), w)) (\<lambda>_.
    bindS (wrapS '''' (ctl_query ctl (re_Ident e)
        \<lparr>a_Query = rd_Query (re_Plan e), a_Args = param, a_IsTransaction = rd_Tran (re_Plan e)\<rparr>))
      (\<lambda>(data, cols).
        case rd_IsNext (re_Plan e) of
          None \<Rightarrow> retS (data, cols, True)
        | Some q \<Rightarrow>
            bindS (wrapS '''' (ctl_query ctl (re_Ident e)
                \<lparr>a_Query = q, a_Args = None, a_IsTransaction = rd_Tran (re_Plan e)\<rparr>))
              (\<lambda>(next, _). retS (data, cols, next \<noteq> []))))"

definition alloc_current_data_to_state ::
    "nat \<Rightarrow> rows \<Rightarrow> string list \<Rightarrow> int64 \<Rightarrow> (plan_buffer, unit) goS" where
  "alloc_current_data_to_state idx data cols seq =
    (if data = [] then retS ()
     else if length (hd data) \<noteq> length cols
     then failS (sentinel_err NotMatchingError ''not matching %d != %d'')
     else alloc_table (\<lambda>c r d. pb_set (int idx) c (int r) d seq) cols data)"

text \<open>\<^verbatim>\<open>prevData\<close> is declared before the loop and no iteration assigns it.\<close>

fun run_read_loop ::
    "'w plan_ctl \<Rightarrow> int64 \<Rightarrow> (nat \<times> read_entry) list \<Rightarrow> rows option \<Rightarrow> ('w run_state, rows option) goS" where
  "run_read_loop ctl seq [] prevData = retS prevData"
| "run_read_loop ctl seq ((planIdx, e) # plans) prevData =
    bindS (wrapS '''' (make_read_plan_param ctl (re_Plan e) prevData seq)) (\<lambda>paramData.
    bindS (wrapS '''' (on_world (get_read_plan_data_from_conn ctl e paramData))) (\<lambda>(data, cols, isNext).
    bindS (wrapS '''' (on_buf (alloc_current_data_to_state planIdx data cols seq))) (\<lambda>_.
      if isNext then run_read_loop ctl seq plans prevData else retS prevData)))"

definition run_read :: "'w plan_ctl \<Rightarrow> script_config \<Rightarrow> int64 \<Rightarrow> ('w run_state, rows option) goS" where
  "run_read ctl p seq =
    bindS (run_read_loop ctl seq (enumerate 0 (sc_Read p)) None) (\<lambda>prevData.
      case prevData of None \<Rightarrow> retS None | Some d \<Rightarrow> retS (if d = [] then None else Some d))"

definition run_write ::
    "'w plan_ctl \<Rightarrow> script_config \<Rightarrow> rows option \<Rightarrow> int64 \<Rightarrow> ('w run_state, unit) goS" where
  "run_write ctl p data seq =
    bindS (wrapS '''' (make_sync_plan_param ctl (sc_Sync p) data seq)) (\<lambda>param.
      \<lambda>s. let ident = db_id (ps_syncIdent (rs_plan s)) in
        bindS (\<lambda>s. (wrap_err '''' (ctl_get ctl ident (rs_world s)), s)) (\<lambda>_.
          wrapS '''' (on_world (ctl_exec ctl ident
            \<lparr>a_Query = sy_Query (sc_Sync p), a_Args = param, a_IsTransaction = sy_Tran (sc_Sync p)\<rparr>))) s)"

text \<open>\<^verbatim>\<open>Run\<close>, with the reading of the clock taken after the interval sleep as an argument.\<close>

definition sp_run :: "'w plan_ctl \<Rightarrow> script_config \<Rightarrow> int64 \<Rightarrow> ('w run_state, unit) goS" where
  "sp_run ctl p currentSeq =
    bindS (\<lambda>s. wrapS ''init failed''
        (on_world (sp_init ctl p (ps_syncIdent (rs_plan s)) (ps_isInit (rs_plan s)))) s) (\<lambda>_.
    bindS (\<lambda>s. (Ok (), s\<lparr>rs_plan := (rs_plan s)\<lparr>ps_isInit := True\<rparr>\<rparr>)) (\<lambda>_.
    bindS (wrapS ''read failed'' (run_read ctl p currentSeq)) (\<lambda>readLastData.
    bindS (wrapS '''' (run_write ctl p readLastData currentSeq)) (\<lambda>_.
      \<lambda>s. (Ok (), s\<lparr>rs_plan := (rs_plan s)\<lparr>ps_seq := currentSeq\<rparr>\<rparr>)))))"

section \<open>What a run leaves in the plan state\<close>

lemma on_buf_Ok: "on_buf m s = (Ok a, s') \<Longrightarrow> \<exists>b'. m (ps_buf (rs_plan s)) = (Ok a, b')"
  by (auto simp: on_buf_def split: prod.splits)

lemma on_world_Ok: "on_world m s = (Ok a, s') \<Longrightarrow> \<exists>w'. m (rs_world s) = (Ok a, w')"
  by (auto simp: on_world_def split: prod.splits)

definition same_plan :: "plan_state \<Rightarrow> 'w run_state \<Rightarrow> bool" where
  "same_plan p s \<longleftrightarrow> ps_seq (rs_plan s) = ps_seq p \<and> ps_isInit (rs_plan s) = ps_isInit p \<and>
    ps_syncIdent (rs_plan s) = ps_syncIdent p"

lemma keeps_on [go_inv, simp]:
  "keepsS (same_plan p) (on_world m)" "keepsS (same_plan p) (on_buf mb)" "keepsS (same_plan p) (on_cache mc)"
  by (simp_all add: keepsS_def same_plan_def on_world_def on_buf_def on_cache_def split: prod.splits)

lemma keeps_look [go_inv, simp]: "keepsS I (\<lambda>s. (g s, s))"
  by (simp add: keepsS_def)

lemma keeps_read_param [go_inv]: "keepsS (same_plan p) (make_read_plan_param ctl c prev seq)"
  unfolding make_read_plan_param_def run_vm_def
  by (intro keepsS_bind) (auto intro!: go_inv split: param_type.splits option.splits)

lemma keeps_sync_param [go_inv]: "keepsS (same_plan p) (make_sync_plan_param ctl c prev seq)"
  unfolding make_sync_plan_param_def run_vm_def
  by (auto intro!: go_inv split: param_type.splits option.splits)

lemma keeps_read_loop [go_inv]: "keepsS (same_plan p) (run_read_loop ctl seq plans prev)"
proof (induction plans arbitrary: prev)
  case Nil
  show ?case by simp
next
  case (Cons pl plans)
  then show ?case by (cases pl) (auto intro!: go_inv)
qed

lemma keeps_run_read [go_inv]: "keepsS (same_plan p) (run_read ctl sc seq)"
  unfolding run_read_def by (intro keepsS_bind go_inv) (auto split: option.splits)

lemma keeps_run_write [go_inv]: "keepsS (same_plan p) (run_write ctl sc d seq)"
proof -
  have "keepsS (same_plan p) (\<lambda>s. bindS (\<lambda>s. (g s (rs_world s), s)) (\<lambda>_. wrapS m (on_world (f s))) s)"
    for g :: "'a run_state \<Rightarrow> 'a \<Rightarrow> unit go" and f :: "'a run_state \<Rightarrow> ('a, unit) goS" and m
    by (rule keepsSI) (auto simp: bindS_def wrapS_def on_world_def same_plan_def split: go.splits prod.splits)
  then show ?thesis
    unfolding run_write_def Let_def
    by (intro keepsS_bind keepsS_wrap keeps_sync_param) (simp add: bindS_def)
qed

text \<open>C1: A run moves the plan's sequence number to the time it started reading exactly when
  it returns no error, and marks the plan initialised exactly when its initialisation
  succeeded, whatever reading and writing do afterwards.\<close>

theorem sp_run_marks:
  assumes "sp_run ctl p now s = (r, s')"
  shows "ps_seq (rs_plan s') = (if r = Ok () then now else ps_seq (rs_plan s)) \<and>
    (ps_isInit (rs_plan s') \<longleftrightarrow> ps_isInit (rs_plan s) \<or>
      fst (sp_init ctl p (ps_syncIdent (rs_plan s)) (ps_isInit (rs_plan s)) (rs_world s)) = Ok ())"
proof -
  obtain i w where i: "sp_init ctl p (ps_syncIdent (rs_plan s)) (ps_isInit (rs_plan s)) (rs_world s) = (i, w)"
    by fastforce
  let ?s = "s\<lparr>rs_world := w, rs_plan := (rs_plan s)\<lparr>ps_isInit := True\<rparr>\<rparr>"
  let ?m = "bindS (wrapS ''read failed'' (run_read ctl p now)) (\<lambda>d. wrapS '''' (run_write ctl p d now))"
  have "keepsS (same_plan (rs_plan ?s)) ?m"
    by (intro keepsS_bind keepsS_wrap keeps_run_read keeps_run_write)
  then have rest: "same_plan (rs_plan ?s) (snd (?m ?s))"
    by (simp add: keepsS_def same_plan_def)
  show ?thesis
  proof (cases i)
    case (Ok u)
    obtain q t where q: "?m ?s = (q, t)" by fastforce
    have "sp_run ctl p now s =
        bindS ?m (\<lambda>_ s. (Ok (), s\<lparr>rs_plan := (rs_plan s)\<lparr>ps_seq := now\<rparr>\<rparr>)) ?s"
      using i Ok by (simp add: sp_run_def bindS_assoc bindS_def[of "\<lambda>s. wrapS _ _ s"] on_world_def wrapS_def
          bindS_def[of "\<lambda>s. (Ok (), _ s)"])
    then have "(r, s') = bindS ?m (\<lambda>_ s. (Ok (), s\<lparr>rs_plan := (rs_plan s)\<lparr>ps_seq := now\<rparr>\<rparr>)) ?s"
      using assms by simp
    then show ?thesis
      using rest q i Ok by (cases q) (auto simp: same_plan_def)
  qed (use assms i in \<open>auto simp: sp_run_def bindS_def on_world_def wrapS_def\<close>)
qed

text \<open>A world for concrete runs: every pool exists, every query returns the same table, and
  the executed statements are recorded.\<close>

definition probe_ctl :: "rows \<Rightarrow> string list \<Rightarrow> (string \<times> conn_args) list plan_ctl" where
  "probe_ctl data cols =
    \<lparr>ctl_get = (\<lambda>_ _. Ok ()), ctl_query = (\<lambda>_ _ w. (Ok (data, cols), w)),
     ctl_exec = (\<lambda>k a w. (Ok (), w @ [(k, a)])), ctl_get_vm = (\<lambda>_ _. Ok ()),
     ctl_vm = (\<lambda>_ _ prev c. (Ok prev, c))\<rparr>"

definition probe_read :: read_entry where
  "probe_read = \<lparr>re_Ident = ''src'', re_Plan = \<lparr>rd_Bind = None, rd_Tran = False, rd_Query = ''select'', rd_IsNext = None\<rparr>\<rparr>"

definition probe_config :: "script_init option \<Rightarrow> sync_bind option \<Rightarrow> script_config" where
  "probe_config ini b =
    \<lparr>sc_IntervalSec = 1, sc_Init = ini, sc_Option = None, sc_VmLang = None, sc_Read = [probe_read],
     sc_Sync = \<lparr>sy_Bind = b, sy_Tran = False, sy_Query = ''insert''\<rparr>\<rparr>"

definition probe_state :: "int \<Rightarrow> (string \<times> conn_args) list run_state" where
  "probe_state cap = \<lparr>rs_world = [], rs_plan =
     \<lparr>ps_seq = 0, ps_syncIdent = (''dst'', ''s''), ps_isInit = False,
      ps_buf = \<lparr>pb_m = [[]], pb_rowCap = cap, pb_rowIdleSec = 0\<rparr>, ps_cache = new_sync_map\<rparr>\<rparr>"

lemmas probe_defs = probe_ctl_def probe_read_def probe_config_def probe_state_def plain_args_def
  db_id_def

lemma sp_run_marks_witness:
  "ps_seq (rs_plan (snd (sp_run (probe_ctl [] []) (probe_config (Some \<lparr>in_Self = [], in_Other = []\<rparr>) None) 7 (probe_state 1)))) = 7"
proof -
  let ?run = "sp_run (probe_ctl [] []) (probe_config (Some \<lparr>in_Self = [], in_Other = []\<rparr>) None) 7 (probe_state 1)"
  have "fst ?run = Ok ()"
    by (simp add: sp_run_def sp_init_def run_read_def run_write_def make_read_plan_param_def
        read_param_type_def get_read_plan_data_from_conn_def alloc_current_data_to_state_def
        make_sync_plan_param_def probe_defs bindS_def wrapS_def on_world_def on_buf_def enumerate_eq_zip)
  then show ?thesis
    using sp_run_marks[OF prod.collapse[symmetric], of "probe_ctl [] []"
        "probe_config (Some \<lparr>in_Self = [], in_Other = []\<rparr>) None" 7 "probe_state 1"] by simp
qed

section \<open>Reading and writing\<close>

lemma run_read_loop_prev:
  "run_read_loop ctl seq plans prev s = (Ok d, s') \<Longrightarrow> d = prev"
proof (induction plans arbitrary: s)
  case Nil
  then show ?case by simp
next
  case (Cons pl plans)
  then show ?case
    by (cases pl) (auto elim!: bindS_cases split: if_splits)
qed

lemma run_read_none: "run_read ctl p seq s = (Ok d, s') \<Longrightarrow> d = None"
  by (auto simp: run_read_def elim!: bindS_cases dest!: run_read_loop_prev)

text \<open>A sync statement bound with \<^verbatim>\<open>prev = true\<close> is executed exactly as if it had no
  \<^verbatim>\<open>[bind]\<close> table at all: the rows the read plans returned are never handed on.\<close>

theorem sync_prev_is_no_bind:
  assumes "run_read ctl p seq s = (Ok d, t)"
    and "sy_Bind (sc_Sync p) = Some b" "sb_PrevVm b = None" "sb_Fix b = None" "sb_Prev b"
  shows "run_write ctl p d seq t =
    run_write ctl (p\<lparr>sc_Sync := (sc_Sync p)\<lparr>sy_Bind := None\<rparr>\<rparr>) None seq t"
  using run_read_none[OF assms(1)] assms(2-5)
  by (simp add: run_write_def make_sync_plan_param_def sync_param_type_def bindS_def wrapS_def)

lemma sync_prev_is_no_bind_witness:
  "run_write (probe_ctl [[GInt 1]] [''c'']) (probe_config None (Some \<lparr>sb_Fix = None, sb_PrevVm = None, sb_Prev = True\<rparr>))
      None 7 (snd (run_read (probe_ctl [[GInt 1]] [''c'']) (probe_config None (Some \<lparr>sb_Fix = None, sb_PrevVm = None, sb_Prev = True\<rparr>)) 7 (probe_state 1))) =
   run_write (probe_ctl [[GInt 1]] [''c'']) (probe_config None None) None 7
     (snd (run_read (probe_ctl [[GInt 1]] [''c'']) (probe_config None (Some \<lparr>sb_Fix = None, sb_PrevVm = None, sb_Prev = True\<rparr>)) 7 (probe_state 1)))"
proof -
  let ?b = "\<lparr>sb_Fix = None, sb_PrevVm = None, sb_Prev = True\<rparr> :: sync_bind"
  let ?ctl = "probe_ctl [[GInt 1]] [''c'']" and ?p = "probe_config None (Some ?b)"
  let ?run = "run_read ?ctl ?p 7 (probe_state 1)"
  have "fst ?run = Ok None"
    by (simp add: run_read_def make_read_plan_param_def read_param_type_def go_make_def go_store_def go_copy_def
        get_read_plan_data_from_conn_def alloc_current_data_to_state_def alloc_table_def alloc_row_def
        pb_set_def pb_grow_def probe_defs bindS_def wrapS_def on_world_def on_buf_def enumerate_eq_zip
        go_index_def col_of_def)
  then have "?run = (Ok None, snd ?run)" by (simp add: prod_eq_iff)
  from sync_prev_is_no_bind[OF this, of ?b] show ?thesis by (simp add: probe_config_def)
qed

text \<open>A script without an \<^verbatim>\<open>[init]\<close> table panics with a nil dereference on the first
  run of its plan, as soon as the target's pool exists.\<close>

theorem sp_run_no_init_panics:
  assumes "sc_Init p = None" "\<not> ps_isInit (rs_plan s)"
    and "ctl_get ctl (db_id (ps_syncIdent (rs_plan s))) (rs_world s) = Ok ()"
  shows "sp_run ctl p now s = (Panic PNilDeref, s)"
  using assms by (simp add: sp_run_def sp_init_def bindS_def wrapS_def on_world_def)

lemma sp_run_no_init_panics_witness:
  "sp_run (probe_ctl [] []) (probe_config None None) 7 (probe_state 1) = (Panic PNilDeref, probe_state 1)"
  by (rule sp_run_no_init_panics) (simp_all add: probe_defs)

section \<open>Fixed parameters of a read plan\<close>

lemma fix_max_eq:
  assumes "\<And>k v. (k, v) \<in> set fx \<Longrightarrow> atoi k = Ok (pos k)"
  shows "fix_max fx m = Ok (Max (insert m (pos ` fst ` set fx)))"
  using assms
proof (induction fx m rule: fix_max.induct)
  case (2 k v fx m)
  have "fix_max fx (max m (pos k)) = Ok (Max (insert (max m (pos k)) (pos ` fst ` set fx)))"
    using 2 by (metis list.set_intros(1,2) wrap_err.simps(2))
  moreover have "Max (insert (max m x) A) = Max (insert m (insert x A))" if "finite A" for x and A :: "int set"
    using that by (cases "A = {}") (simp_all add: max.assoc[symmetric])
  moreover have "atoi k = Ok (pos k)" by (rule 2(2)[of k v]) simp
  ultimately show ?case by simp
qed simp

lemma fix_fill_ok:
  assumes "\<And>k v. (k, v) \<in> set fx \<Longrightarrow> atoi k = Ok (pos k) \<and> 1 \<le> pos k \<and> pos k \<le> int (length data) \<and>
      read_pos_value buf seq v = Ok (val v)"
    and "inj_on pos (fst ` set fx)" "distinct (map fst fx)"
  shows "\<exists>data'. fix_fill buf seq fx data = Ok data' \<and> length data' = length data \<and>
    (\<forall>k v. (k, v) \<in> set fx \<longrightarrow> data' ! nat (pos k - 1) = val v) \<and>
    (\<forall>i. (\<forall>k v. (k, v) \<in> set fx \<longrightarrow> pos k \<noteq> int i + 1) \<longrightarrow> data' ! i = data ! i)"
  using assms
proof (induction buf seq fx data rule: fix_fill.induct)
  case (2 buf seq k v fx data)
  let ?d = "data[nat (pos k - 1) := val v]"
  have kv: "atoi k = Ok (pos k)" "1 \<le> pos k" "pos k \<le> int (length data)" "read_pos_value buf seq v = Ok (val v)"
    using 2(2)[of k v] by auto
  have store: "go_store data (pos k - 1) (val v) = Ok ?d" using kv by (simp add: go_store_def)
  have ne: "pos k' \<noteq> pos k" if "(k', v') \<in> set fx" for k' v'
    using that 2(3,4) by (force simp: inj_on_def image_iff)
  have "\<exists>data'. fix_fill buf seq fx ?d = Ok data' \<and> length data' = length ?d \<and>
      (\<forall>k v. (k, v) \<in> set fx \<longrightarrow> data' ! nat (pos k - 1) = val v) \<and>
      (\<forall>i. (\<forall>k v. (k, v) \<in> set fx \<longrightarrow> pos k \<noteq> int i + 1) \<longrightarrow> data' ! i = ?d ! i)"
    by (rule 2(1)[of "pos k" "val v" ?d]) (use 2(2,3,4) kv store in auto)
  then obtain data' where d': "fix_fill buf seq fx ?d = Ok data'" "length data' = length ?d"
      "\<forall>k v. (k, v) \<in> set fx \<longrightarrow> data' ! nat (pos k - 1) = val v"
      "\<forall>i. (\<forall>k v. (k, v) \<in> set fx \<longrightarrow> pos k \<noteq> int i + 1) \<longrightarrow> data' ! i = ?d ! i" by blast
  have "data' ! nat (pos k - 1) = val v"
    using d'(4)[rule_format, of "nat (pos k - 1)"] ne kv(2,3) by auto
  moreover have "data' ! i = data ! i"
    if "\<forall>k' v'. (k', v') \<in> set ((k, v) # fx) \<longrightarrow> pos k' \<noteq> int i + 1" for i
  proof -
    have "nat (pos k - 1) \<noteq> i" using that kv(2) by force
    then show ?thesis using d'(4)[rule_format, of i] that by simp
  qed
  ultimately show ?case
    using d'(1,2,3) kv store by (intro exI[of _ data']) simp
qed simp

text \<open>A \<^verbatim>\<open>fix\<close> binding of a read plan whose keys are distinct positive numbers gives
  one row of parameters, as long as the largest key, with every bound value at its key's
  position and nil everywhere else, so the order in which the map is visited is irrelevant.\<close>

theorem make_read_fix_row:
  assumes "\<And>k v. (k, v) \<in> set fx \<Longrightarrow> atoi k = Ok (pos k) \<and> 1 \<le> pos k \<and> read_pos_value buf seq v = Ok (val v)"
    and "inj_on pos (fst ` set fx)" "distinct (map fst fx)"
  shows "\<exists>data. make_read_fix buf seq fx = Ok (Some [data]) \<and>
    int (length data) = Max (insert 0 (pos ` fst ` set fx)) \<and>
    (\<forall>k v. (k, v) \<in> set fx \<longrightarrow> data ! nat (pos k - 1) = val v) \<and>
    (\<forall>i < length data. (\<forall>k v. (k, v) \<in> set fx \<longrightarrow> pos k \<noteq> int i + 1) \<longrightarrow> data ! i = GNil)"
proof -
  define m where "m = Max (insert 0 (pos ` fst ` set fx))"
  have m: "0 \<le> m" "fix_max fx 0 = Ok m" and le: "(k, v) \<in> set fx \<Longrightarrow> pos k \<le> m" for k v
    using fix_max_eq[of fx pos 0] assms(1) by (auto simp: m_def Max_ge_iff) force
  have "\<exists>data'. fix_fill buf seq fx (replicate (nat m) GNil) = Ok data' \<and>
      length data' = length (replicate (nat m) GNil) \<and>
      (\<forall>k v. (k, v) \<in> set fx \<longrightarrow> data' ! nat (pos k - 1) = val v) \<and>
      (\<forall>i. (\<forall>k v. (k, v) \<in> set fx \<longrightarrow> pos k \<noteq> int i + 1) \<longrightarrow> data' ! i = replicate (nat m) GNil ! i)"
    by (rule fix_fill_ok) (use assms le m in auto)
  then show ?thesis
    using m by (fastforce simp: make_read_fix_def go_make_def m_def[symmetric])
qed

lemma make_read_fix_row_witness:
  "\<exists>data. make_read_fix (ps_buf (rs_plan (probe_state 1))) 5
      [(''3'', \<lparr>rp_Dynamic = None, rp_Static = Some ''x''\<rparr>), (''1'', \<lparr>rp_Dynamic = None, rp_Static = None\<rparr>)] = Ok (Some [data]) \<and>
    length data = 3 \<and> data ! 2 = GString ''x''"
proof -
  let ?fx = "[(''3'', \<lparr>rp_Dynamic = None, rp_Static = Some ''x''\<rparr>), (''1'', \<lparr>rp_Dynamic = None, rp_Static = None\<rparr>)]"
  let ?pos = "\<lambda>k. if k = ''3'' then 3 else (1::int)"
  let ?val = "\<lambda>v. case rp_Static v of Some s \<Rightarrow> GString s | None \<Rightarrow> GNil"
  let ?buf = "ps_buf (rs_plan (probe_state 1))"
  have at: "atoi ''3'' = Ok 3" "atoi ''1'' = Ok 1" by code_simp+
  have "\<exists>data. make_read_fix ?buf 5 ?fx = Ok (Some [data]) \<and>
      int (length data) = Max (insert 0 (?pos ` fst ` set ?fx)) \<and>
      (\<forall>k v. (k, v) \<in> set ?fx \<longrightarrow> data ! nat (?pos k - 1) = ?val v) \<and>
      (\<forall>i < length data. (\<forall>k v. (k, v) \<in> set ?fx \<longrightarrow> ?pos k \<noteq> int i + 1) \<longrightarrow> data ! i = GNil)"
    by (rule make_read_fix_row) (auto simp: read_pos_value_def at)
  then show ?thesis by fastforce
qed

section \<open>From a read plan to the statement's parameters\<close>

text \<open>C3: A rectangular result whose column names are distinct is stored without error into
  the plan's buffer, and a \<^verbatim>\<open>dynamic\<close> position of that round reads each of its cells
  back by column name and row number.\<close>

theorem alloc_read_back:
  assumes "pb_inv i b" "distinct cols" "\<And>row. row \<in> set data \<Longrightarrow> length row = length cols"
  shows "\<exists>b'. alloc_current_data_to_state i data cols seq b = (Ok (), b') \<and> pb_inv i b' \<and>
    (\<forall>ri < length data. \<forall>di < length cols.
      pb_get b' (int i) (cols ! di) (int ri) seq = Ok (data ! ri ! di))"
proof (cases "data = []")
  case True
  with assms(1) show ?thesis by (simp add: alloc_current_data_to_state_def)
next
  case False
  then have "length (hd data) = length cols" using assms(3) by simp
  with False show ?thesis
    using pbuf.alloc_table_stored[OF assms(1,2), where rows = data and seq = seq and room = "length data"] assms(3)
    by (simp add: alloc_current_data_to_state_def)
qed

lemma set_cell_ok:
  assumes "j < length param" "fi < length (param ! j)"
  shows "set_cell param j (int fi) v = Ok (param[j := (param ! j)[fi := v]])"
  using assms by (simp add: set_cell_def)

lemma sync_dynamic_ok:
  assumes "\<And>j. j \<in> set idxs \<Longrightarrow> j < length param \<and> fi < length (param ! j) \<and>
      pb_get buf (ds_PlanIdx d) (ds_Col d) (int j) seq = Ok (val j)"
    and "distinct idxs" "ds_StartSyncOffset d \<le> 0"
  shows "\<exists>param'. sync_dynamic buf seq (int fi) d idxs param = Ok param' \<and> length param' = length param \<and>
    (\<forall>j. param' ! j = (if j \<in> set idxs then (param ! j)[fi := val j] else param ! j))"
  using assms
proof (induction idxs arbitrary: param)
  case Nil
  then show ?case by simp
next
  case (Cons x xs)
  let ?p = "param[x := (param ! x)[fi := val x]]"
  have x: "x < length param" "fi < length (param ! x)"
      "pb_get buf (ds_PlanIdx d) (ds_Col d) (int x) seq = Ok (val x)"
    using Cons.prems(1)[of x] by auto
  have "\<exists>param'. sync_dynamic buf seq (int fi) d xs ?p = Ok param' \<and> length param' = length ?p \<and>
      (\<forall>j. param' ! j = (if j \<in> set xs then (?p ! j)[fi := val j] else ?p ! j))"
    by (rule Cons.IH) (use Cons.prems in \<open>auto simp: nth_list_update\<close>)
  then show ?case
    using x Cons.prems(2,3) by (auto simp: set_cell_ok nth_list_update)
qed

definition first_col_from :: "string \<Rightarrow> (string \<times> sync_pos) list" where
  "first_col_from col = [(''1'', \<lparr>sp_Dynamic = Some \<lparr>ds_PlanIdx = 0, ds_Col = col, ds_StartSyncOffset = 0\<rparr>,
     sp_Static = None\<rparr>)]"

lemma padded_read:
  assumes "padded cap n (pb_col i b col)" "0 < n" "i < length (pb_m b)" "0 \<le> sint seq"
    and "\<And>r. r < n \<Longrightarrow> pb_get b (int i) col (int r) seq = Ok (val r)"
    and "j < n - 1 + cap"
  shows "pb_get b (int i) col (int j) seq = Ok (if j < n then val j else GNil)"
proof (cases "j < n")
  case True
  with assms(5) show ?thesis by simp
next
  case False
  with assms(1-4,6) show ?thesis by (auto simp: padded_def pb_get_eq zero_cell_def Let_def)
qed

lemma alloc_fresh_table:
  assumes "new_plan_param_buffer 1 mi (int cap) idle = Ok b" "1 \<le> cap"
    and "sint (idle_limit idle) < sint seq"
    and "distinct cols" "\<And>row. row \<in> set data \<Longrightarrow> length row = length cols" "data \<noteq> []"
  obtains b' where "alloc_current_data_to_state 0 data cols seq b = (Ok (), b')"
    and "length (pb_m b') = 1" "pb_wf b'" "\<And>c. c \<in> set cols \<Longrightarrow> padded cap (length data) (pb_col 0 b' c)"
    and "\<And>c. c \<notin> set cols \<Longrightarrow> pb_col 0 b' c = []"
    and "\<And>ri di. ri < length data \<Longrightarrow> di < length cols \<Longrightarrow>
      pb_get b' 0 (cols ! di) (int ri) seq = Ok (data ! ri ! di)"
proof -
  have b: "b = \<lparr>pb_m = [[]], pb_rowCap = int cap, pb_rowIdleSec = idle\<rparr>"
    using assms(1) by (simp add: new_plan_param_buffer_def go_make_def)
  then have inv: "pb_inv 0 b" using assms(2) by (simp add: pb_inv_def pb_wf_def)
  obtain b' where b': "alloc_current_data_to_state 0 data cols seq b = (Ok (), b')" "pb_inv 0 b'"
      "\<forall>ri < length data. \<forall>di < length cols. pb_get b' (int 0) (cols ! di) (int ri) seq = Ok (data ! ri ! di)"
    using pbuf.alloc_table_stored[OF inv assms(4), where rows = data and seq = seq and room = "length data"] assms(5,6)
    by (auto simp: alloc_current_data_to_state_def)
  have "length (hd data) = length cols" using assms(5,6) by simp
  then have run: "alloc_table (\<lambda>c r d. pb_set (int 0) c (int r) d seq) cols data b = (Ok (), b')"
    using b'(1) assms(6) by (simp add: alloc_current_data_to_state_def)
  show ?thesis
  proof (rule that[OF b'(1)])
    show "length (pb_m b') = 1" using alloc_table_frame[OF run] b by simp
    show "pb_wf b'" using b'(2) by (simp add: pb_inv_def)
    show "padded cap (length data) (pb_col 0 b' c)" if "c \<in> set cols" for c
      by (rule alloc_table_fresh[OF inv _ _ _ assms(4,5) run that]) (use assms(3) b in auto)
    show "pb_col 0 b' c = []" if "c \<notin> set cols" for c
      using alloc_table_keeps_other[OF run that] b by (simp add: pb_col_def col_of_def)
  qed (use b'(3) in auto)
qed

text \<open>C26: On the first round of a plan with one read, a sync binding to a result column yields
  \<^verbatim>\<open>plan_buf_cap - 1\<close> more parameter rows than the query returned rows: the rows of the
  result in order, then rows of nil, and the statement is executed for those too.\<close>

theorem sync_params_are_padded:
  assumes "new_plan_param_buffer 1 mi (int cap) idle = Ok b" "1 \<le> cap"
    and "sint (idle_limit idle) < sint seq" "0 \<le> sint seq"
    and "distinct cols" "\<And>row. row \<in> set data \<Longrightarrow> length row = length cols" "data \<noteq> []"
    and "di < length cols"
  shows "\<exists>b' param. alloc_current_data_to_state 0 data cols seq b = (Ok (), b') \<and>
    make_sync_fix b' seq (first_col_from (cols ! di)) = Ok (Some param) \<and>
    length param = length data + (cap - 1) \<and>
    (\<forall>j < length param. param ! j ! 0 = (if j < length data then data ! j ! di else GNil))"
proof -
  obtain b' where b': "alloc_current_data_to_state 0 data cols seq b = (Ok (), b')"
    and wf: "length (pb_m b') = 1" "pb_wf b'"
    and pad: "\<And>c. c \<in> set cols \<Longrightarrow> padded cap (length data) (pb_col 0 b' c)"
    and other: "\<And>c. c \<notin> set cols \<Longrightarrow> pb_col 0 b' c = []"
    and val: "\<And>ri di. ri < length data \<Longrightarrow> di < length cols \<Longrightarrow>
      pb_get b' 0 (cols ! di) (int ri) seq = Ok (data ! ri ! di)"
    using alloc_fresh_table[OF assms(1-3,5-7)] by blast
  define n where "n = length data - 1 + cap"
  have len: "length (pb_col 0 b' c) = n" if "c \<in> set cols" for c
    using pad[OF that] assms(7) by (simp add: padded_def n_def)
  have "length (pb_col 0 b' c) \<le> n" for c
    using len[of c] other[of c] by (cases "c \<in> set cols") auto
  moreover have "0 < n" using assms(2,7) by (simp add: n_def)
  ultimately obtain k where k: "1 \<le> k" "max_size b' seq = Ok (k, int n)"
    using max_size_single[OF wf, of n "cols ! di" seq] len assms(8) by auto
  have get: "pb_get b' 0 (cols ! di) (int j) seq = Ok (if j < length data then data ! j ! di else GNil)"
    if "j < n" for j
    using padded_read[OF pad[of "cols ! di"], where val = "\<lambda>r. data ! r ! di" and seq = seq] that wf(1) val assms(4,7,8)
    by (simp add: n_def)
  let ?p = "replicate n (replicate (nat k) GNil)"
  let ?d = "\<lparr>ds_PlanIdx = 0, ds_Col = cols ! di, ds_StartSyncOffset = 0\<rparr>"
  obtain param where param: "sync_dynamic b' seq (int 0) ?d [0..<n] ?p = Ok param" "length param = n"
      "\<And>j. j < n \<Longrightarrow> param ! j = (?p ! j)[0 := if j < length data then data ! j ! di else GNil]"
    using sync_dynamic_ok[of "[0..<n]" ?p 0 b' ?d seq "\<lambda>j. if j < length data then data ! j ! di else GNil"]
      k(1) get by auto
  have "atoi ''1'' = Ok 1" by code_simp
  then have "make_sync_fix b' seq (first_col_from (cols ! di)) = Ok (Some param)"
    using k param(1) by (simp add: make_sync_fix_def first_col_from_def)
  then show ?thesis
    using b' param(2,3) k(1) assms(2,7) by (intro exI[of _ b'] exI[of _ param]) (auto simp: n_def Suc_leI)
qed

lemma alloc_read_back_witness:
  "\<exists>b'. alloc_current_data_to_state 0 [[GInt 1, GNil]] [''a'', ''b''] 5 \<lparr>pb_m = [[]], pb_rowCap = 1, pb_rowIdleSec = 0\<rparr>
      = (Ok (), b') \<and> pb_get b' 0 ''a'' 0 5 = Ok (GInt 1)"
  using alloc_read_back[of 0 "\<lparr>pb_m = [[]], pb_rowCap = 1, pb_rowIdleSec = 0\<rparr>" "[''a'', ''b'']" "[[GInt 1, GNil]]" 5]
  by (auto simp: pb_inv_def pb_wf_def)

lemma sync_params_are_padded_witness:
  "\<exists>b' param. alloc_current_data_to_state 0 [[GInt 1]] [''c''] 1800000000000000 \<lparr>pb_m = [[]], pb_rowCap = 3, pb_rowIdleSec = 0\<rparr>
      = (Ok (), b') \<and>
    make_sync_fix b' 1800000000000000 (first_col_from ''c'') = Ok (Some param) \<and> length param = 3 \<and>
    param ! 0 ! 0 = GInt 1 \<and> param ! 2 ! 0 = GNil"
proof -
  have "new_plan_param_buffer 1 0 (int 3) 0 = Ok \<lparr>pb_m = [[]], pb_rowCap = 3, pb_rowIdleSec = 0\<rparr>"
    by (simp add: new_plan_param_buffer_def go_make_def)
  from sync_params_are_padded[OF this, of 1800000000000000 "[''c'']" "[[GInt 1]]" 0]
  show ?thesis by (auto simp: idle_limit_def numeral_3_eq_3)
qed

end
