(* ===== verification/PlanBufferV1.thy ===== *)
theory PlanBufferV1
  imports Round_Store "HOL-Library.AList"
begin

text \<open>
  \<^verbatim>\<open>cmd/oncecall_sync/plan/new/plan_buffer.go\<close>: the rewritten parameter buffer.  Per
  plan a map from columns to a slice with the number of rows in use and the round that wrote
  it.  Every method takes the lock for its whole body, so a method is one atomic step of the
  buffer state.  The invariant \<open>nb_wf\<close> (the stored row count is the index after the last
  non-nil value, no row is longer than Go can make, and the row capacity is a non-negative
  \<^verbatim>\<open>int\<close>) is what makes the slice expressions of the methods safe.
\<close>

section \<open>State\<close>

record ppv =
  v_row :: "goval list"
  v_rowSize :: int
  v_seq :: int64

type_synonym ppv_map = "(string \<times> ppv) list"

record ppbuf =
  nb_table :: "ppv_map list"
  nb_rowCap :: int
  nb_rowIdleSeq :: int

definition zero_ppv :: ppv where
  "zero_ppv = \<lparr>v_row = [], v_rowSize = 0, v_seq = 0\<rparr>"

definition new_plan_param_buffer_v1 :: "int \<Rightarrow> int \<Rightarrow> int \<Rightarrow> int \<Rightarrow> ppbuf" where
  "new_plan_param_buffer_v1 count0 mapInitCap0 rowInitCap0 rowIdleSeq =
    (let count = (if count0 < 0 then 1 else count0);
         rowInitCap = (if rowInitCap0 < 0 then 0 else rowInitCap0)
     in \<lparr>nb_table = replicate (nat (count + 1)) [], nb_rowCap = rowInitCap, nb_rowIdleSeq = rowIdleSeq\<rparr>)"

text \<open>\<^verbatim>\<open>slices.Backward\<close>: the index after the last non-nil value.\<close>

fun calc_loop :: "goval list \<Rightarrow> int \<Rightarrow> int" where
  "calc_loop [] i = 0"
| "calc_loop (r # rs) i = (if r \<noteq> GNil then i + 1 else calc_loop rs (i - 1))"

definition calculate_row_size :: "goval list \<Rightarrow> int" where
  "calculate_row_size row = calc_loop (rev row) (int (length row) - 1)"

definition validate_index :: "ppbuf \<Rightarrow> int \<Rightarrow> unit go" where
  "validate_index b idx =
    (if idx < 0 \<or> int (length (nb_table b)) \<le> idx then Err (EFmt ''invalid index: %d'') else Ok ())"

definition is_idle :: "ppbuf \<Rightarrow> int64 \<Rightarrow> ppv \<Rightarrow> bool" where
  "is_idle b seq v \<longleftrightarrow>
    sint (v_seq v) < sint seq \<and> sint (word_of_int (nb_rowIdleSeq b) :: int64) < sint (seq - v_seq v)"

definition delete_idle :: "ppbuf \<Rightarrow> int64 \<Rightarrow> ppbuf" where
  "delete_idle b seq =
    (if nb_rowIdleSeq b \<le> 0 then b
     else b\<lparr>nb_table := map (filter (\<lambda>kv. \<not> is_idle b seq (snd kv))) (nb_table b)\<rparr>)"

definition lookup_col :: "ppbuf \<Rightarrow> int \<Rightarrow> string \<Rightarrow> ppv option" where
  "lookup_col b idx col = map_of (nb_table b ! nat idx) col"

definition put_ppv :: "ppbuf \<Rightarrow> int \<Rightarrow> string \<Rightarrow> ppv \<Rightarrow> ppbuf" where
  "put_ppv b idx col v =
    b\<lparr>nb_table := (nb_table b)[nat idx := AList.update col v (nb_table b ! nat idx)]\<rparr>"

text \<open>\<^verbatim>\<open>make([]any, n)\<close> of a length computed in a 64-bit \<^verbatim>\<open>int\<close>: Go panics when it has wrapped to a
  negative number or asks for more than 2^48 bytes, at 16 bytes a cell.  (A length in range is taken
  to fit the memory; running out of it is not a panic but the end of the process.)\<close>

definition any_limit :: int where
  "any_limit = 2 ^ 44"

definition make_anys :: "int \<Rightarrow> goval list go" where
  "make_anys n0 =
    (let n = sint (word_of_int n0 :: int64)
     in if n < 0 \<or> any_limit < n then Panic PMakeSlice else Ok (replicate (nat n) GNil))"

section \<open>Operations\<close>

definition nb_set :: "int \<Rightarrow> string \<Rightarrow> int \<Rightarrow> goval \<Rightarrow> int64 \<Rightarrow> (ppbuf, unit) goS" where
  "nb_set idx col row data seq b0 =
    (case validate_index b0 idx of
      Err e \<Rightarrow> (Err e, b0)
    | Panic p \<Rightarrow> (Panic p, b0)
    | Ok _ \<Rightarrow>
      if row < 0 then (Err (EFmt ''invalid row: %d''), b0)
      else
        let b = delete_idle b0 seq;
            v = (case lookup_col b idx col of None \<Rightarrow> zero_ppv | Some v \<Rightarrow> v);
            grown = (if int (length (v_row v)) \<le> row
              then bind_go (make_anys (row + 1 + nb_rowCap b)) (\<lambda>newRow. Ok (go_copy newRow (v_row v)))
              else Ok (v_row v))
        in (case bind_go grown (\<lambda>r. go_store r row data) of
              Err e \<Rightarrow> (Err e, b)
            | Panic p \<Rightarrow> (Panic p, b)
            | Ok r \<Rightarrow> (Ok (), put_ppv b idx col
                \<lparr>v_row = r, v_rowSize = calculate_row_size r, v_seq = seq\<rparr>)))"

definition nb_set_cols_data :: "int \<Rightarrow> string \<Rightarrow> goval list \<Rightarrow> int64 \<Rightarrow> (ppbuf, unit) goS" where
  "nb_set_cols_data idx col data seq b0 =
    (case validate_index b0 idx of
      Err e \<Rightarrow> (Err e, b0)
    | Panic p \<Rightarrow> (Panic p, b0)
    | Ok _ \<Rightarrow>
      let b = delete_idle b0 seq
      in (case make_anys (int (length data) + nb_rowCap b) of
            Err e \<Rightarrow> (Err e, b)
          | Panic p \<Rightarrow> (Panic p, b)
          | Ok row \<Rightarrow> (Ok (), put_ppv b idx col
              \<lparr>v_row = go_copy row data, v_rowSize = calculate_row_size data, v_seq = seq\<rparr>)))"

text \<open>One column of the table: row \<open>i\<close> is \<^verbatim>\<open>data[i][colIdx]\<close> where that row is long enough.\<close>

definition table_column :: "goval list list \<Rightarrow> nat \<Rightarrow> goval list" where
  "table_column data colIdx = map (\<lambda>vs. if colIdx < length vs then vs ! colIdx else GNil) data"

fun set_table_loop ::
    "int \<Rightarrow> goval list list \<Rightarrow> int64 \<Rightarrow> nat \<Rightarrow> string list \<Rightarrow> (ppbuf, unit) goS" where
  "set_table_loop idx data seq colIdx [] b = (Ok (), b)"
| "set_table_loop idx data seq colIdx (col # cols) b =
    (case make_anys (int (length data) + nb_rowCap b) of
      Err e \<Rightarrow> (Err e, b)
    | Panic p \<Rightarrow> (Panic p, b)
    | Ok row0 \<Rightarrow>
        let row = go_copy row0 (table_column data colIdx)
        in set_table_loop idx data seq (Suc colIdx) cols
             (put_ppv b idx col
               \<lparr>v_row = row, v_rowSize = calculate_row_size (take (length data) row), v_seq = seq\<rparr>))"

definition nb_set_table ::
    "int \<Rightarrow> string list \<Rightarrow> goval list list \<Rightarrow> int64 \<Rightarrow> (ppbuf, unit) goS" where
  "nb_set_table idx cols data seq b0 =
    (case validate_index b0 idx of
      Err e \<Rightarrow> (Err e, b0)
    | Panic p \<Rightarrow> (Panic p, b0)
    | Ok _ \<Rightarrow> set_table_loop idx data seq 0 cols (delete_idle b0 seq))"

definition nb_get :: "ppbuf \<Rightarrow> int \<Rightarrow> string \<Rightarrow> int \<Rightarrow> int64 \<Rightarrow> goval go" where
  "nb_get b idx col row seq =
    bind_go (validate_index b idx) (\<lambda>_.
      (case lookup_col b idx col of
        None \<Rightarrow> Err (EFmt ''column not found: %s'')
      | Some v \<Rightarrow>
          if sint (v_seq v) \<le> sint seq then Ok GNil
          else if row < 0 \<or> int (length (v_row v)) \<le> row then Err (EFmt ''invalid row: %d'')
          else go_index (v_row v) row))"

definition nb_get_cols_data :: "ppbuf \<Rightarrow> int \<Rightarrow> string \<Rightarrow> int64 \<Rightarrow> goval list go" where
  "nb_get_cols_data b idx col seq =
    bind_go (validate_index b idx) (\<lambda>_.
      (case lookup_col b idx col of
        None \<Rightarrow> Err (EFmt ''column not found: %s'')
      | Some v \<Rightarrow>
          if sint (v_seq v) \<le> sint seq then Ok []
          else bind_go (make_anys (v_rowSize v)) (\<lambda>ret.
            if int (length (v_row v)) < v_rowSize v then Panic PIndex
            else Ok (go_copy ret (take (nat (v_rowSize v)) (v_row v))))))"

fun max_col_loop :: "int64 \<Rightarrow> ppv_map \<Rightarrow> (int64 \<times> int) list \<Rightarrow> int \<Rightarrow> int" where
  "max_col_loop seq [] counts mx = mx"
| "max_col_loop seq ((col, v) # vs) counts mx =
    (if sint (v_seq v) \<le> sint seq then max_col_loop seq vs counts mx
     else let n = (case map_of counts (v_seq v) of None \<Rightarrow> 0 | Some n \<Rightarrow> n) + 1
          in max_col_loop seq vs (AList.update (v_seq v) n counts) (if mx < n then n else mx))"

definition max_col_size_locked :: "ppbuf \<Rightarrow> nat \<Rightarrow> int64 \<Rightarrow> int" where
  "max_col_size_locked b idx seq = max_col_loop seq (nb_table b ! idx) [] 0"

fun max_row_loop :: "int64 \<Rightarrow> ppv_map \<Rightarrow> int \<Rightarrow> int" where
  "max_row_loop seq [] mx = mx"
| "max_row_loop seq ((col, v) # vs) mx =
    max_row_loop seq vs (if sint seq < sint (v_seq v) \<and> mx < v_rowSize v then v_rowSize v else mx)"

definition max_row_size_locked :: "ppbuf \<Rightarrow> nat \<Rightarrow> int64 \<Rightarrow> int" where
  "max_row_size_locked b idx seq = max_row_loop seq (nb_table b ! idx) 0"

definition nb_max_col_size :: "ppbuf \<Rightarrow> int \<Rightarrow> int64 \<Rightarrow> int go" where
  "nb_max_col_size b idx seq =
    bind_go (validate_index b idx) (\<lambda>_. Ok (max_col_size_locked b (nat idx) seq))"

definition nb_max_row_size :: "ppbuf \<Rightarrow> int \<Rightarrow> int64 \<Rightarrow> int go" where
  "nb_max_row_size b idx seq =
    bind_go (validate_index b idx) (\<lambda>_. Ok (max_row_size_locked b (nat idx) seq))"

fun nb_max_size_loop :: "ppbuf \<Rightarrow> int64 \<Rightarrow> nat list \<Rightarrow> int \<Rightarrow> int \<Rightarrow> int \<times> int" where
  "nb_max_size_loop b seq [] cols rows = (cols, rows)"
| "nb_max_size_loop b seq (idx # idxs) cols rows =
    (let c = max_col_size_locked b idx seq; r = max_row_size_locked b idx seq
     in nb_max_size_loop b seq idxs (if cols < c then c else cols) (if rows < r then r else rows))"

definition nb_max_size :: "ppbuf \<Rightarrow> int64 \<Rightarrow> (int \<times> int) go" where
  "nb_max_size b seq = Ok (nb_max_size_loop b seq [0..<length (nb_table b)] 0 0)"

section \<open>Row counts\<close>

definition trim_nils :: "goval list \<Rightarrow> goval list" where
  "trim_nils xs = rev (dropWhile (\<lambda>r. r = GNil) (rev xs))"

lemma calc_loop_eq:
  "calc_loop rs (int (length rs) - 1) = int (length (dropWhile (\<lambda>r. r = GNil) rs))"
proof (induction rs)
  case (Cons r rs)
  then show ?case by (cases "r = GNil") simp_all
qed simp

lemma calculate_row_size_eq: "calculate_row_size row = int (length (trim_nils row))"
  using calc_loop_eq[of "rev row"] by (simp add: calculate_row_size_def trim_nils_def)

lemma length_trim_nils_le: "length (trim_nils row) \<le> length row"
  by (simp add: trim_nils_def) (metis length_dropWhile_le length_rev)

lemma take_trim_nils: "take (length (trim_nils row)) row = trim_nils row"
proof -
  have "row = trim_nils row @ rev (takeWhile (\<lambda>r. r = GNil) (rev row))"
    by (simp add: trim_nils_def flip: rev_append)
  then show ?thesis by (metis append_eq_conv_conj)
qed

lemma trim_nils_pad [simp]: "trim_nils (xs @ replicate n GNil) = trim_nils xs"
proof -
  have "dropWhile (\<lambda>r. r = GNil) (replicate n GNil @ ys) = dropWhile (\<lambda>r. r = GNil) ys" for ys
    by (induction n) auto
  then show ?thesis by (simp add: trim_nils_def)
qed

lemma trim_nils_last: "xs \<noteq> [] \<Longrightarrow> last xs \<noteq> GNil \<Longrightarrow> trim_nils xs = xs"
  by (cases xs rule: rev_cases) (auto simp: trim_nils_def)

lemma go_copy_pad:
  "length data \<le> n \<Longrightarrow> go_copy (replicate n GNil) data = data @ replicate (n - length data) GNil"
  by (simp add: go_copy_def)

text \<open>A sum of lengths and capacities of 64 bits that wraps becomes negative.\<close>

lemma make_anys_eq:
  assumes "0 \<le> n" "n < 2 ^ 64"
  shows "make_anys n = (if n \<le> any_limit then Ok (replicate (nat n) GNil) else Panic PMakeSlice)"
proof (cases "n < 2 ^ 63")
  case True
  then have "sint (word_of_int n :: int64) = n"
    using assms(1) by (simp add: sint_sbintrunc' signed_take_bit_int_eq_self)
  then show ?thesis using assms(1) by (simp add: make_anys_def)
next
  case False
  have "(word_of_int n :: int64) = word_of_int (n - 2 ^ 64)"
    by (simp add: word_of_int_eq_iff take_bit_eq_mod)
  moreover have "sint (word_of_int (n - 2 ^ 64) :: int64) = n - 2 ^ 64"
    unfolding sint_sbintrunc' by (rule signed_take_bit_int_eq_self) (use assms(2) False in simp_all)
  ultimately have "sint (word_of_int n :: int64) = n - 2 ^ 64" by (simp only:)
  then have "sint (word_of_int n :: int64) < 0" using assms(2) by linarith
  then show ?thesis using False by (simp add: make_anys_def any_limit_def)
qed

section \<open>The invariant\<close>

definition ppv_ok :: "ppv \<Rightarrow> bool" where
  "ppv_ok v \<longleftrightarrow> v_rowSize v = calculate_row_size (v_row v) \<and> int (length (v_row v)) \<le> any_limit"

definition nb_wf :: "ppbuf \<Rightarrow> bool" where
  "nb_wf b \<longleftrightarrow> 0 \<le> nb_rowCap b \<and> nb_rowCap b < 2 ^ 63 \<and>
    (\<forall>pm \<in> set (nb_table b). distinct (map fst pm) \<and> (\<forall>kv \<in> set pm. ppv_ok (snd kv)))"

lemma new_plan_param_buffer_v1_wf: "rc < 2 ^ 63 \<Longrightarrow> nb_wf (new_plan_param_buffer_v1 n mi rc ri)"
  by (auto simp: nb_wf_def new_plan_param_buffer_v1_def Let_def)

lemma length_new_plan_param_buffer_v1:
  "int (length (nb_table (new_plan_param_buffer_v1 n mi rc ri))) = (if n < 0 then 2 else n + 1)"
  by (simp add: new_plan_param_buffer_v1_def Let_def)

lemma delete_idle_simps [simp]:
  "length (nb_table (delete_idle b seq)) = length (nb_table b)"
  "nb_rowCap (delete_idle b seq) = nb_rowCap b"
  "nb_rowIdleSeq (delete_idle b seq) = nb_rowIdleSeq b"
  by (simp_all add: delete_idle_def)

lemma put_ppv_simps [simp]:
  "length (nb_table (put_ppv b i c v)) = length (nb_table b)"
  "nb_rowCap (put_ppv b i c v) = nb_rowCap b"
  "nb_rowIdleSeq (put_ppv b i c v) = nb_rowIdleSeq b"
  by (simp_all add: put_ppv_def)

lemma nb_wf_delete_idle [go_inv, simp]: "nb_wf b \<Longrightarrow> nb_wf (delete_idle b seq)"
  by (auto simp: nb_wf_def delete_idle_def intro: distinct_map_filter)

lemma nb_wf_put_ppv [go_inv]:
  assumes "nb_wf b" "ppv_ok v" "0 \<le> i" "i < int (length (nb_table b))"
  shows "nb_wf (put_ppv b i c v)"
proof -
  let ?old = "nb_table b ! nat i"
  have "?old \<in> set (nb_table b)" using assms(3,4) by (simp add: nat_less_iff)
  then have old: "distinct (map fst ?old)" "\<forall>kv \<in> set ?old. ppv_ok (snd kv)"
    using assms(1) by (auto simp: nb_wf_def)
  have "distinct (map fst (AList.update c v ?old)) \<and> (\<forall>kv \<in> set (AList.update c v ?old). ppv_ok (snd kv))"
    using old assms(2) by (auto simp: distinct_update dest!: set_mp[OF set_alist_update])
  moreover have "set (nb_table (put_ppv b i c v)) \<subseteq> insert (AList.update c v ?old) (set (nb_table b))"
    by (simp add: put_ppv_def set_update_subset_insert)
  ultimately show ?thesis
    using assms(1) by (auto simp: nb_wf_def dest!: set_mp)
qed

lemma lookup_put_ppv:
  assumes "0 \<le> i" "i < int (length (nb_table b))" "0 \<le> j"
  shows "lookup_col (put_ppv b i c v) j c' = (if j = i \<and> c' = c then Some v else lookup_col b j c')"
  using assms by (cases "j = i") (auto simp: lookup_col_def put_ppv_def update_conv' nat_less_iff)

lemma lookup_delete_idle:
  assumes "nb_wf b" "0 \<le> i" "i < int (length (nb_table b))"
  shows "lookup_col (delete_idle b seq) i c =
    (case lookup_col b i c of
      None \<Rightarrow> None
    | Some v \<Rightarrow> if 0 < nb_rowIdleSeq b \<and> is_idle b seq v then None else Some v)"
proof -
  have "distinct (map fst (nb_table b ! nat i))"
    using assms by (auto simp: nb_wf_def nat_less_iff)
  from map_of_filter_val[OF this, of "\<lambda>v. \<not> is_idle b seq v" c] show ?thesis
    using assms(2,3)
    by (auto simp: lookup_col_def delete_idle_def nat_less_iff split: option.splits)
qed

lemma lookup_ppv_ok:
  "nb_wf b \<Longrightarrow> 0 \<le> i \<Longrightarrow> i < int (length (nb_table b)) \<Longrightarrow> lookup_col b i c = Some v \<Longrightarrow> ppv_ok v"
  by (force simp: nb_wf_def lookup_col_def nat_less_iff dest!: map_of_SomeD)

lemma validate_index_iff [simp]:
  "validate_index b i = Ok u \<longleftrightarrow> 0 \<le> i \<and> i < int (length (nb_table b))"
  "validate_index b i \<noteq> Panic p"
  by (auto simp: validate_index_def)

section \<open>What the operations do\<close>

definition valid_idx :: "ppbuf \<Rightarrow> int \<Rightarrow> bool" where
  "valid_idx b idx \<longleftrightarrow> 0 \<le> idx \<and> idx < int (length (nb_table b))"

lemma validate_index_valid: "valid_idx b idx \<Longrightarrow> validate_index b idx = Ok ()"
  by (simp add: validate_index_def valid_idx_def)

lemma validate_index_invalid: "\<not> valid_idx b idx \<Longrightarrow> validate_index b idx = Err (EFmt ''invalid index: %d'')"
  by (auto simp: validate_index_def valid_idx_def)

lemma valid_idx_simps [simp]:
  "valid_idx (delete_idle b seq) idx = valid_idx b idx"
  "valid_idx (put_ppv b i c v) idx = valid_idx b idx"
  by (simp_all add: valid_idx_def)

lemma nb_wf_put_ppv' [go_inv]:
  "nb_wf b \<Longrightarrow> ppv_ok v \<Longrightarrow> valid_idx b i \<Longrightarrow> nb_wf (put_ppv b i c v)"
  by (simp add: nb_wf_put_ppv valid_idx_def)

lemma lookup_put_ppv':
  "valid_idx b i \<Longrightarrow> valid_idx b j \<Longrightarrow>
    lookup_col (put_ppv b i c v) j c' = (if j = i \<and> c' = c then Some v else lookup_col b j c')"
  by (simp add: lookup_put_ppv valid_idx_def)

text \<open>The row \<^verbatim>\<open>Set\<close> writes into: what the column holds once the idle columns are gone.\<close>

definition old_row :: "ppbuf \<Rightarrow> int \<Rightarrow> string \<Rightarrow> int64 \<Rightarrow> goval list" where
  "old_row b idx col seq =
    (case lookup_col (delete_idle b seq) idx col of None \<Rightarrow> [] | Some v \<Rightarrow> v_row v)"

text \<open>Whether a slice of \<open>n\<close> rows and the row capacity is one Go makes.\<close>

definition fits :: "ppbuf \<Rightarrow> int \<Rightarrow> bool" where
  "fits b n \<longleftrightarrow> n + nb_rowCap b \<le> any_limit"

lemma fits_frame [simp]:
  "fits (delete_idle b seq) n = fits b n" "fits (put_ppv b i c v) n = fits b n"
  by (simp_all add: fits_def)

lemma make_anys_fits:
  assumes "nb_wf b" "0 \<le> n" "n < 2 ^ 63 + 1"
  shows "make_anys (n + nb_rowCap b) =
    (if fits b n then Ok (replicate (nat (n + nb_rowCap b)) GNil) else Panic PMakeSlice)"
  using assms make_anys_eq[of "n + nb_rowCap b"] by (simp add: nb_wf_def fits_def)

lemma length_old_row: "nb_wf b \<Longrightarrow> valid_idx b idx \<Longrightarrow> int (length (old_row b idx col seq)) \<le> any_limit"
  using lookup_ppv_ok[of "delete_idle b seq" idx col]
  by (auto simp: old_row_def valid_idx_def ppv_ok_def any_limit_def split: option.split)

text \<open>What \<^verbatim>\<open>Set\<close> has to write into: the old row, or a longer copy of it.\<close>

lemma nb_set_grown:
  assumes "nb_wf b" "valid_idx b idx"
  shows "nb_set idx col (int row) d seq b =
    (case (if length (old_row b idx col seq) \<le> row
        then bind_go (make_anys (int row + 1 + nb_rowCap b)) (\<lambda>newRow. Ok (go_copy newRow (old_row b idx col seq)))
        else Ok (old_row b idx col seq)) of
      Err e \<Rightarrow> (Err e, delete_idle b seq) | Panic p \<Rightarrow> (Panic p, delete_idle b seq)
    | Ok r \<Rightarrow> (case go_store r (int row) d of
        Err e \<Rightarrow> (Err e, delete_idle b seq) | Panic p \<Rightarrow> (Panic p, delete_idle b seq)
      | Ok r \<Rightarrow> (Ok (), put_ppv (delete_idle b seq) idx col
          \<lparr>v_row = r, v_rowSize = calculate_row_size r, v_seq = seq\<rparr>)))"
proof -
  have v: "v_row (case lookup_col (delete_idle b seq) idx col of None \<Rightarrow> zero_ppv | Some v \<Rightarrow> v) = old_row b idx col seq"
    by (simp add: old_row_def zero_ppv_def split: option.splits)
  show ?thesis
    using assms(2) by (auto simp: nb_set_def validate_index_valid v Let_def split: go.split)
qed

lemma nb_set_valid:
  assumes "nb_wf b" "valid_idx b idx" "row < length (old_row b idx col seq) \<or> fits b (int row + 1)"
  shows "\<exists>r. nb_set idx col (int row) d seq b =
      (Ok (), put_ppv (delete_idle b seq) idx col
        \<lparr>v_row = r, v_rowSize = calculate_row_size r, v_seq = seq\<rparr>) \<and>
    row < length r \<and> int (length r) \<le> any_limit \<and> r ! row = d \<and>
    (\<forall>j < length (old_row b idx col seq). j \<noteq> row \<longrightarrow> r ! j = old_row b idx col seq ! j) \<and>
    (\<forall>j. length (old_row b idx col seq) \<le> j \<and> j < length r \<and> j \<noteq> row \<longrightarrow> r ! j = GNil)"
proof -
  let ?old = "old_row b idx col seq"
  have cap: "0 \<le> nb_rowCap b" using assms(1) by (simp add: nb_wf_def)
  show ?thesis
  proof (cases "length ?old \<le> row")
    case True
    let ?n = "nat (int row + 1 + nb_rowCap b)"
    let ?r = "(go_copy (replicate ?n GNil) ?old)[row := d]"
    have fit: "int row + 1 + nb_rowCap b \<le> any_limit" using assms(3) True by (simp add: fits_def)
    then have "int row + 1 < 2 ^ 63 + 1" using cap by (simp add: any_limit_def)
    then have "make_anys (int row + 1 + nb_rowCap b) = Ok (replicate ?n GNil)"
      using make_anys_fits[OF assms(1), of "int row + 1"] fit by (simp add: fits_def)
    then have "nb_set idx col (int row) d seq b = (Ok (), put_ppv (delete_idle b seq) idx col
        \<lparr>v_row = ?r, v_rowSize = calculate_row_size ?r, v_seq = seq\<rparr>)"
      using cap True by (simp add: nb_set_grown[OF assms(1,2)])
    moreover have "row < length ?r" "?r ! row = d" "int (length ?r) \<le> any_limit" using cap fit by auto
    moreover have "\<forall>j < length ?old. j \<noteq> row \<longrightarrow> ?r ! j = ?old ! j"
      "\<forall>j. length ?old \<le> j \<and> j < length ?r \<and> j \<noteq> row \<longrightarrow> ?r ! j = GNil"
      using True cap by (auto simp: nth_go_copy)
    ultimately show ?thesis by blast
  next
    case False
    then show ?thesis
      using length_old_row[OF assms(1,2), of col seq]
      by (intro exI[of _ "?old[row := d]"]) (auto simp: nb_set_grown[OF assms(1,2)])
  qed
qed

lemma nb_set_too_long:
  assumes "nb_wf b" "valid_idx b idx" "length (old_row b idx col seq) \<le> row" "\<not> fits b (int row + 1)" "int row < 2 ^ 63"
  shows "nb_set idx col (int row) d seq b = (Panic PMakeSlice, delete_idle b seq)"
proof -
  have "make_anys (int row + 1 + nb_rowCap b) = Panic PMakeSlice"
    using make_anys_fits[OF assms(1), of "int row + 1"] assms(4,5) by simp
  then show ?thesis using assms(3) by (simp add: nb_set_grown[OF assms(1,2)])
qed

lemma nb_set_invalid:
  "\<not> valid_idx b idx \<or> row < 0 \<Longrightarrow> \<exists>e. nb_set idx col row d seq b = (Err e, b)"
  by (cases "valid_idx b idx") (auto simp: nb_set_def validate_index_valid validate_index_invalid)

lemma nb_set_cols_data_valid:
  assumes "nb_wf b" "valid_idx b idx" "int (length data) < 2 ^ 63"
  shows "nb_set_cols_data idx col data seq b =
    (if fits b (int (length data))
     then (Ok (), put_ppv (delete_idle b seq) idx col
       \<lparr>v_row = data @ replicate (nat (nb_rowCap b)) GNil, v_rowSize = calculate_row_size data, v_seq = seq\<rparr>)
     else (Panic PMakeSlice, delete_idle b seq))"
proof -
  have cap: "0 \<le> nb_rowCap b" using assms(1) by (simp add: nb_wf_def)
  from make_anys_fits[OF assms(1), of "int (length data)"] assms(2,3) cap show ?thesis
    by (simp add: nb_set_cols_data_def validate_index_valid go_copy_pad nat_add_distrib Let_def)
qed

text \<open>What \<^verbatim>\<open>SetTable\<close> stores for one column: its values, then \<^verbatim>\<open>rowCap\<close> nils.\<close>

definition column_ppv :: "int \<Rightarrow> goval list list \<Rightarrow> int64 \<Rightarrow> nat \<Rightarrow> ppv" where
  "column_ppv cap data seq j =
    \<lparr>v_row = table_column data j @ replicate (nat cap) GNil,
     v_rowSize = calculate_row_size (table_column data j), v_seq = seq\<rparr>"

definition put_column :: "int \<Rightarrow> goval list list \<Rightarrow> int64 \<Rightarrow> ppbuf \<Rightarrow> nat \<times> string \<Rightarrow> ppbuf" where
  "put_column idx data seq b jc = put_ppv b idx (snd jc) (column_ppv (nb_rowCap b) data seq (fst jc))"

lemma set_table_loop_valid:
  assumes "0 \<le> nb_rowCap b" "fits b (int (length data))"
  shows "set_table_loop idx data seq j cols b =
    (Ok (), foldl (put_column idx data seq) b (enumerate j cols))"
  using assms
proof (induction cols arbitrary: j b)
  case Nil
  then show ?case by simp
next
  case (Cons col cols)
  have "length (table_column data j) = length data" by (simp add: table_column_def)
  moreover have "make_anys (int (length data) + nb_rowCap b) = Ok (replicate (nat (int (length data) + nb_rowCap b)) GNil)"
    using Cons.prems make_anys_eq[of "int (length data) + nb_rowCap b"] by (simp add: fits_def any_limit_def)
  ultimately show ?case
    using Cons by (simp add: go_copy_pad nat_add_distrib Let_def put_column_def column_ppv_def)
qed

lemma ppv_ok_pad:
  "fits b (int (length xs)) \<Longrightarrow> 0 \<le> nb_rowCap b \<Longrightarrow>
    ppv_ok \<lparr>v_row = xs @ replicate (nat (nb_rowCap b)) GNil, v_rowSize = calculate_row_size xs, v_seq = seq\<rparr>"
  by (simp add: ppv_ok_def calculate_row_size_eq fits_def)

lemma nb_wf_cap: "nb_wf b \<Longrightarrow> 0 \<le> nb_rowCap b"
  by (simp add: nb_wf_def)

lemma put_column_simps [simp]:
  "valid_idx (put_column idx data seq b jc) i = valid_idx b i"
  "nb_rowCap (put_column idx data seq b jc) = nb_rowCap b"
  "fits (put_column idx data seq b jc) n = fits b n"
  by (simp_all add: put_column_def)

lemma put_columns_simps [simp]:
  "valid_idx (foldl (put_column idx data seq) b jcs) i = valid_idx b i"
  "nb_rowCap (foldl (put_column idx data seq) b jcs) = nb_rowCap b"
  by (induction jcs arbitrary: b) simp_all

lemma set_table_foldl:
  assumes "nb_wf b" "valid_idx b idx" "fits b (int (length data))"
  shows "nb_wf (foldl (put_column idx data seq) b jcs)"
  using assms
proof (induction jcs arbitrary: b)
  case (Cons jc jcs)
  have "ppv_ok (column_ppv (nb_rowCap b) data seq (fst jc))"
    using ppv_ok_pad[of b "table_column data (fst jc)" seq] Cons.prems(1,3)
    by (simp add: column_ppv_def nb_wf_cap table_column_def)
  then have "nb_wf (put_column idx data seq b jc)"
    using Cons.prems by (simp add: put_column_def nb_wf_put_ppv')
  with Cons show ?case by simp
qed simp

lemma set_table_lookup:
  assumes "valid_idx b idx" "distinct (map snd jcs)" "(j, col) \<in> set jcs"
  shows "lookup_col (foldl (put_column idx data seq) b jcs) idx col =
    Some (column_ppv (nb_rowCap b) data seq j)"
  using assms
proof (induction jcs arbitrary: b rule: rev_induct)
  case (snoc jc jcs)
  then show ?case
    by (cases jc) (auto simp: put_column_def[of idx data seq "foldl _ _ _"] lookup_put_ppv' image_iff)
qed simp

lemma nb_set_table_valid:
  assumes "nb_wf b" "valid_idx b idx" "fits b (int (length data))"
  shows "nb_set_table idx cols data seq b =
    (Ok (), foldl (put_column idx data seq) (delete_idle b seq) (enumerate 0 cols))"
  using assms by (simp add: nb_set_table_def validate_index_valid set_table_loop_valid nb_wf_cap)

lemma nb_set_table_too_long:
  assumes "nb_wf b" "valid_idx b idx" "\<not> fits b (int (length data))" "int (length data) < 2 ^ 63"
  shows "nb_set_table idx cols data seq b = (if cols = [] then Ok () else Panic PMakeSlice, delete_idle b seq)"
proof -
  have "make_anys (int (length data) + nb_rowCap b) = Panic PMakeSlice"
    using make_anys_fits[OF assms(1), of "int (length data)"] assms(3,4) by simp
  then show ?thesis using assms(2) by (cases cols) (simp_all add: nb_set_table_def validate_index_valid)
qed

lemma nb_get_valid:
  "valid_idx b idx \<Longrightarrow> lookup_col b idx col = Some v \<Longrightarrow> row < length (v_row v) \<Longrightarrow>
    nb_get b idx col (int row) seq = Ok (if sint (v_seq v) \<le> sint seq then GNil else v_row v ! row)"
  by (simp add: nb_get_def validate_index_valid)

lemma nb_get_cols_data_valid:
  assumes "nb_wf b" "valid_idx b idx" "lookup_col b idx col = Some v"
  shows "nb_get_cols_data b idx col seq =
    Ok (if sint (v_seq v) \<le> sint seq then [] else trim_nils (v_row v))"
proof -
  have "ppv_ok v" using assms by (auto simp: valid_idx_def intro: lookup_ppv_ok)
  then have n: "v_rowSize v = int (length (trim_nils (v_row v)))"
    by (simp add: ppv_ok_def calculate_row_size_eq)
  have "int (length (trim_nils (v_row v))) \<le> any_limit"
    using \<open>ppv_ok v\<close> length_trim_nils_le[of "v_row v"] by (simp add: ppv_ok_def)
  then have "make_anys (v_rowSize v) = Ok (replicate (length (trim_nils (v_row v))) GNil)"
    using make_anys_eq[of "v_rowSize v"] n by (simp add: any_limit_def)
  moreover have "go_copy (replicate (length ys) GNil) ys = ys" for ys
    by (simp add: go_copy_def)
  ultimately show ?thesis
    using assms n length_trim_nils_le[of "v_row v"] take_trim_nils[of "v_row v"]
    by (simp add: nb_get_cols_data_def validate_index_valid)
qed

section \<open>Properties\<close>

text \<open>When each write panics.\<close>

lemma nb_set_safe:
  assumes "nb_wf b" "row < 2 ^ 63"
  shows "nb_wf (snd (nb_set idx col row d seq b)) \<and>
    (is_panic (fst (nb_set idx col row d seq b)) \<longleftrightarrow> valid_idx b idx \<and> int (length (old_row b idx col seq)) \<le> row \<and> \<not> fits b (row + 1))"
proof (cases "valid_idx b idx \<and> 0 \<le> row")
  case False
  then obtain e where "nb_set idx col row d seq b = (Err e, b)" using nb_set_invalid by (metis not_le)
  with False assms(1) show ?thesis by auto
next
  case True
  then obtain n where n: "row = int n" by (metis nonneg_int_cases)
  show ?thesis
  proof (cases "n < length (old_row b idx col seq) \<or> fits b (int n + 1)")
    case ok: True
    from nb_set_valid[OF assms(1) _ ok, of d] True obtain r where
      "nb_set idx col (int n) d seq b = (Ok (), put_ppv (delete_idle b seq) idx col
        \<lparr>v_row = r, v_rowSize = calculate_row_size r, v_seq = seq\<rparr>)" "int (length r) \<le> any_limit"
      by blast
    with ok True n assms(1) show ?thesis by (auto simp: nb_wf_put_ppv' ppv_ok_def)
  next
    case False
    then show ?thesis using nb_set_too_long[OF assms(1), of idx col seq n d] True n assms by auto
  qed
qed

lemma nb_set_cols_data_safe:
  assumes "nb_wf b" "int (length data) < 2 ^ 63"
  shows "nb_wf (snd (nb_set_cols_data idx col data seq b)) \<and>
    (is_panic (fst (nb_set_cols_data idx col data seq b)) \<longleftrightarrow> valid_idx b idx \<and> \<not> fits b (int (length data)))"
proof (cases "valid_idx b idx")
  case True
  then show ?thesis
    using assms ppv_ok_pad[of b data seq] by (simp add: nb_set_cols_data_valid nb_wf_put_ppv' nb_wf_cap)
next
  case False
  with assms(1) show ?thesis by (simp add: nb_set_cols_data_def validate_index_invalid)
qed

lemma nb_set_table_safe:
  assumes "nb_wf b" "int (length tab) < 2 ^ 63"
  shows "nb_wf (snd (nb_set_table idx cols tab seq b)) \<and>
    (is_panic (fst (nb_set_table idx cols tab seq b)) \<longleftrightarrow> valid_idx b idx \<and> cols \<noteq> [] \<and> \<not> fits b (int (length tab)))"
proof (cases "valid_idx b idx")
  case True
  show ?thesis
  proof (cases "fits b (int (length tab))")
    case fit: True
    with True assms(1) show ?thesis by (simp add: nb_set_table_valid set_table_foldl)
  next
    case False
    with True assms show ?thesis by (simp add: nb_set_table_too_long)
  qed
next
  case False
  with assms(1) show ?thesis by (simp add: nb_set_table_def validate_index_invalid)
qed

lemma nb_get_cols_data_safe:
  assumes "nb_wf b"
  shows "\<not> is_panic (nb_get_cols_data b idx col seq)"
proof (cases "valid_idx b idx")
  case True
  then show ?thesis
    using nb_get_cols_data_valid[OF assms True, of col]
    by (cases "lookup_col b idx col") (simp_all add: nb_get_cols_data_def validate_index_valid)
qed (simp add: nb_get_cols_data_def validate_index_invalid)

lemma nb_reads_safe:
  "\<not> is_panic (nb_get b idx col row seq)" "\<not> is_panic (nb_max_col_size b idx seq)"
  "\<not> is_panic (nb_max_row_size b idx seq)" "\<not> is_panic (nb_max_size b seq)"
  by (cases "valid_idx b idx"; auto simp: nb_get_def nb_max_col_size_def nb_max_row_size_def nb_max_size_def
      validate_index_valid validate_index_invalid go_index_def is_panic_iff split: option.splits)+

text \<open>C14: Every method of the buffer keeps its invariant, whatever its arguments.  The readers
  (\<^verbatim>\<open>Get\<close>, \<^verbatim>\<open>GetColsData\<close> and the three sizes) never panic.  A writer panics exactly when, for
  an index in range, the slice it has to make is longer than Go can make (\<open>fits\<close>: the rows asked for
  and the row capacity, a sum that may also wrap around): \<^verbatim>\<open>Set\<close> for a row past the end of the
  column, \<^verbatim>\<open>SetColsData\<close>, and \<^verbatim>\<open>SetTable\<close> when it names a column.  Every other bad
  index, row or column is an error value.  (Row numbers and lengths are Go's: below 2^63.)\<close>

theorem nb_ops_safe:
  assumes "nb_wf b" "row < 2 ^ 63" "int (length data) < 2 ^ 63" "int (length tab) < 2 ^ 63"
  shows "nb_wf (snd (nb_set idx col row d seq b)) \<and>
    (is_panic (fst (nb_set idx col row d seq b)) \<longleftrightarrow>
      valid_idx b idx \<and> int (length (old_row b idx col seq)) \<le> row \<and> \<not> fits b (row + 1)) \<and>
    nb_wf (snd (nb_set_cols_data idx col data seq b)) \<and>
    (is_panic (fst (nb_set_cols_data idx col data seq b)) \<longleftrightarrow> valid_idx b idx \<and> \<not> fits b (int (length data))) \<and>
    nb_wf (snd (nb_set_table idx cols tab seq b)) \<and>
    (is_panic (fst (nb_set_table idx cols tab seq b)) \<longleftrightarrow>
      valid_idx b idx \<and> cols \<noteq> [] \<and> \<not> fits b (int (length tab))) \<and>
    \<not> is_panic (nb_get b idx col row seq) \<and> \<not> is_panic (nb_get_cols_data b idx col seq) \<and>
    \<not> is_panic (nb_max_col_size b idx seq) \<and> \<not> is_panic (nb_max_row_size b idx seq) \<and>
    \<not> is_panic (nb_max_size b seq)"
  using assms
  by (simp add: nb_set_safe nb_set_cols_data_safe nb_set_table_safe nb_get_cols_data_safe nb_reads_safe)

theorem nb_ops_safe_witness:
  "nb_wf (snd (nb_set 0 ''c'' 7 (GInt 1) 5 (new_plan_param_buffer_v1 1 0 2 0))) \<and>
    is_panic (fst (nb_set 0 ''c'' (2 ^ 63 - 1) (GInt 1) 5 (new_plan_param_buffer_v1 1 0 2 0)))"
proof -
  let ?b = "new_plan_param_buffer_v1 1 0 2 0"
  have wf: "nb_wf ?b" by (simp add: new_plan_param_buffer_v1_wf)
  have old: "old_row ?b 0 ''c'' 5 = []"
    by (simp add: old_row_def new_plan_param_buffer_v1_def delete_idle_def lookup_col_def)
  show ?thesis
    using nb_ops_safe[OF wf, of 7 "[]" "[]" 0 "''c''" "GInt 1" 5 "[]"]
      nb_ops_safe[OF wf, of "2 ^ 63 - 1" "[]" "[]" 0 "''c''" "GInt 1" 5 "[]"] old
    by (simp add: valid_idx_def length_new_plan_param_buffer_v1 fits_def any_limit_def)
      (simp add: new_plan_param_buffer_v1_def)
qed

text \<open>A cell written by \<^verbatim>\<open>Set\<close> reads back with its value for every reader whose
  threshold is older than the writing round, and as nil for the others.\<close>

theorem nb_set_get:
  assumes "nb_wf b" "row < 2 ^ 63" "nb_set idx col row d seq b = (Ok (), b')"
  shows "nb_get b' idx col row seq' = Ok (if sint seq \<le> sint seq' then GNil else d)"
proof -
  have v: "valid_idx b idx" "0 \<le> row"
    using assms(3) nb_set_invalid[of b idx row col d seq] by force+
  then obtain n where n: "row = int n" by (metis nonneg_int_cases)
  have "n < length (old_row b idx col seq) \<or> fits b (int n + 1)"
    using nb_set_safe[OF assms(1,2), of idx col d seq] assms(3) v(1) n by auto
  from nb_set_valid[OF assms(1) v(1) this, of d] assms(3) n
  obtain r where "b' = put_ppv (delete_idle b seq) idx col
      \<lparr>v_row = r, v_rowSize = calculate_row_size r, v_seq = seq\<rparr>" "n < length r" "r ! n = d"
    by auto
  with v n show ?thesis by (simp add: nb_get_valid lookup_put_ppv')
qed

theorem nb_set_get_witness:
  "nb_get (snd (nb_set 0 ''name'' 1 (GString ''world'') 10 (new_plan_param_buffer_v1 2 4 10 5)))
    0 ''name'' 1 5 = Ok (GString ''world'')"
proof -
  let ?b = "new_plan_param_buffer_v1 2 4 10 5"
  have wf: "nb_wf ?b" by (simp add: new_plan_param_buffer_v1_wf)
  have v: "valid_idx ?b 0" by (simp add: valid_idx_def length_new_plan_param_buffer_v1)
  have "fits ?b (int 1 + 1)" by (simp add: fits_def any_limit_def new_plan_param_buffer_v1_def)
  with nb_set_valid[OF wf v, of 1 "''name''" 10 "GString ''world''"]
  obtain b' where b': "nb_set 0 ''name'' 1 (GString ''world'') 10 ?b = (Ok (), b')" by auto
  from nb_set_get[OF wf _ b', of 5] b' show ?thesis by simp
qed

text \<open>After \<^verbatim>\<open>SetTable\<close> with distinct column names, \<^verbatim>\<open>GetColsData\<close> of the
  \<open>j\<close>-th name returns the \<open>j\<close>-th column of the table, short rows padded with nil and the
  trailing nils dropped.\<close>

theorem nb_set_table_get_cols:
  assumes "nb_wf b" "valid_idx b idx" "fits b (int (length data))" "distinct cols" "j < length cols" "sint seq' < sint seq"
  shows "nb_get_cols_data (snd (nb_set_table idx cols data seq b)) idx (cols ! j) seq' =
    Ok (trim_nils (table_column data j))"
proof -
  let ?b = "foldl (put_column idx data seq) (delete_idle b seq) (enumerate 0 cols)"
  have "(j, cols ! j) \<in> set (enumerate 0 cols)"
    using assms(5) by (simp add: in_set_enumerate_eq)
  then have "lookup_col ?b idx (cols ! j) = Some (column_ppv (nb_rowCap b) data seq j)"
    using set_table_lookup[of "delete_idle b seq" idx "enumerate 0 cols"] assms(2,4) by simp
  moreover have "nb_wf ?b" using assms(1-3) by (simp add: set_table_foldl)
  ultimately show ?thesis
    using assms by (simp add: nb_set_table_valid nb_get_cols_data_valid column_ppv_def)
qed

theorem nb_set_table_get_cols_witness:
  "nb_get_cols_data (snd (nb_set_table 0 [''n1'', ''n2'']
      [[GInt 1, GInt 2], [GInt 4]] 5 (new_plan_param_buffer_v1 2 4 10 5))) 0 ''n2'' 1 = Ok [GInt 2]"
proof -
  have "fits (new_plan_param_buffer_v1 2 4 10 5) 2" by (simp add: fits_def any_limit_def new_plan_param_buffer_v1_def)
  then show ?thesis
    using nb_set_table_get_cols[of "new_plan_param_buffer_v1 2 4 10 5" 0 "[[GInt 1, GInt 2], [GInt 4]]" "[''n1'', ''n2'']" 1 1 5]
    by (simp add: new_plan_param_buffer_v1_wf valid_idx_def length_new_plan_param_buffer_v1 table_column_def trim_nils_def)
qed

section \<open>The buffer implements the round store\<close>

text \<open>
  Within one round (all writes stamped \<open>seq\<close>, all reads with a threshold \<open>thr\<close> before
  before it) the buffer is a round store, with the room that Go can make slices for: a column written in
  this round is never idle.
\<close>

definition nb_round_inv :: "nat \<Rightarrow> int64 \<Rightarrow> int64 \<Rightarrow> nat \<Rightarrow> ppbuf \<Rightarrow> bool" where
  "nb_round_inv i seq thr room b \<longleftrightarrow>
    nb_wf b \<and> i < length (nb_table b) \<and> sint thr < sint seq \<and> fits b (int room)"

definition nb_height :: "nat \<Rightarrow> int64 \<Rightarrow> ppbuf \<Rightarrow> string \<Rightarrow> nat" where
  "nb_height i seq b c =
    (case lookup_col b (int i) c of None \<Rightarrow> 0 | Some v \<Rightarrow> if v_seq v = seq then length (v_row v) else 0)"

lemma nb_height_delete_idle:
  "nb_wf b \<Longrightarrow> i < length (nb_table b) \<Longrightarrow> nb_height i seq (delete_idle b seq) c = nb_height i seq b c"
  by (auto simp: nb_height_def lookup_delete_idle is_idle_def split: option.splits)

lemma nb_get_height:
  "nb_round_inv i seq thr room b \<Longrightarrow> r < nb_height i seq b c \<Longrightarrow>
    nb_get b (int i) c (int r) thr = Ok (the (map_option v_row (lookup_col b (int i) c)) ! r)"
  by (auto simp: nb_height_def nb_round_inv_def nb_get_valid valid_idx_def split: option.splits if_splits)

lemma nb_round_step:
  assumes "nb_round_inv i seq thr room b" "r \<le> nb_height i seq b c" "r < room"
  shows "\<exists>x. nb_set (int i) c (int r) d seq b = (Ok (), put_ppv (delete_idle b seq) (int i) c
      \<lparr>v_row = x, v_rowSize = calculate_row_size x, v_seq = seq\<rparr>) \<and> r < length x \<and> x ! r = d \<and>
    int (length x) \<le> any_limit \<and>
    (\<forall>j. length (old_row b (int i) c seq) \<le> j \<and> j < length x \<and> j \<noteq> r \<longrightarrow> x ! j = GNil) \<and>
    (\<forall>j < length (old_row b (int i) c seq). j \<noteq> r \<longrightarrow> x ! j = old_row b (int i) c seq ! j) \<and>
    (\<forall>r' < r. r' < nb_height i seq b c \<and> x ! r' = the (map_option v_row (lookup_col b (int i) c)) ! r')"
proof -
  have b: "nb_wf b" "valid_idx b (int i)"
    using assms(1) by (simp_all add: nb_round_inv_def valid_idx_def)
  have "fits b (int r + 1)" using assms(1,3) by (simp add: nb_round_inv_def fits_def)
  with nb_set_valid[OF b, of r c seq d] obtain x where
    x: "nb_set (int i) c (int r) d seq b = (Ok (), put_ppv (delete_idle b seq) (int i) c
      \<lparr>v_row = x, v_rowSize = calculate_row_size x, v_seq = seq\<rparr>)" "r < length x" "x ! r = d"
    "int (length x) \<le> any_limit" "\<forall>j. length (old_row b (int i) c seq) \<le> j \<and> j < length x \<and> j \<noteq> r \<longrightarrow> x ! j = GNil"
    "\<forall>j < length (old_row b (int i) c seq). j \<noteq> r \<longrightarrow> x ! j = old_row b (int i) c seq ! j"
    by blast
  have "r' < nb_height i seq b c \<and> x ! r' = the (map_option v_row (lookup_col b (int i) c)) ! r'"
    if "r' < r" for r'
  proof -
    from that assms(2) obtain v where v: "lookup_col b (int i) c = Some v" "v_seq v = seq"
        "r' < length (v_row v)"
      by (auto simp: nb_height_def split: option.splits if_splits)
    then have "old_row b (int i) c seq = v_row v"
      using b by (simp add: old_row_def lookup_delete_idle is_idle_def valid_idx_def)
    with v x(6) that show ?thesis by (simp add: nb_height_def)
  qed
  with x show ?thesis by blast
qed

interpretation nbuf: round_store "nb_round_inv i seq thr room" "nb_height i seq"
    "\<lambda>b c r. nb_get b (int i) c (int r) thr" "\<lambda>c r d. nb_set (int i) c (int r) d seq" room
  for i seq thr room
proof -
  have inv: "nb_round_inv i seq thr room (snd (nb_set (int i) c (int r) d seq b))"
    if "nb_round_inv i seq thr room b" "r \<le> nb_height i seq b c" "r < room" for b c r d
    using nb_round_step[OF that, of d] that
    by (auto simp: nb_round_inv_def nb_wf_put_ppv ppv_ok_def)
  have other: "nb_height i seq (snd (nb_set (int i) c (int r) d seq b)) c' = nb_height i seq b c' \<and>
      (r' < nb_height i seq b c' \<longrightarrow>
        lookup_col (snd (nb_set (int i) c (int r) d seq b)) (int i) c' = lookup_col b (int i) c')"
    if "nb_round_inv i seq thr room b" "r \<le> nb_height i seq b c" "r < room" "c' \<noteq> c" for b c c' r r' d
    using nb_round_step[OF that(1-3), of d] that nb_height_delete_idle[of b i seq c']
    by (auto simp: nb_height_def nb_round_inv_def lookup_put_ppv lookup_delete_idle is_idle_def
        split: option.splits if_splits)
  show "round_store (nb_round_inv i seq thr room) (nb_height i seq)
      (\<lambda>b c r. nb_get b (int i) c (int r) thr) (\<lambda>c r d. nb_set (int i) c (int r) d seq) room"
  proof (unfold_locales, goal_cases)
    case (1 b r c d)
    show ?case using nb_round_step[OF 1, of d] by auto
  next
    case (2 b r c d)
    show ?case by (rule inv[OF 2])
  next
    case (3 b r c d)
    show ?case using nb_round_step[OF 3, of d] 3 by (auto simp: nb_height_def nb_round_inv_def lookup_put_ppv)
  next
    case (4 b r c d)
    show ?case using nb_round_step[OF 4, of d] 4
      by (auto simp: nb_round_inv_def nb_get_valid lookup_put_ppv valid_idx_def)
  next
    case (5 b r c r' d)
    show ?case using nb_round_step[OF 5(1-3), of d] 5
      by (auto simp: nb_round_inv_def nb_get_valid lookup_put_ppv valid_idx_def nb_get_height)
  next
    case (6 b r c c' d)
    show ?case using other[OF 6] by blast
  next
    case (7 b r c c' r' d)
    then show ?case
      using other[OF 7(1-4), of d r'] nb_get_height[OF inv[OF 7(1-3), of d], of r' c'] nb_get_height[OF 7(1), of r' c']
      by simp
  qed
qed

text \<open>After \<open>k\<close> rows of a table, a column that was not in the buffer before the round: nothing, or nil
  from row \<open>k\<close> on.\<close>

definition column_new :: "nat \<Rightarrow> int64 \<Rightarrow> nat \<Rightarrow> ppbuf \<Rightarrow> string \<Rightarrow> bool" where
  "column_new i seq k t c \<longleftrightarrow>
    (case lookup_col t (int i) c of None \<Rightarrow> k = 0
    | Some v \<Rightarrow> 0 < k \<and> v_seq v = seq \<and> k \<le> length (v_row v) \<and> (\<forall>j. k \<le> j \<and> j < length (v_row v) \<longrightarrow> v_row v ! j = GNil))"

lemma column_new_old_row:
  assumes "nb_wf t" "i < length (nb_table t)" "column_new i seq k t c"
  shows "old_row t (int i) c seq = (case lookup_col t (int i) c of None \<Rightarrow> [] | Some v \<Rightarrow> v_row v)"
  using assms by (auto simp: old_row_def column_new_def lookup_delete_idle is_idle_def split: option.splits)

lemma column_new_step:
  assumes "nb_round_inv i seq thr room t" "k \<le> nb_height i seq t c" "k < room" "column_new i seq k t c"
  shows "column_new i seq (Suc k) (snd (nb_set (int i) c (int k) d seq t)) c"
proof -
  have t: "nb_wf t" "i < length (nb_table t)" using assms(1) by (simp_all add: nb_round_inv_def)
  note old = column_new_old_row[OF t assms(4)]
  from nb_round_step[OF assms(1-3), of d] obtain x where
    x: "nb_set (int i) c (int k) d seq t = (Ok (), put_ppv (delete_idle t seq) (int i) c
      \<lparr>v_row = x, v_rowSize = calculate_row_size x, v_seq = seq\<rparr>)" "k < length x"
    "\<forall>j. length (old_row t (int i) c seq) \<le> j \<and> j < length x \<and> j \<noteq> k \<longrightarrow> x ! j = GNil"
    "\<forall>j < length (old_row t (int i) c seq). j \<noteq> k \<longrightarrow> x ! j = old_row t (int i) c seq ! j"
    by blast
  have nils: "old_row t (int i) c seq ! j = GNil" if "k \<le> j" "j < length (old_row t (int i) c seq)" for j
    using that old assms(4) by (auto simp: column_new_def split: option.splits)
  have "x ! j = GNil" if "Suc k \<le> j" "j < length x" for j
    using that x(3,4) nils[of j] by (cases "j < length (old_row t (int i) c seq)") auto
  with x t show ?thesis by (simp add: column_new_def lookup_put_ppv)
qed

lemma column_new_other:
  assumes "nb_round_inv i seq thr room t" "k \<le> nb_height i seq t c" "k < room" "c' \<noteq> c" "column_new i seq k' t c'"
  shows "column_new i seq k' (snd (nb_set (int i) c (int k) d seq t)) c'"
proof -
  have t: "nb_wf t" "i < length (nb_table t)" using assms(1) by (simp_all add: nb_round_inv_def)
  from nb_round_step[OF assms(1-3), of d] obtain v where
    "snd (nb_set (int i) c (int k) d seq t) = put_ppv (delete_idle t seq) (int i) c v" by force
  with t assms(4,5) show ?thesis
    by (auto simp: column_new_def lookup_put_ppv lookup_delete_idle is_idle_def split: option.splits)
qed

lemma cellwise_column:
  assumes "nb_wf b'" "i < length (nb_table b')" "sint thr < sint seq" "data \<noteq> []"
    and "column_new i seq (length data) b' c"
    and "\<And>ri. ri < length data \<Longrightarrow> nb_get b' (int i) c (int ri) thr = Ok (xs ! ri)" "length xs = length data"
  shows "nb_get_cols_data b' (int i) c thr = Ok (trim_nils xs)"
proof -
  have idx: "valid_idx b' (int i)" using assms(2) by (simp add: valid_idx_def)
  obtain v where v: "lookup_col b' (int i) c = Some v" "v_seq v = seq" "length data \<le> length (v_row v)"
    "\<forall>j. length data \<le> j \<and> j < length (v_row v) \<longrightarrow> v_row v ! j = GNil"
    using assms(4,5) by (auto simp: column_new_def split: option.splits)
  have "v_row v ! ri = xs ! ri" if "ri < length data" for ri
    using assms(3) assms(6)[OF that] nb_get_valid[OF idx v(1), of ri thr] that v(2,3) by simp
  then have "v_row v = xs @ replicate (length (v_row v) - length data) GNil"
    using v(3,4) assms(7) by (intro nth_equalityI) (auto simp: nth_append)
  then have "trim_nils (v_row v) = trim_nils xs" by (metis trim_nils_pad)
  then show ?thesis using nb_get_cols_data_valid[OF assms(1) idx v(1), of thr] v(2) assms(3) by simp
qed

text \<open>C15: A rectangular table that is not too long is stored without an error both ways, cell by cell
  with \<^verbatim>\<open>Set\<close> and at once with \<^verbatim>\<open>SetTable\<close>, and for every reader of the round each of its
  cells reads the same from the two buffers: its value in the table.  So does every whole column
  (\<^verbatim>\<open>GetColsData\<close>: its values up to the last that is not nil) when the table has a row and
  its columns were not in the buffer.  Nothing is said of rows past the table, where the two differ:
  they leave different spare capacity, and \<^verbatim>\<open>Set\<close> keeps what an older round left in the column.\<close>

theorem nb_set_table_is_cellwise:
  assumes "nb_wf b" "i < length (nb_table b)" "fits b (int (length data))" "distinct cols" "sint thr < sint seq"
    and "\<forall>row \<in> set data. length row = length cols"
  shows "\<exists>cellwise atonce.
    alloc_table (\<lambda>c r d. nb_set (int i) c (int r) d seq) cols data b = (Ok (), cellwise) \<and>
    nb_set_table (int i) cols data seq b = (Ok (), atonce) \<and>
    (\<forall>ri < length data. \<forall>di < length cols.
      nb_get cellwise (int i) (cols ! di) (int ri) thr = Ok (data ! ri ! di) \<and>
      nb_get atonce (int i) (cols ! di) (int ri) thr = Ok (data ! ri ! di)) \<and>
    (data \<noteq> [] \<and> (\<forall>c \<in> set cols. lookup_col b (int i) c = None) \<longrightarrow> (\<forall>di < length cols.
      nb_get_cols_data cellwise (int i) (cols ! di) thr = Ok (trim_nils (map (\<lambda>row. row ! di) data)) \<and>
      nb_get_cols_data atonce (int i) (cols ! di) thr = Ok (trim_nils (map (\<lambda>row. row ! di) data))))"
proof -
  have rows: "\<And>row. row \<in> set data \<Longrightarrow> length row = length cols" using assms(6) by blast
  have inv: "nb_round_inv i seq thr (length data) b" using assms(1,2,3,5) by (simp add: nb_round_inv_def)
  from nbuf.alloc_table_stored[where rows = data, OF inv assms(4) rows order_refl]
  obtain b1 where b1: "alloc_table (\<lambda>c r d. nb_set (int i) c (int r) d seq) cols data b = (Ok (), b1)"
    "nb_round_inv i seq thr (length data) b1"
    "\<forall>ri < length data. \<forall>di < length cols. nb_get b1 (int i) (cols ! di) (int ri) thr = Ok (data ! ri ! di)"
    by blast
  let ?b2 = "foldl (put_column (int i) data seq) (delete_idle b seq) (enumerate 0 cols)"
  have idx: "valid_idx b (int i)" using assms(2) by (simp add: valid_idx_def)
  have b2: "nb_set_table (int i) cols data seq b = (Ok (), ?b2)"
    using nb_set_table_valid[OF assms(1) idx assms(3)] by simp
  have wf2: "nb_wf ?b2" using assms(1,3) idx by (simp add: set_table_foldl)
  have col2: "lookup_col ?b2 (int i) (cols ! di) = Some (column_ppv (nb_rowCap b) data seq di)" if "di < length cols" for di
  proof -
    have "(di, cols ! di) \<in> set (enumerate 0 cols)" using that by (simp add: in_set_enumerate_eq)
    from set_table_lookup[OF _ _ this, of "delete_idle b seq" "int i"] idx assms(4) show ?thesis by simp
  qed
  have tc: "table_column data di = map (\<lambda>row. row ! di) data" if "di < length cols" for di
    using that rows by (auto simp: table_column_def)
  have cells2: "nb_get ?b2 (int i) (cols ! di) (int ri) thr = Ok (data ! ri ! di)"
    if "ri < length data" "di < length cols" for ri di
    using that idx col2[OF that(2)] tc[OF that(2)] assms(5)
    by (simp add: nb_get_valid column_ppv_def nth_append)
  have cols2: "nb_get_cols_data ?b2 (int i) (cols ! di) thr = Ok (trim_nils (map (\<lambda>row. row ! di) data))"
    if "di < length cols" for di
    using nb_get_cols_data_valid[OF wf2 _ col2[OF that]] idx tc[OF that] assms(5) by (simp add: column_ppv_def)
  have cols1: "nb_get_cols_data b1 (int i) (cols ! di) thr = Ok (trim_nils (map (\<lambda>row. row ! di) data))"
    if "data \<noteq> []" "\<forall>c \<in> set cols. lookup_col b (int i) c = None" "di < length cols" for di
  proof -
    have "column_new i seq (length data) b1 (cols ! di)"
    proof (rule nbuf.alloc_table_column_inv[OF inv assms(4) rows _ _ _ b1(1) _ order_refl])
      show "column_new i seq 0 b c" if "c \<in> set cols" for c
        using \<open>\<forall>c \<in> set cols. lookup_col b (int i) c = None\<close> that by (simp add: column_new_def)
      show "cols ! di \<in> set cols" using that(3) by simp
    qed (use column_new_step column_new_other in blast)+
    with cellwise_column[OF _ _ assms(5) that(1), of b1 i "cols ! di"] b1(2,3) that(3) show ?thesis
      by (simp add: nb_round_inv_def)
  qed
  show ?thesis
  proof (rule exI[of _ b1], rule exI[of _ ?b2], intro conjI impI allI)
    fix ri di assume "ri < length data" "di < length cols"
    with b1(3) show "nb_get b1 (int i) (cols ! di) (int ri) thr = Ok (data ! ri ! di)" by blast
  next
    fix di assume "data \<noteq> [] \<and> (\<forall>c \<in> set cols. lookup_col b (int i) c = None)" "di < length cols"
    with cols1 show "nb_get_cols_data b1 (int i) (cols ! di) thr = Ok (trim_nils (map (\<lambda>row. row ! di) data))" by blast
  qed (fact b1(1) b2 | erule (1) cells2 | erule cols2)+
qed

theorem nb_set_table_is_cellwise_witness:
  "nb_get (snd (nb_set_table 0 [''a'', ''b''] [[GInt 1, GInt 2]] 5 (new_plan_param_buffer_v1 1 0 0 0))) 0 ''b'' 0 4 = Ok (GInt 2) \<and>
    nb_get_cols_data (snd (alloc_table (\<lambda>c r d. nb_set 0 c (int r) d 5) [''a'', ''b''] [[GInt 1, GInt 2]]
      (new_plan_param_buffer_v1 1 0 0 0))) 0 ''a'' 4 = Ok [GInt 1]"
proof -
  let ?b = "new_plan_param_buffer_v1 1 0 0 0" and ?data = "[[GInt 1, GInt 2]]" and ?cols = "[''a'', ''b'']"
  have b: "nb_wf ?b" "0 < length (nb_table ?b)" "fits ?b (int (length ?data))" "\<forall>c \<in> set ?cols. lookup_col ?b (int 0) c = None"
    by (rule new_plan_param_buffer_v1_wf, simp)
      (simp_all add: fits_def any_limit_def new_plan_param_buffer_v1_def lookup_col_def)
  from nb_set_table_is_cellwise[OF b(1-3), of ?cols 4 5] b(4) obtain t1 t2 where t:
    "alloc_table (\<lambda>c r d. nb_set (int 0) c (int r) d 5) ?cols ?data ?b = (Ok (), t1)"
    "nb_set_table (int 0) ?cols ?data 5 ?b = (Ok (), t2)"
    "nb_get t2 (int 0) (?cols ! 1) (int 0) 4 = Ok (?data ! 0 ! 1)"
    "nb_get_cols_data t1 (int 0) (?cols ! 0) 4 = Ok (trim_nils (map (\<lambda>row. row ! 0) ?data))"
    by (auto simp: All_less_Suc)
  then show ?thesis by (simp add: trim_nils_def)
qed

section \<open>Sizes\<close>

text \<open>The columns a reader with threshold \<open>seq\<close> sees, and how many of them one round wrote.\<close>

definition live :: "int64 \<Rightarrow> ppv_map \<Rightarrow> ppv list" where
  "live seq pm = filter (\<lambda>v. sint seq < sint (v_seq v)) (map snd pm)"

definition round_count :: "int64 \<Rightarrow> ppv list \<Rightarrow> int" where
  "round_count s vs = int (length (filter (\<lambda>v. v_seq v = s) vs))"

definition max_list :: "int list \<Rightarrow> int" where
  "max_list xs = fold max xs 0"

lemma max_list_ge: "x \<in> set xs \<Longrightarrow> x \<le> max_list xs"
  and max_list_nonneg: "0 \<le> max_list xs"
  and max_list_in: "max_list xs = 0 \<or> max_list xs \<in> set xs"
proof -
  have "fold max xs z = Max (insert z (set xs))" for z :: int
    by (metis Max.set_eq_fold list.set(2))
  then have eq: "max_list xs = Max (insert 0 (set xs))" by (simp add: max_list_def)
  show "x \<in> set xs \<Longrightarrow> x \<le> max_list xs" "0 \<le> max_list xs" by (simp_all add: eq)
  show "max_list xs = 0 \<or> max_list xs \<in> set xs"
    using Max_in[of "insert 0 (set xs)"] by (auto simp: eq)
qed

lemma max_row_loop_eq:
  "max_row_loop seq pm mx = fold max (map v_rowSize (live seq pm)) mx"
  by (induction seq pm mx rule: max_row_loop.induct) (auto simp: live_def max_def)

lemma max_row_size_locked_eq:
  "max_row_size_locked b i seq = max_list (map v_rowSize (live seq (nb_table b ! i)))"
  by (simp add: max_row_size_locked_def max_row_loop_eq max_list_def)

definition counts_of :: "(int64 \<times> int) list \<Rightarrow> ppv list \<Rightarrow> bool" where
  "counts_of counts vs \<longleftrightarrow>
    (\<forall>s. (case map_of counts s of None \<Rightarrow> 0 | Some n \<Rightarrow> n) = round_count s vs)"

lemma max_col_loop_bounds:
  assumes "counts_of counts seen"
    and "\<forall>s. round_count s seen \<le> mx" "mx = 0 \<or> (\<exists>v \<in> set seen. round_count (v_seq v) seen = mx)"
    and "\<forall>v \<in> set seen. sint seq < sint (v_seq v)"
  shows "(\<forall>s. round_count s (seen @ live seq pm) \<le> max_col_loop seq pm counts mx) \<and>
    (max_col_loop seq pm counts mx = 0 \<or>
     (\<exists>v \<in> set (seen @ live seq pm). round_count (v_seq v) (seen @ live seq pm) = max_col_loop seq pm counts mx))"
  using assms
proof (induction seq pm counts mx arbitrary: seen rule: max_col_loop.induct)
  case (1 seq counts mx)
  then show ?case by (auto simp: live_def)
next
  case (2 seq col v vs counts mx)
  show ?case
  proof (cases "sint (v_seq v) \<le> sint seq")
    case True
    then have "live seq ((col, v) # vs) = live seq vs" by (simp add: live_def)
    with True 2 show ?thesis by simp
  next
    case False
    define n where "n = round_count (v_seq v) seen + 1"
    have n: "(case map_of counts (v_seq v) of None \<Rightarrow> 0 | Some n \<Rightarrow> n) + 1 = n"
      using "2.prems"(1) by (simp add: counts_of_def n_def)
    have rc: "round_count s (seen @ [v]) = (if s = v_seq v then n else round_count s seen)" for s
      by (simp add: round_count_def n_def)
    have live: "live seq ((col, v) # vs) = v # live seq vs" using False by (simp add: live_def)
    have counts: "counts_of (AList.update (v_seq v) n counts) (seen @ [v])"
      using "2.prems"(1) by (auto simp: counts_of_def update_conv' rc)
    have bound: "\<forall>s. round_count s (seen @ [v]) \<le> (if mx < n then n else mx)"
      using "2.prems"(2) by (auto simp: rc intro: order_trans)
    have attained: "(if mx < n then n else mx) = 0 \<or>
        (\<exists>w \<in> set (seen @ [v]). round_count (v_seq w) (seen @ [v]) = (if mx < n then n else mx))"
    proof (cases "mx < n")
      case True
      then show ?thesis by (auto simp: rc)
    next
      case False
      with "2.prems"(2,3) show ?thesis
        by (auto simp: rc n_def not_less) (metis add_le_same_cancel1 not_one_le_zero)
    qed
    have "\<forall>w \<in> set (seen @ [v]). sint seq < sint (v_seq w)"
      using "2.prems"(4) False by auto
    from "2.IH"(2)[OF False n[symmetric] counts bound attained this]
    show ?thesis using False n live by (simp add: Let_def)
  qed
qed

text \<open>\<^verbatim>\<open>MaxRowSize\<close> and \<^verbatim>\<open>MaxColSize\<close> return, for an index in range, the largest
  row count of the columns written after the threshold and the largest number of such columns that
  one round wrote: both are upper bounds and are attained or 0, whatever order the map is visited in.\<close>

theorem nb_max_sizes:
  assumes "i < length (nb_table b)"
  shows "\<exists>r c. nb_max_row_size b (int i) seq = Ok r \<and> nb_max_col_size b (int i) seq = Ok c \<and>
    (\<forall>v \<in> set (live seq (nb_table b ! i)). v_rowSize v \<le> r) \<and>
    (r = 0 \<or> r \<in> v_rowSize ` set (live seq (nb_table b ! i))) \<and>
    (\<forall>s. round_count s (live seq (nb_table b ! i)) \<le> c) \<and>
    (c = 0 \<or> (\<exists>v \<in> set (live seq (nb_table b ! i)). round_count (v_seq v) (live seq (nb_table b ! i)) = c))"
proof -
  let ?l = "live seq (nb_table b ! i)"
  have row: "nb_max_row_size b (int i) seq = Ok (max_list (map v_rowSize ?l))"
    and col: "nb_max_col_size b (int i) seq = Ok (max_col_loop seq (nb_table b ! i) [] 0)"
    using assms
    by (simp_all add: nb_max_row_size_def nb_max_col_size_def validate_index_def
        max_row_size_locked_eq max_col_size_locked_def)
  have "counts_of [] []" "\<forall>s. round_count s [] \<le> 0" by (simp_all add: counts_of_def round_count_def)
  from max_col_loop_bounds[OF this, of seq "nb_table b ! i"]
  have cb: "(\<forall>s. round_count s ?l \<le> max_col_loop seq (nb_table b ! i) [] 0) \<and>
      (max_col_loop seq (nb_table b ! i) [] 0 = 0 \<or>
       (\<exists>v \<in> set ?l. round_count (v_seq v) ?l = max_col_loop seq (nb_table b ! i) [] 0))"
    by simp
  have "\<forall>v \<in> set ?l. v_rowSize v \<le> max_list (map v_rowSize ?l)"
    by (simp add: max_list_ge)
  moreover have "max_list (map v_rowSize ?l) = 0 \<or> max_list (map v_rowSize ?l) \<in> v_rowSize ` set ?l"
    using max_list_in[of "map v_rowSize ?l"] by simp
  ultimately show ?thesis using row col cb by blast
qed

theorem nb_max_sizes_witness:
  "\<exists>r. nb_max_row_size (new_plan_param_buffer_v1 1 0 0 0) 0 3 = Ok r"
  using nb_max_sizes[of 0 "new_plan_param_buffer_v1 1 0 0 0" 3]
  by (auto simp: new_plan_param_buffer_v1_def)

end
