(* ===== verification/Errlist.thy ===== *)
theory Errlist
  imports Gostd
begin

text \<open>
  \<^verbatim>\<open>errlist/err.go\<close>, \<^verbatim>\<open>errlist/match.go\<close>, \<^verbatim>\<open>errlist/prefix/prefix.go\<close>:
  chains of wrapped errors.  The other theories use the abstract errors of
  \<open>Prelude\<close>; the refinement at the end shows what of a chain they keep.
\<close>

section \<open>Errors as linked wraps\<close>

text \<open>
  A Go error is a plain one (its text), a foreign one that wraps another (\<^verbatim>\<open>%w\<close>), or a
  pointer to a \<^verbatim>\<open>wrapError\<close>.  Links are immutable once made, so the pointers are values.
\<close>

datatype err =
    Plain string
  | Wrapping string err
  | Link wrap_error
and wrap_error = WrapError
    (we_first: "wrap_error option") (we_next: "wrap_error option") (we_funcName: string)
    (we_fileAndLine: string) (we_typeName: string) (we_message: string) (we_realErr: "err option")

text \<open>\<^verbatim>\<open>errors.As(err, &wrap)\<close>\<close>

fun as_wrap :: "err \<Rightarrow> wrap_error option" where
  "as_wrap (Plain t) = None"
| "as_wrap (Wrapping t e) = as_wrap e"
| "as_wrap (Link w) = Some w"

definition new_wrap_error :: "err option \<Rightarrow> string \<Rightarrow> string \<Rightarrow> string \<Rightarrow> string \<Rightarrow> wrap_error" where
  "new_wrap_error e funcName fileAndLine typeName message =
    (case Option.bind e as_wrap of
      Some wrap \<Rightarrow>
        WrapError (case we_first wrap of None \<Rightarrow> None | Some f \<Rightarrow> Some f) (Some wrap)
          funcName fileAndLine typeName message None
    | None \<Rightarrow> WrapError None None funcName fileAndLine typeName message e)"

definition link_text :: "string \<Rightarrow> wrap_error \<Rightarrow> string \<Rightarrow> string" where
  "link_text idx w real = ''(idx:'' @ idx @ '',type:'' @ we_typeName w @ ''), (msg:'' @ we_message w @
     '',real:'' @ real @ '') [fn:'' @ we_funcName w @ '',file:'' @ we_fileAndLine w @ '']''"

text \<open>\<^verbatim>\<open>Error()\<close>: one line per link, newest first, each with the text of the error it holds
  itself (only the last link of a chain holds one).\<close>

fun error_text :: "err \<Rightarrow> string" and
  error_lines :: "nat \<Rightarrow> wrap_error \<Rightarrow> string list" where
  "error_text (Plain t) = t"
| "error_text (Wrapping t e) = t @ error_text e"
| "error_text (Link w) = concat (error_lines 0 w)"
| "error_lines idx (WrapError fi nx fn file ty msg real) =
    ((if idx = 0 then '''' else [CHR 0x09, CHR 0x0A]) @
      link_text (itoa (int idx)) (WrapError fi nx fn file ty msg real)
        (case real of None \<Rightarrow> ''<empty>'' | Some e \<Rightarrow> error_text e)) #
    (case nx of None \<Rightarrow> [] | Some w \<Rightarrow> error_lines (Suc idx) w)"

section \<open>Where an error was made\<close>

definition error_type_map :: "(string \<times> string) list" where
  "error_type_map =
    [(''cfg'', ''Config''), (''pool'', ''Connection''), (''cmd'', ''App''), (''vm'', ''Interpreter''),
     (''utils'', ''PackageUtils''), (''extension'', ''PackageExtensionUtils''), (''tests'', ''Tests''),
     (''__unknown__'', ''Unknown'')]"

text \<open>\<^verbatim>\<open>init\<close>: the project root is the path of \<^verbatim>\<open>match.go\<close> without its last part.\<close>

definition project_root :: "string \<Rightarrow> string" where
  "project_root file = replace_first file ''/errlist/match.go'' ''''"

text \<open>\<^verbatim>\<open>getPackagePath\<close>, given what \<^verbatim>\<open>runtime.Caller\<close> returned, on a system whose path
  separator is a slash.\<close>

definition get_package_path :: "string \<Rightarrow> string \<Rightarrow> int \<Rightarrow> (string \<times> string) go" where
  "get_package_path root file line =
    (if length file < length root then Panic PIndex
     else let ptr = drop (length root) file; sp = split_n (CHR ''/'') 3 ptr in
       Ok (ptr @ '':'' @ itoa line, if length sp < 2 then ''__unknown__'' else sp ! 1))"

definition new_error ::
    "string \<Rightarrow> string \<times> string \<times> int \<Rightarrow> err option \<Rightarrow> string \<Rightarrow> err go" where
  "new_error root caller e message =
    (case caller of (fn, file, line) \<Rightarrow>
      bind_go (get_package_path root file line) (\<lambda>(fileLine, packageName).
        let typeName = (case map_of error_type_map packageName of None \<Rightarrow> ''Unknown'' | Some t \<Rightarrow> t) in
        Ok (Link (new_wrap_error e fn fileLine typeName message))))"

section \<open>Chains\<close>

fun links :: "wrap_error \<Rightarrow> wrap_error list" where
  "links (WrapError fi nx fn file ty msg real) =
    WrapError fi nx fn file ty msg real # (case nx of None \<Rightarrow> [] | Some w \<Rightarrow> links w)"

text \<open>The errors a program can build: plain ones, foreign wraps, and calls of
  \<^verbatim>\<open>NewError\<close> on any of them or on nil.\<close>

inductive made :: "err \<Rightarrow> bool" where
  plain: "made (Plain t)"
| wrapping: "made e \<Longrightarrow> made (Wrapping t e)"
| nil: "made (Link (new_wrap_error None fn file ty msg))"
| new: "made e \<Longrightarrow> made (Link (new_wrap_error (Some e) fn file ty msg))"

inductive_cases made_LinkE: "made (Link w)"

lemma links_new_wrap_error:
  "links (new_wrap_error e fn file ty msg) =
    new_wrap_error e fn file ty msg #
      (case Option.bind e as_wrap of None \<Rightarrow> [] | Some w \<Rightarrow> links w)"
  by (simp add: new_wrap_error_def split: option.splits)

lemma new_wrap_error_sel [simp]:
  "we_message (new_wrap_error e fn file ty msg) = msg"
  "we_funcName (new_wrap_error e fn file ty msg) = fn"
  "we_fileAndLine (new_wrap_error e fn file ty msg) = file"
  "we_typeName (new_wrap_error e fn file ty msg) = ty"
  "we_next (new_wrap_error e fn file ty msg) = Option.bind e as_wrap"
  "we_realErr (new_wrap_error e fn file ty msg) = (if Option.bind e as_wrap = None then e else None)"
  by (simp_all add: new_wrap_error_def split: option.splits)

definition chain_ok :: "wrap_error \<Rightarrow> bool" where
  "chain_ok w \<longleftrightarrow> (\<forall>l \<in> set (links w). we_first l = None) \<and>
    (\<forall>l \<in> set (butlast (links w)). we_realErr l = None) \<and>
    (\<forall>e. we_realErr (last (links w)) = Some e \<longrightarrow> as_wrap e = None)"

lemma links_nonempty [simp]: "links w \<noteq> []"
  by (cases w) simp

lemma hd_links: "hd (links w) = w"
  by (cases w) simp

lemma chain_ok_new:
  assumes "\<And>w. Option.bind e as_wrap = Some w \<Longrightarrow> chain_ok w"
  shows "chain_ok (new_wrap_error e fn file ty msg)"
proof (cases "Option.bind e as_wrap")
  case None
  then show ?thesis
    by (auto simp: chain_ok_def links_new_wrap_error) (simp_all add: new_wrap_error_def)
next
  case (Some w)
  have "we_first w = None"
    using assms[OF Some] hd_links[of w] by (metis chain_ok_def hd_in_set links_nonempty)
  with Some assms[OF Some] show ?thesis
    by (auto simp: chain_ok_def links_new_wrap_error) (simp add: new_wrap_error_def)
qed

lemma made_chain_ok: "made e \<Longrightarrow> as_wrap e = Some w \<Longrightarrow> chain_ok w"
proof (induction e arbitrary: w rule: made.induct)
  case (nil fn fl ty msg)
  then show ?case using chain_ok_new[of None] by auto
next
  case (new e fn fl ty msg)
  then show ?case using chain_ok_new[of "Some e"] by auto
qed auto

text \<open>C29: In every error the program can build, no link has its \<^verbatim>\<open>first\<close> pointer set,
  only the oldest link holds a real error, and that error hides no further link; the printed
  text has one line per link, newest first.\<close>

theorem made_error_chain:
  assumes "made (Link w)"
  shows "(\<forall>l \<in> set (links w). we_first l = None) \<and>
    (\<forall>l \<in> set (butlast (links w)). we_realErr l = None) \<and>
    (\<forall>e. we_realErr (last (links w)) = Some e \<longrightarrow> as_wrap e = None) \<and>
    length (error_lines 0 w) = length (links w)"
proof -
  have "length (error_lines n w) = length (links w)" for n
    by (induction w arbitrary: n rule: links.induct) (auto split: option.splits)
  then show ?thesis
    using made_chain_ok[OF assms, of w] by (simp add: chain_ok_def)
qed

lemma made_error_chain_witness:
  "length (error_lines 0 (new_wrap_error (Some (Link (new_wrap_error (Some (Plain ''EOF'')) ''f'' ''/a:1'' ''App'' ''m''))) ''g'' ''/b:2'' ''App'' ''n'')) = 2"
proof -
  let ?w = "new_wrap_error (Some (Plain ''EOF'')) ''f'' ''/a:1'' ''App'' ''m''"
  have "made (Link (new_wrap_error (Some (Link ?w)) ''g'' ''/b:2'' ''App'' ''n''))"
    by (intro made.intros)
  from made_error_chain[OF this] show ?thesis by (simp add: links_new_wrap_error)
qed

section \<open>Refinement of the abstract errors\<close>

fun abs_err :: "err \<Rightarrow> gerror" and abs_link :: "wrap_error \<Rightarrow> gerror" where
  "abs_err (Plain t) = ESys t"
| "abs_err (Wrapping t e) = ESys (error_text (Wrapping t e))"
| "abs_err (Link w) = abs_link w"
| "abs_link (WrapError fi nx fn file ty msg real) =
    EWrap (case nx of
        Some w \<Rightarrow> Some (abs_link w)
      | None \<Rightarrow> (case real of None \<Rightarrow> None | Some e \<Rightarrow> Some (abs_err e))) msg"

lemma abs_link_new:
  "abs_link (new_wrap_error e fn file ty msg) =
    EWrap (case Option.bind e as_wrap of Some w \<Rightarrow> Some (abs_link w) | None \<Rightarrow> map_option abs_err e) msg"
  by (cases e) (auto simp: new_wrap_error_def split: option.splits)

text \<open>\<^verbatim>\<open>NewError\<close> implements the abstract wrap: the abstraction of the new error is
  \<open>EWrap\<close> around the abstraction of the wrapped one.  The exception is a foreign error that
  itself wraps a link: the new error points at the inner link and the foreign error's own text
  is dropped.\<close>

theorem new_error_refines_wrap:
  assumes "new_error root caller e msg = Ok e'"
  shows "abs_err e' = EWrap
    (case e of
      None \<Rightarrow> None
    | Some x \<Rightarrow> Some (case as_wrap x of None \<Rightarrow> abs_err x | Some w \<Rightarrow> abs_err (Link w))) msg"
  using assms
  by (auto simp: new_error_def abs_link_new bind_go_Ok_iff Let_def split: prod.splits option.splits)

text \<open>An error made in a file of the project is labelled by the first directory of its path:
  \<^verbatim>\<open>cmd\<close> gives App, but \<^verbatim>\<open>connpool\<close>, which the table still lists as
  \<^verbatim>\<open>pool\<close>, gives Unknown.\<close>

theorem new_error_type_name:
  assumes "file = root @ ''/'' @ pkg @ ''/'' @ rest" "CHR ''/'' \<notin> set pkg"
  shows "\<exists>w. new_error root (fn, file, line) e msg = Ok (Link w) \<and>
    we_typeName w = (case map_of error_type_map pkg of None \<Rightarrow> ''Unknown'' | Some t \<Rightarrow> t) \<and>
    we_fileAndLine w = ''/'' @ pkg @ ''/'' @ rest @ '':'' @ itoa line \<and>
    (pkg = ''connpool'' \<longrightarrow> we_typeName w = ''Unknown'') \<and> (pkg = ''cmd'' \<longrightarrow> we_typeName w = ''App'')"
proof -
  have "takeWhile (\<lambda>c. c \<noteq> CHR ''/'') (pkg @ ''/'' @ rest) = pkg"
    using assms(2) by (simp add: takeWhile_tail takeWhile_append)
  then have "split_n (CHR ''/'') 3 (''/'' @ pkg @ ''/'' @ rest) = [[], pkg, rest]"
    by (simp add: numeral_3_eq_3 Let_def)
  then have "get_package_path root file line = Ok (''/'' @ pkg @ ''/'' @ rest @ '':'' @ itoa line, pkg)"
    using assms(1) by (simp add: get_package_path_def Let_def)
  then show ?thesis
    by (auto simp: new_error_def error_type_map_def Let_def)
qed

lemma new_error_type_name_witness:
  "\<exists>w. new_error ''/src'' (''f'', ''/src/connpool/factory.go'', 44) (Some (Plain ''x'')) ''m'' = Ok (Link w) \<and>
    we_typeName w = ''Unknown'' \<and> we_fileAndLine w = ''/connpool/factory.go:44''"
proof -
  have "itoa 44 = ''44''" by code_simp
  then show ?thesis
    using new_error_type_name[of "''/src/connpool/factory.go''" "''/src''" "''connpool''" "''factory.go''" "''f''" 44 "Some (Plain ''x'')" "''m''"]
    by auto
qed

lemma new_error_refines_wrap_witness:
  "\<exists>e'. new_error ''/src'' (''f'', ''/src/cmd/main.go'', 1) (Some (Plain ''x'')) ''m'' = Ok e' \<and>
    abs_err e' = EWrap (Some (ESys ''x'')) ''m''"
proof -
  obtain e' where e': "new_error ''/src'' (''f'', ''/src/cmd/main.go'', 1) (Some (Plain ''x'')) ''m'' = Ok e'"
    by (simp add: new_error_def get_package_path_def Let_def split: option.splits)
  from new_error_refines_wrap[OF this] e' show ?thesis by simp
qed

end
