(* ===== verification/Shutils.thy ===== *)
theory Shutils
  imports Cfg
begin

text \<open>
  \<^verbatim>\<open>connpool/internal/utils/sh_conn.go\<close> and \<^verbatim>\<open>common.go\<close>: cutting the output of
  a shell connection into rows and cells, writing the parameters of a command, splitting a
  command line at unquoted blanks.

  The three scanning loops advance by the separator's length, so with an empty separator they
  may stay where they are; they are partial functions, with \<open>None\<close> when the loop does not
  end.
\<close>

section \<open>Cutting a line\<close>

definition quote_char :: char where
  "quote_char = CHR 0x22"

partial_function (option) split_line_loop ::
    "string \<Rightarrow> string \<Rightarrow> bool \<Rightarrow> string \<Rightarrow> string list \<Rightarrow> string list option" where
  "split_line_loop sep line inQuote field result =
    (case line of
      [] \<Rightarrow> Some (result @ [field])
    | c # cs \<Rightarrow>
        if c = quote_char then split_line_loop sep cs (\<not> inQuote) field result
        else if \<not> inQuote \<and> has_prefix line sep
        then split_line_loop sep (drop (length sep) line) inQuote [] (result @ [field])
        else split_line_loop sep cs inQuote (field @ [c]) result)"

definition split_line :: "string \<Rightarrow> string \<Rightarrow> string list option" where
  "split_line line sep = split_line_loop sep line False [] []"

partial_function (option) split_keep_loop ::
    "string \<Rightarrow> string \<Rightarrow> bool \<Rightarrow> string \<Rightarrow> string list \<Rightarrow> string list option" where
  "split_keep_loop sep line inQuote field result =
    (case line of
      [] \<Rightarrow> Some (result @ [field])
    | c # cs \<Rightarrow>
        if c = quote_char then split_keep_loop sep cs (\<not> inQuote) (field @ [c]) result
        else if \<not> inQuote \<and> has_prefix line sep
        then split_keep_loop sep (drop (length sep) line) inQuote [] (result @ [field])
        else split_keep_loop sep cs inQuote (field @ [c]) result)"

definition split_line_keep_quote :: "string \<Rightarrow> string \<Rightarrow> string list option" where
  "split_line_keep_quote line sep = split_keep_loop sep line False [] []"

partial_function (option) count_loop :: "string \<Rightarrow> string \<Rightarrow> bool \<Rightarrow> int \<Rightarrow> int option" where
  "count_loop sep line inQuote count =
    (case line of
      [] \<Rightarrow> Some count
    | c # cs \<Rightarrow>
        if c = quote_char then count_loop sep cs (\<not> inQuote) count
        else if \<not> inQuote \<and> has_prefix line sep
        then count_loop sep (drop (length sep) line) inQuote (count + 1)
        else count_loop sep cs inQuote count)"

definition count_fields :: "string \<Rightarrow> string \<Rightarrow> int option" where
  "count_fields line sep = count_loop sep line False 1"

declare split_line_loop.simps [code] split_keep_loop.simps [code] count_loop.simps [code]

text \<open>With a separator every turn of a loop shortens the rest of the line.\<close>

lemma scan_induct [case_names Nil quote sep other]:
  assumes "sep \<noteq> []"
    and "\<And>q. P [] q"
    and "\<And>c cs q. c = quote_char \<Longrightarrow> P cs (\<not> q) \<Longrightarrow> P (c # cs) q"
    and "\<And>c cs q. c \<noteq> quote_char \<Longrightarrow> \<not> q \<Longrightarrow> has_prefix (c # cs) sep \<Longrightarrow>
      P (drop (length sep) (c # cs)) q \<Longrightarrow> P (c # cs) q"
    and "\<And>c cs q. c \<noteq> quote_char \<Longrightarrow> q \<or> \<not> has_prefix (c # cs) sep \<Longrightarrow> P cs q \<Longrightarrow> P (c # cs) q"
  shows "P line q"
proof (induction line arbitrary: q rule: measure_induct_rule[of length])
  case (less line)
  show ?case
  proof (cases line)
    case Nil
    then show ?thesis using assms(2) by simp
  next
    case (Cons c cs)
    have "length (drop (length sep) line) < length line" using assms(1) Cons by (cases sep) auto
    then have IH: "P cs (\<not> q)" "P cs q" "P (drop (length sep) (c # cs)) q"
      using less.IH Cons by auto
    show ?thesis
      using assms(3)[OF _ IH(1)] assms(4)[OF _ _ _ IH(3)] assms(5)[OF _ _ IH(2)] Cons by blast
  qed
qed

text \<open>One turn of each loop.\<close>

lemma loops_nil:
  "split_line_loop sep [] q f r = Some (r @ [f])" "split_keep_loop sep [] q f r = Some (r @ [f])"
  "count_loop sep [] q n = Some n"
  by (simp_all add: split_line_loop.simps[of _ "[]"] split_keep_loop.simps[of _ "[]"] count_loop.simps[of _ "[]"])

lemmas loop_unfold = split_line_loop.simps[of sep "c # cs" for sep c cs]
  split_keep_loop.simps[of sep "c # cs" for sep c cs] count_loop.simps[of sep "c # cs" for sep c cs]

lemma loops_quote:
  "c = quote_char \<Longrightarrow> split_line_loop sep (c # cs) q f r = split_line_loop sep cs (\<not> q) f r"
  "c = quote_char \<Longrightarrow> split_keep_loop sep (c # cs) q f r = split_keep_loop sep cs (\<not> q) (f @ [c]) r"
  "c = quote_char \<Longrightarrow> count_loop sep (c # cs) q n = count_loop sep cs (\<not> q) n"
  by (simp_all add: loop_unfold)

lemma loops_sep:
  assumes "c \<noteq> quote_char" "\<not> q" "has_prefix (c # cs) sep"
  shows "split_line_loop sep (c # cs) q f r = split_line_loop sep (drop (length sep) (c # cs)) q [] (r @ [f])"
    "split_keep_loop sep (c # cs) q f r = split_keep_loop sep (drop (length sep) (c # cs)) q [] (r @ [f])"
    "count_loop sep (c # cs) q n = count_loop sep (drop (length sep) (c # cs)) q (n + 1)"
  using assms by (simp_all add: loop_unfold)

lemma loops_other:
  assumes "c \<noteq> quote_char" "q \<or> \<not> has_prefix (c # cs) sep"
  shows "split_line_loop sep (c # cs) q f r = split_line_loop sep cs q (f @ [c]) r"
    "split_keep_loop sep (c # cs) q f r = split_keep_loop sep cs q (f @ [c]) r"
    "count_loop sep (c # cs) q n = count_loop sep cs q n"
  using assms by (auto simp: loop_unfold)

text \<open>The three loops walk alike: the one that keeps the quotes cuts the line without losing a
  byte, \<^verbatim>\<open>splitLine\<close> yields the same fields without the quotes, \<^verbatim>\<open>countFields\<close>
  yields their number.\<close>

definition cut_into :: "string \<Rightarrow> string \<Rightarrow> bool \<Rightarrow> string \<Rightarrow> string list \<Rightarrow> bool" where
  "cut_into sep line q f fs \<longleftrightarrow> fs \<noteq> [] \<and>
    f @ line = concat (map (\<lambda>x. x @ sep) (butlast fs)) @ last fs \<and>
    (\<forall>r. split_keep_loop sep line q f r = Some (r @ fs)) \<and>
    (\<forall>r. split_line_loop sep line q (filter (\<lambda>c. c \<noteq> quote_char) f) r =
      Some (r @ map (filter (\<lambda>c. c \<noteq> quote_char)) fs)) \<and>
    (\<forall>n. count_loop sep line q n = Some (n + int (length fs) - 1))"

lemma loops_cut:
  assumes "sep \<noteq> []"
  shows "\<exists>fs. cut_into sep line q f fs"
proof (induction line q arbitrary: f rule: scan_induct[OF assms])
  case (1 q)
  show ?case by (intro exI[of _ "[f]"]) (simp add: cut_into_def loops_nil)
next
  case (2 c cs q)
  obtain fs where "cut_into sep cs (\<not> q) (f @ [c]) fs" using 2(2) by blast
  then have "cut_into sep (c # cs) q f fs"
    unfolding cut_into_def loops_quote[OF 2(1)] using 2(1) by simp
  then show ?case ..
next
  case (3 c cs q)
  obtain fs where fs: "cut_into sep (drop (length sep) (c # cs)) q [] fs" using 3(4) by blast
  have "c # cs = sep @ drop (length sep) (c # cs)" using 3(3) by (rule has_prefixD)
  moreover have "drop (length sep) (c # cs) = concat (map (\<lambda>x. x @ sep) (butlast fs)) @ last fs"
    using fs by (simp add: cut_into_def)
  ultimately have "f @ c # cs = concat (map (\<lambda>x. x @ sep) (butlast (f # fs))) @ last (f # fs)"
    using fs by (simp add: cut_into_def)
  then have "cut_into sep (c # cs) q f (f # fs)"
    using fs unfolding cut_into_def loops_sep[OF 3(1-3)] by simp
  then show ?case ..
next
  case (4 c cs q)
  obtain fs where "cut_into sep cs q (f @ [c]) fs" using 4(3) by blast
  then have "cut_into sep (c # cs) q f fs"
    unfolding cut_into_def loops_other[OF 4(1,2)] using 4(1) by simp
  then show ?case ..
qed

text \<open>C17: With a non-empty separator the three scanners return and agree: the fields with their
  quotes, joined by the separator, are the line; \<^verbatim>\<open>splitLine\<close> gives the same fields with
  the quotes taken out; \<^verbatim>\<open>countFields\<close> gives their number, which is at least 1.\<close>

theorem split_functions_agree:
  assumes "sep \<noteq> []"
  shows "\<exists>fs. split_line_keep_quote line sep = Some fs \<and>
    concat (map (\<lambda>x. x @ sep) (butlast fs)) @ last fs = line \<and>
    split_line line sep = Some (map (filter (\<lambda>c. c \<noteq> quote_char)) fs) \<and>
    count_fields line sep = Some (int (length fs)) \<and> fs \<noteq> []"
proof -
  obtain fs where "cut_into sep line False [] fs" using loops_cut[OF assms] by blast
  then show ?thesis
    by (intro exI[of _ fs]) (auto simp: cut_into_def split_line_keep_quote_def split_line_def count_fields_def)
qed

lemma split_functions_agree_witness:
  "\<exists>fs. split_line_keep_quote ''a,'' '','' = Some fs \<and> concat (map (\<lambda>x. x @ '','') (butlast fs)) @ last fs = ''a,'' \<and>
    count_fields ''a,'' '','' = Some (int (length fs))"
  using split_functions_agree[of "'',''" "''a,''"] by auto

lemma split_keep_no_sep_stuck:
  assumes "split_keep_loop sep line q f r = Some y"
  shows "\<not> (sep = [] \<and> \<not> q \<and> line \<noteq> [] \<and> hd line \<noteq> quote_char)"
proof (rule split_keep_loop.raw_induct[OF _ assms, where P = "\<lambda>sep line q f r y. \<not> (sep = [] \<and> \<not> q \<and> line \<noteq> [] \<and> hd line \<noteq> quote_char)"], goal_cases)
  case (1 loop sep line q f r y)
  then show ?case by (fastforce split: list.splits if_splits)
qed

lemma split_no_sep_stuck:
  assumes "split_line_loop sep line q f r = Some y"
  shows "\<not> (sep = [] \<and> \<not> q \<and> line \<noteq> [] \<and> hd line \<noteq> quote_char)"
proof (rule split_line_loop.raw_induct[OF _ assms, where P = "\<lambda>sep line q f r y. \<not> (sep = [] \<and> \<not> q \<and> line \<noteq> [] \<and> hd line \<noteq> quote_char)"], goal_cases)
  case (1 loop sep line q f r y)
  then show ?case by (fastforce split: list.splits if_splits)
qed

lemma count_no_sep_stuck:
  assumes "count_loop sep line q n = Some y"
  shows "\<not> (sep = [] \<and> \<not> q \<and> line \<noteq> [] \<and> hd line \<noteq> quote_char)"
proof (rule count_loop.raw_induct[OF _ assms, where P = "\<lambda>sep line q n y. \<not> (sep = [] \<and> \<not> q \<and> line \<noteq> [] \<and> hd line \<noteq> quote_char)"], goal_cases)
  case (1 loop sep line q n y)
  then show ?case by (fastforce split: list.splits if_splits)
qed

text \<open>With an empty separator none of the scanners returns on a non-empty line that does not
  start with a quote.\<close>

theorem split_empty_separator_diverges:
  assumes "c \<noteq> quote_char"
  shows "split_line (c # cs) '''' = None \<and> split_line_keep_quote (c # cs) '''' = None \<and>
    count_fields (c # cs) '''' = None"
  using split_no_sep_stuck[of "[]" "c # cs" False] split_keep_no_sep_stuck[of "[]" "c # cs" False]
    count_no_sep_stuck[of "[]" "c # cs" False] assms
  by (fastforce simp: split_line_def split_line_keep_quote_def count_fields_def)

lemma split_empty_separator_diverges_witness: "split_line_keep_quote ''ab'' '''' = None"
  using split_empty_separator_diverges[of "CHR ''a''" "''b''"] by (simp add: quote_char_def)

section \<open>Parsing a response\<close>

text \<open>\<^verbatim>\<open>for dIdx, data := range fields { res[idx][dIdx] = data }\<close>\<close>

fun fill_row :: "goval list \<Rightarrow> nat \<Rightarrow> string list \<Rightarrow> goval list go" where
  "fill_row row i [] = Ok row"
| "fill_row row i (d # ds) = bind_go (go_store row (int i) (GString d)) (\<lambda>row. fill_row row (Suc i) ds)"

definition opt_bind_go :: "'a go option \<Rightarrow> ('a \<Rightarrow> 'b go option) \<Rightarrow> 'b go option" where
  "opt_bind_go m f =
    (case m of None \<Rightarrow> None | Some (Ok a) \<Rightarrow> f a | Some (Err e) \<Rightarrow> Some (Err e) | Some (Panic p) \<Rightarrow> Some (Panic p))"

fun max_fields :: "string list \<Rightarrow> string \<Rightarrow> int \<Rightarrow> int option" where
  "max_fields [] sep m = Some m"
| "max_fields (line # lines) sep m =
    Option.bind (count_fields line sep) (\<lambda>cnt. max_fields lines sep (if m < cnt then cnt else m))"

fun cut_rows :: "string list \<Rightarrow> string \<Rightarrow> int \<Rightarrow> rows go option" where
  "cut_rows [] sep n = Some (Ok [])"
| "cut_rows (line # lines) sep n =
    Option.bind (split_line line sep) (\<lambda>fs.
      opt_bind_go (Some (fill_row (replicate (nat n) GNil) 0 fs)) (\<lambda>row.
        opt_bind_go (cut_rows lines sep n) (\<lambda>rest. Some (Ok (row # rest)))))"

definition parse_response :: "string \<Rightarrow> string \<Rightarrow> string \<Rightarrow> (rows \<times> string list) go option" where
  "parse_response data newlineChar splitChar =
    Option.bind (split_line_keep_quote data newlineChar) (\<lambda>lines.
      opt_bind_go
        (if splitChar \<noteq> [] then
          Option.bind (max_fields lines splitChar 0) (\<lambda>m.
            let dataMax = (if m \<le> 0 then 1 else m) in cut_rows lines splitChar dataMax)
         else Some (Ok (map (\<lambda>line. [GString line]) lines)))
        (\<lambda>res. Some (Ok (res, map (\<lambda>idx. itoa (int idx + 1)) [0..<length res]))))"

section \<open>Splitting a command line\<close>

definition flush :: "string \<Rightarrow> string list \<Rightarrow> string list" where
  "flush current result = (if length current > 0 then result @ [current] else result)"

fun split_quotes_loop :: "string \<Rightarrow> bool \<Rightarrow> bool \<Rightarrow> string \<Rightarrow> string list \<Rightarrow> string list" where
  "split_quotes_loop [] inDouble inSingle current result = flush current result"
| "split_quotes_loop (r # rs) inDouble inSingle current result =
    (if r = CHR 0x22 \<and> \<not> inSingle then split_quotes_loop rs (\<not> inDouble) inSingle current result
     else if r = CHR 0x27 \<and> \<not> inDouble then split_quotes_loop rs inDouble (\<not> inSingle) current result
     else if r = CHR '' '' \<and> \<not> inDouble \<and> \<not> inSingle
     then split_quotes_loop rs inDouble inSingle [] (flush current result)
     else split_quotes_loop rs inDouble inSingle (current @ [r]) result)"

definition split_respect_quotes_str :: "string \<Rightarrow> string list" where
  "split_respect_quotes_str s = split_quotes_loop s False False [] []"

fun split_quotes_any_loop :: "string \<Rightarrow> bool \<Rightarrow> bool \<Rightarrow> string \<Rightarrow> goval list \<Rightarrow> goval list" where
  "split_quotes_any_loop [] inDouble inSingle current result =
    (if length current > 0 then result @ [GString current] else result)"
| "split_quotes_any_loop (r # rs) inDouble inSingle current result =
    (if r = CHR 0x22 \<and> \<not> inSingle then split_quotes_any_loop rs (\<not> inDouble) inSingle current result
     else if r = CHR 0x27 \<and> \<not> inDouble then split_quotes_any_loop rs inDouble (\<not> inSingle) current result
     else if r = CHR '' '' \<and> \<not> inDouble \<and> \<not> inSingle
     then split_quotes_any_loop rs inDouble inSingle []
       (if length current > 0 then result @ [GString current] else result)
     else split_quotes_any_loop rs inDouble inSingle (current @ [r]) result)"

definition split_respect_quotes_any :: "string \<Rightarrow> goval list" where
  "split_respect_quotes_any s = split_quotes_any_loop s False False [] []"

lemma fill_row_ok:
  "i + length ds \<le> length row \<Longrightarrow>
    fill_row row i ds = Ok (take i row @ map GString ds @ drop (i + length ds) row)"
proof (induction row i ds rule: fill_row.induct)
  case (1 row i)
  then show ?case by simp
next
  case (2 row i d ds)
  have "go_store row (int i) (GString d) = Ok (row[i := GString d])"
    using 2(2) by simp
  moreover have "fill_row (row[i := GString d]) (Suc i) ds =
      Ok (take (Suc i) (row[i := GString d]) @ map GString ds @ drop (Suc i + length ds) (row[i := GString d]))"
    using 2 calculation by simp
  moreover have "take (Suc i) (row[i := GString d]) = take i row @ [GString d]"
    using 2(2) by (simp add: take_Suc_conv_app_nth)
  ultimately show ?case by simp
qed

lemma fields_exist:
  assumes "sep \<noteq> []"
  obtains fs where "split_line line sep = Some fs" "count_fields line sep = Some (int (length fs))" "fs \<noteq> []"
proof -
  obtain ks where "cut_into sep line False [] ks" using loops_cut[OF assms] by blast
  then show ?thesis
    by (intro that[of "map (filter (\<lambda>c. c \<noteq> quote_char)) ks"])
      (auto simp: cut_into_def split_line_def count_fields_def)
qed

lemma max_fields_ok:
  assumes "sep \<noteq> []"
  shows "\<exists>M. max_fields lines sep m = Some M \<and> m \<le> M \<and>
    (\<forall>line \<in> set lines. int (length (the (split_line line sep))) \<le> M)"
proof (induction lines arbitrary: m)
  case Nil
  then show ?case by simp
next
  case (Cons line lines)
  obtain fs where fs: "split_line line sep = Some fs" "count_fields line sep = Some (int (length fs))"
    using fields_exist[OF assms] by metis
  obtain M where "max_fields lines sep (if m < int (length fs) then int (length fs) else m) = Some M"
      "(if m < int (length fs) then int (length fs) else m) \<le> M"
      "\<forall>line \<in> set lines. int (length (the (split_line line sep))) \<le> M"
    using Cons.IH by meson
  with fs show ?case by (auto split: if_splits)
qed

definition padded_row :: "nat \<Rightarrow> string list \<Rightarrow> goval list" where
  "padded_row n fs = map GString fs @ replicate (n - length fs) GNil"

lemma cut_rows_ok:
  assumes "sep \<noteq> []" "\<forall>line \<in> set lines. length (the (split_line line sep)) \<le> n"
  shows "cut_rows lines sep (int n) = Some (Ok (map (\<lambda>line. padded_row n (the (split_line line sep))) lines))"
  using assms(2)
proof (induction lines)
  case Nil
  then show ?case by simp
next
  case (Cons line lines)
  obtain fs where fs: "split_line line sep = Some fs" using fields_exist[OF assms(1)] by metis
  have "fill_row (replicate n GNil) 0 fs = Ok (padded_row n fs)"
    using Cons.prems fs fill_row_ok[of 0 fs "replicate n GNil"] by (simp add: padded_row_def)
  with Cons fs show ?case by (simp add: opt_bind_go_def)
qed

text \<open>With a row separator \<^verbatim>\<open>ParseResponse\<close> returns and never panics.  It gives one
  row per separated line: the whole line when there is no cell separator, otherwise the line's
  cells filled up with nil to a width common to all rows.  The names are the numbers 1, 2, ...
  of the rows, not of the columns.\<close>

theorem parse_response_shape:
  assumes "newlineChar \<noteq> []"
  shows "\<exists>lines res. split_line_keep_quote data newlineChar = Some lines \<and>
    parse_response data newlineChar splitChar = Some (Ok (res, map (\<lambda>i. itoa (int i + 1)) [0..<length lines])) \<and>
    (if splitChar = [] then res = map (\<lambda>line. [GString line]) lines
     else \<exists>n \<ge> 1. (\<forall>line \<in> set lines. length (the (split_line line splitChar)) \<le> n) \<and>
       res = map (\<lambda>line. padded_row n (the (split_line line splitChar))) lines)"
proof -
  obtain lines where l: "split_line_keep_quote data newlineChar = Some lines"
    using loops_cut[OF assms, of data False "[]"] by (auto simp: cut_into_def split_line_keep_quote_def)
  show ?thesis
  proof (cases "splitChar = []")
    case True
    with l show ?thesis by (simp add: parse_response_def opt_bind_go_def)
  next
    case False
    obtain M where M: "max_fields lines splitChar 0 = Some M" "0 \<le> M"
        "\<forall>line \<in> set lines. int (length (the (split_line line splitChar))) \<le> M"
      using max_fields_ok[OF False, of lines 0] by blast
    define n where "n = nat (if M \<le> 0 then 1 else M)"
    have n: "1 \<le> n" "\<forall>line \<in> set lines. length (the (split_line line splitChar)) \<le> n"
      "(if M \<le> 0 then 1 else M) = int n"
      using M(2,3) by (auto simp: n_def)
    show ?thesis
      using l False M(1) n cut_rows_ok[OF False n(2)]
      by (intro exI[of _ lines]) (auto simp: parse_response_def opt_bind_go_def Let_def)
  qed
qed

lemma parse_response_shape_witness:
  "\<exists>res names. parse_response [CHR ''a'', CHR '','', CHR ''b'', CHR 0x0A, CHR ''c''] [CHR 0x0A] '','' = Some (Ok (res, names))"
  using parse_response_shape[of "[CHR 0x0A]"] by blast

text \<open>The two command-line splitters agree: \<^verbatim>\<open>SplitRespectQuotesAny\<close> gives the words of
  \<^verbatim>\<open>SplitRespectQuotesStr\<close> as dynamically typed strings.  No word is empty, and a string
  without quotes loses nothing but its blanks.\<close>

theorem split_respect_quotes_agree:
  shows "split_respect_quotes_any s = map GString (split_respect_quotes_str s) \<and>
    [] \<notin> set (split_respect_quotes_str s) \<and>
    (CHR 0x22 \<notin> set s \<and> CHR 0x27 \<notin> set s \<longrightarrow>
      concat (split_respect_quotes_str s) = filter (\<lambda>c. c \<noteq> CHR '' '') s)"
proof -
  have any: "split_quotes_any_loop s d q cur (map GString res) = map GString (split_quotes_loop s d q cur res)"
    for d q cur res
    by (induction s d q cur res rule: split_quotes_loop.induct) (auto simp: flush_def)
  have nonempty: "[] \<notin> set res \<Longrightarrow> [] \<notin> set (split_quotes_loop s d q cur res)" for d q cur res
    by (induction s d q cur res rule: split_quotes_loop.induct) (auto simp: flush_def)
  have plain: "CHR 0x22 \<notin> set s \<Longrightarrow> CHR 0x27 \<notin> set s \<Longrightarrow>
      concat (split_quotes_loop s False False cur res) = concat res @ cur @ filter (\<lambda>c. c \<noteq> CHR '' '') s" for cur res
    by (induction s arbitrary: cur res) (auto simp: flush_def)
  show ?thesis
    using any[of False False "[]" "[]"] nonempty[of "[]"] plain[of "[]" "[]"]
    by (simp add: split_respect_quotes_any_def split_respect_quotes_str_def)
qed

lemma split_respect_quotes_agree_witness:
  "concat (split_respect_quotes_str ''ls  -l'') = ''ls-l''"
  using split_respect_quotes_agree[of "''ls  -l''"] by simp

end
