(* ===== verification/ShReader.thy ===== *)
theory ShReader
  imports Shutils
begin

text \<open>
  The streaming half of \<^verbatim>\<open>connpool/internal/utils/sh_conn.go\<close>:
  \<^verbatim>\<open>ParseResponseFromReader\<close>, which reads lines through a \<^verbatim>\<open>bufio.Scanner\<close> with
  a split function of its own, and \<^verbatim>\<open>MakeParam\<close>, which writes a command's parameters.

  A reader is the list of chunks that become readable, one after the other; a read error counts as the end
  of the stream, as in \<^verbatim>\<open>Scanner\<close>, whose \<^verbatim>\<open>Err\<close> the code never asks for.  One
  read takes at most what the scanner's buffer has room for (64 KiB in all) and leaves the rest of the
  chunk to the next read; a smaller buffer, which \<^verbatim>\<open>Scanner\<close> grows from 4 KiB, only cuts
  the stream elsewhere.
\<close>

section \<open>Scanning lines\<close>

text \<open>\<^verbatim>\<open>bytes.Index\<close>\<close>

fun bytes_index :: "string \<Rightarrow> string \<Rightarrow> nat option" where
  "bytes_index [] p = (if p = [] then Some 0 else None)"
| "bytes_index (c # cs) p = (if has_prefix (c # cs) p then Some 0 else map_option Suc (bytes_index cs p))"

datatype split_step = Token nat string | FinalToken | NeedMore

definition reader_split :: "string \<Rightarrow> string \<Rightarrow> string \<Rightarrow> bool \<Rightarrow> split_step" where
  "reader_split newlineChar endChar data atEOF =
    (case bytes_index data newlineChar of
      Some idx \<Rightarrow> Token (idx + length newlineChar) (take idx data)
    | None \<Rightarrow>
        if data = endChar then FinalToken
        else if atEOF \<and> data \<noteq> [] then Token (length data) (take (length data - 1) data)
        else NeedMore)"

definition max_token :: nat where
  "max_token = 64 * 1024"

text \<open>\<^verbatim>\<open>for scanner.Scan() { lines = append(lines, scanner.Text()) }\<close>: an empty token that
  does not advance repeats for ever before the end of the stream, and panics after it.\<close>

partial_function (option) scan_loop ::
    "string \<Rightarrow> string \<Rightarrow> string list \<Rightarrow> bool \<Rightarrow> string \<Rightarrow> string list \<Rightarrow> string list go option" where
  "scan_loop nl e chunks eof buf lines =
    (case (if buf \<noteq> [] \<or> eof then reader_split nl e buf eof else NeedMore) of
      FinalToken \<Rightarrow> Some (Ok lines)
    | Token n t \<Rightarrow>
        if eof \<and> n = 0 then Some (Panic (PExplicit ''bufio.Scan: too many empty tokens without progressing''))
        else scan_loop nl e chunks eof (drop n buf) (lines @ [t])
    | NeedMore \<Rightarrow>
        if eof \<or> max_token \<le> length buf then Some (Ok lines)
        else (case chunks of
          [] \<Rightarrow> scan_loop nl e [] True buf lines
        | c # cs \<Rightarrow>
            scan_loop nl e (if length c \<le> max_token - length buf then cs else drop (max_token - length buf) c # cs)
              eof (buf @ take (max_token - length buf) c) lines))"

definition scan_lines :: "string \<Rightarrow> string \<Rightarrow> string list \<Rightarrow> string list go option" where
  "scan_lines nl e chunks = scan_loop nl e chunks False [] []"

section \<open>The table of the lines\<close>

fun data_len_loop :: "string list \<Rightarrow> string \<Rightarrow> int \<Rightarrow> int go option" where
  "data_len_loop [] sep dataLen = Some (Ok dataLen)"
| "data_len_loop (line # lines) sep dataLen =
    Option.bind (count_fields line sep) (\<lambda>cnt.
      if dataLen < cnt then
        (if dataLen = 0 then data_len_loop lines sep cnt
         else if dataLen \<noteq> cnt
         then Some (Err (sentinel_err SentinelCatchError ''not eq, prev[%d] != current[%d]''))
         else data_len_loop lines sep dataLen)
      else data_len_loop lines sep dataLen)"

fun fill_names :: "string list \<Rightarrow> nat \<Rightarrow> string list \<Rightarrow> string list go" where
  "fill_names name i [] = Ok name"
| "fill_names name i (d # ds) = bind_go (go_store name (int i) d) (\<lambda>name. fill_names name (Suc i) ds)"

definition reader_table :: "string list \<Rightarrow> string \<Rightarrow> (rows \<times> string list) go option" where
  "reader_table lines splitChar =
    opt_bind_go (Some (go_make (int (length lines) - 1) ([] :: goval list))) (\<lambda>_.
      if splitChar \<noteq> [] then
        opt_bind_go (data_len_loop lines splitChar 0) (\<lambda>n.
          let dataLen = (if n \<le> 0 then 1 else n) in
          opt_bind_go (Some (fill_names (replicate (nat dataLen) []) 0 (go_split (hd lines) splitChar))) (\<lambda>name.
          opt_bind_go (cut_rows (tl lines) splitChar dataLen) (\<lambda>res. Some (Ok (res, name)))))
      else Some (Ok (map (\<lambda>line. [GString line]) (tl lines), [hd lines])))"

definition parse_response_from_reader ::
    "string list \<Rightarrow> string \<Rightarrow> string \<Rightarrow> string \<Rightarrow> (rows \<times> string list) go option" where
  "parse_response_from_reader reader newlineChar splitChar endChar =
    opt_bind_go (scan_lines newlineChar endChar reader) (\<lambda>lines. reader_table lines splitChar)"

section \<open>Parameters of a command\<close>

definition hex_digit :: "nat \<Rightarrow> char" where
  "hex_digit n = (if n < 10 then char_of (48 + n) else char_of (87 + n))"

definition hex_encode :: "8 word list \<Rightarrow> string" where
  "hex_encode bs = concat (map (\<lambda>b. [hex_digit (unat b div 16), hex_digit (unat b mod 16)]) bs)"

text \<open>The text of one value; \<open>ff\<close> is \<^verbatim>\<open>strconv.FormatFloat(_, 'f', -1, 64)\<close> and
  \<open>widen\<close> the conversion of \<^verbatim>\<open>float32\<close> to \<^verbatim>\<open>float64\<close>.\<close>

fun param_text :: "(64 word \<Rightarrow> string) \<Rightarrow> (32 word \<Rightarrow> 64 word) \<Rightarrow> goval \<Rightarrow> string" where
  "param_text ff widen (GBytes bs) = hex_encode bs"
| "param_text ff widen (GString s) = s"
| "param_text ff widen (GInt i) = itoa (sint i)"
| "param_text ff widen (GInt64 i) = itoa (sint i)"
| "param_text ff widen (GFloat32 x) = ff (widen x)"
| "param_text ff widen (GFloat64 x) = ff x"
| "param_text ff widen (GBool b) = (if b then ''true'' else ''false'')"
| "param_text ff widen v = ''''"

definition make_param ::
    "(64 word \<Rightarrow> string) \<Rightarrow> (32 word \<Rightarrow> 64 word) \<Rightarrow> string \<Rightarrow> string \<Rightarrow> string \<Rightarrow> conn_args \<Rightarrow> string" where
  "make_param ff widen inputNextLineChar inputDivisionChar endString arg =
    concat (map (\<lambda>row. concat (map (\<lambda>v. param_text ff widen v @ inputDivisionChar) row) @ inputNextLineChar)
      (case a_Args arg of None \<Rightarrow> [] | Some rows \<Rightarrow> rows)) @ endString"

section \<open>The scanner\<close>

lemma bytes_index_bound: "bytes_index s p = Some i \<Longrightarrow> i + length p \<le> length s"
proof (induction s p arbitrary: i rule: bytes_index.induct)
  case (2 c cs p)
  show ?case
  proof (cases "has_prefix (c # cs) p")
    case True
    then have "length p \<le> length (c # cs)" by (metis has_prefix_def length_take min.cobounded1)
    with True 2(2) show ?thesis by simp
  qed (use 2 in auto)
qed (simp split: if_splits)

text \<open>What is left to do: a byte that is read counts once, one to be read twice.\<close>

definition scan_work :: "string list \<Rightarrow> bool \<Rightarrow> string \<Rightarrow> nat" where
  "scan_work chunks eof buf = length buf + (if eof then 0 else Suc (length chunks + 2 * length (concat chunks)))"

lemma scan_read_less:
  assumes "length buf < max_token"
  shows "scan_work (if length c \<le> max_token - length buf then cs else drop (max_token - length buf) c # cs) False
      (buf @ take (max_token - length buf) c) < scan_work (c # cs) False buf"
  using assms by (auto simp: scan_work_def)

lemma scan_loop_returns:
  assumes "nl \<noteq> []"
  shows "\<exists>out. scan_loop nl e chunks eof buf lines = Some (Ok (lines @ out))"
proof (induction "scan_work chunks eof buf" arbitrary: chunks eof buf lines rule: less_induct)
  case less
  show ?case
  proof (cases "if buf \<noteq> [] \<or> eof then reader_split nl e buf eof else NeedMore")
    case (Token n t)
    then have n: "0 < n" "buf \<noteq> []"
      using assms by (auto simp: reader_split_def dest: bytes_index_bound split: if_splits option.splits)
    then have "scan_work chunks eof (drop n buf) < scan_work chunks eof buf" by (simp add: scan_work_def)
    from less[OF this] obtain out where "scan_loop nl e chunks eof (drop n buf) (lines @ [t]) = Some (Ok ((lines @ [t]) @ out))"
      by blast
    with Token n show ?thesis by (subst scan_loop.simps) simp
  next
    case NeedMore
    show ?thesis
    proof (cases "eof \<or> max_token \<le> length buf")
      case False
      then have room: "\<not> eof" "length buf < max_token" by auto
      show ?thesis
      proof (cases chunks)
        case Nil
        then show ?thesis using less[of "[]" True buf lines] NeedMore room
          by (subst scan_loop.simps) (auto simp: scan_work_def)
      next
        case (Cons c cs)
        with scan_read_less[OF room(2), of c cs] room(1) have w: "scan_work (if length c \<le> max_token - length buf then cs
              else drop (max_token - length buf) c # cs) False (buf @ take (max_token - length buf) c) < scan_work chunks eof buf"
          by simp
        from less[OF w, of lines] Cons NeedMore room show ?thesis by (subst scan_loop.simps) auto
      qed
    qed (use NeedMore in \<open>subst scan_loop.simps, auto\<close>)
  qed (subst scan_loop.simps, simp)
qed

text \<open>Without a row separator: an empty token before the end of the stream comes again for ever.\<close>

lemma scan_loop_stuck:
  assumes "scan_loop nl e chunks eof buf lines = Some y"
  shows "\<not> (nl = [] \<and> \<not> eof \<and> buf \<noteq> [])"
proof (rule scan_loop.raw_induct[OF _ assms, where P = "\<lambda>nl e chunks eof buf lines y. \<not> (nl = [] \<and> \<not> eof \<and> buf \<noteq> [])"], goal_cases)
  case (1 loop nl e chunks eof buf lines y)
  show ?case
  proof
    assume stuck: "nl = [] \<and> \<not> eof \<and> buf \<noteq> []"
    then have "reader_split nl e buf eof = Token 0 []" by (cases buf) (simp_all add: reader_split_def has_prefix_def)
    with 1 stuck show False by fastforce
  qed
qed

lemma scan_loop_no_separator:
  "scan_loop [] e chunks False [] lines =
    (if concat chunks = [] then Some (Panic (PExplicit ''bufio.Scan: too many empty tokens without progressing'')) else None)"
proof (induction chunks)
  case Nil
  show ?case
    by (subst scan_loop.simps, simp add: max_token_def, subst scan_loop.simps) (simp add: reader_split_def)
next
  case (Cons c cs)
  have none: "scan_loop [] e cs' False buf lines = None" if "buf \<noteq> []" for cs' buf
    using scan_loop_stuck[of "[]" e cs' False buf lines] that by fastforce
  show ?case
  proof (cases "c = []")
    case True
    with Cons show ?thesis by (subst scan_loop.simps) (simp add: max_token_def)
  next
    case False
    then have "take max_token c \<noteq> []" by (simp add: max_token_def)
    with False none show ?thesis by (subst scan_loop.simps) (simp add: max_token_def)
  qed
qed

lemma scan_loop_nothing:
  assumes "nl \<noteq> []" "concat chunks = []"
  shows "scan_loop nl e chunks False [] lines = Some (Ok lines)"
  using assms(2)
proof (induction chunks)
  case Nil
  have "bytes_index [] nl = None" using assms(1) by simp
  then show ?case
    by (subst scan_loop.simps, simp add: max_token_def, subst scan_loop.simps) (simp add: reader_split_def)
next
  case (Cons c cs)
  then show ?case by (subst scan_loop.simps) (simp add: max_token_def)
qed

text \<open>C30: The scanner fails to return exactly when the row separator is empty and the program sends
  anything.  With a separator it returns its lines, however the reads cut the stream, and if there is
  no line the table construction panics (a slice of length -1).  A stream that ends without a byte
  is a panic in any case.\<close>

theorem reader_scan_returns:
  "(scan_lines newlineChar endChar chunks = None \<longleftrightarrow> newlineChar = [] \<and> concat chunks \<noteq> []) \<and>
   (newlineChar \<noteq> [] \<longrightarrow> (\<exists>lines. scan_lines newlineChar endChar chunks = Some (Ok lines) \<and>
     (lines = [] \<longrightarrow> parse_response_from_reader chunks newlineChar splitChar endChar = Some (Panic PMakeSlice)))) \<and>
   (concat chunks = [] \<longrightarrow> (\<exists>p. parse_response_from_reader chunks newlineChar splitChar endChar = Some (Panic p)))"
proof (cases "newlineChar = []")
  case True
  then show ?thesis
    by (auto simp: scan_lines_def scan_loop_no_separator parse_response_from_reader_def opt_bind_go_def)
next
  case False
  obtain lines where l: "scan_lines newlineChar endChar chunks = Some (Ok lines)"
    using scan_loop_returns[OF False, of endChar chunks False "[]" "[]"] by (auto simp: scan_lines_def)
  have p: "parse_response_from_reader chunks newlineChar splitChar endChar = Some (Panic PMakeSlice)" if "lines = []"
    using l that by (simp add: parse_response_from_reader_def reader_table_def opt_bind_go_def go_make_def)
  have "lines = []" if "concat chunks = []"
    using l scan_loop_nothing[OF False that] by (simp add: scan_lines_def)
  with l p False show ?thesis by auto
qed

section \<open>The table\<close>

lemma data_len_loop_eq:
  assumes "sep \<noteq> []" "0 < k"
  shows "data_len_loop lines sep k =
    (if \<exists>l \<in> set lines. k < int (length (the (split_line l sep)))
     then Some (Err (sentinel_err SentinelCatchError ''not eq, prev[%d] != current[%d]'')) else Some (Ok k))"
proof (induction lines)
  case Nil
  then show ?case by simp
next
  case (Cons line lines)
  obtain fs where "split_line line sep = Some fs" "count_fields line sep = Some (int (length fs))"
    using fields_exist[OF assms(1)] by metis
  with Cons assms(2) show ?case by auto
qed

lemma fill_names_eq:
  "i \<le> length name \<Longrightarrow> fill_names name i ds =
    (if i + length ds \<le> length name then Ok (take i name @ ds @ drop (i + length ds) name) else Panic PIndex)"
proof (induction name i ds rule: fill_names.induct)
  case (2 name i d ds)
  show ?case
  proof (cases "i < length name")
    case True
    have IH: "fill_names (name[i := d]) (Suc i) ds =
        (if Suc i + length ds \<le> length name
         then Ok (take (Suc i) (name[i := d]) @ ds @ drop (Suc i + length ds) (name[i := d])) else Panic PIndex)"
      using 2(1)[of "name[i := d]"] True by simp
    have "take (Suc i) (name[i := d]) = take i name @ [d]"
      using True by (simp add: take_Suc_conv_app_nth)
    with IH True show ?thesis by simp
  qed (use 2(2) in \<open>simp add: go_store_def\<close>)
qed simp

text \<open>What \<^verbatim>\<open>ParseResponseFromReader\<close> makes of the lines, on every branch.  The first
  line, cut without regard to quotes, names the columns; their number is that line's field count,
  which does regard quotes.  A later line with more fields is an error; a header whose quotes hide
  a separator panics; otherwise every later line becomes a row filled up with nil.\<close>

theorem reader_table_spec:
  assumes "splitChar \<noteq> []" "split_line h splitChar = Some fs"
  shows "reader_table (h # ls) splitChar =
    (if \<exists>l \<in> set ls. length fs < length (the (split_line l splitChar))
     then Some (Err (sentinel_err SentinelCatchError ''not eq, prev[%d] != current[%d]''))
     else if length fs < length (go_split h splitChar) then Some (Panic PIndex)
     else Some (Ok (map (\<lambda>l. padded_row (length fs) (the (split_line l splitChar))) ls,
       go_split h splitChar @ replicate (length fs - length (go_split h splitChar)) [])))"
proof -
  have fs: "count_fields h splitChar = Some (int (length fs))" "fs \<noteq> []"
    using fields_exist[OF assms(1), of h] assms(2) by (metis option.inject)+
  then have k: "0 < int (length fs)" by simp
  show ?thesis
  proof (cases "\<exists>l \<in> set ls. length fs < length (the (split_line l splitChar))")
    case True
    then show ?thesis
      using assms(1) fs k data_len_loop_eq[OF assms(1) k, of ls]
      by (simp add: reader_table_def opt_bind_go_def go_make_def)
  next
    case False
    then have le: "\<forall>l \<in> set ls. length (the (split_line l splitChar)) \<le> length fs" by (simp add: not_less)
    show ?thesis
      using assms(1) fs k False data_len_loop_eq[OF assms(1) k, of ls] cut_rows_ok[OF assms(1) le]
      by (auto simp: reader_table_def opt_bind_go_def go_make_def fill_names_eq Let_def)
  qed
qed

lemma reader_scan_returns_witness:
  "scan_lines [] '''' [''ab''] = None \<and> (\<exists>lines. scan_lines '';'' '''' [''a'', '';b''] = Some (Ok lines)) \<and>
    (\<exists>p. parse_response_from_reader [] '';'' '','' '''' = Some (Panic p))"
  using reader_scan_returns[of "[]" "''''" "[''ab'']"] reader_scan_returns[of "'';''" "''''" "[''a'', '';b'']"]
    reader_scan_returns[of "'';''" "''''" "[]" "'',''"] by auto

text \<open>A header \<^verbatim>\<open>"a,b",c\<close> with the comma hidden in quotes.\<close>

lemma reader_table_spec_witness:
  "reader_table [quote_char # ''a,b'' @ [quote_char] @ '',c''] '','' = Some (Panic PIndex)"
proof -
  have "split_line (quote_char # ''a,b'' @ [quote_char] @ '',c'') '','' = Some [''a,b'', ''c'']"
    by (simp add: split_line_def split_line_loop.simps quote_char_def has_prefix_def)
  from reader_table_spec[OF _ this, of "[]"] show ?thesis
    by (simp add: go_split_def has_prefix_def quote_char_def)
qed

section \<open>Writing parameters and reading them back\<close>

definition plain_text :: "char set \<Rightarrow> string \<Rightarrow> bool" where
  "plain_text cs s \<longleftrightarrow> set s \<inter> insert quote_char cs = {}"

lemma has_prefix_single [simp]: "has_prefix (c # cs) [n] \<longleftrightarrow> c = n"
  by (simp add: has_prefix_def)

lemma split_loops_plain:
  assumes "plain_text {n} x"
  shows "split_keep_loop [n] (x @ rest) False f r = split_keep_loop [n] rest False (f @ x) r"
    "split_line_loop [n] (x @ rest) False f r = split_line_loop [n] rest False (f @ x) r"
  using assms by (induction x arbitrary: f) (auto simp: plain_text_def loops_other)

lemma split_loops_pieces:
  assumes "\<forall>x \<in> set xs. plain_text {n} x" "plain_text {n} e" "n \<noteq> quote_char"
  shows "split_keep_loop [n] (concat (map (\<lambda>x. x @ [n]) xs) @ e) False [] r = Some (r @ xs @ [e])"
    "split_line_loop [n] (concat (map (\<lambda>x. x @ [n]) xs) @ e) False [] r = Some (r @ xs @ [e])"
proof -
  have e: "split_keep_loop [n] e False [] r = Some (r @ [e])" "split_line_loop [n] e False [] r = Some (r @ [e])" for r
    using split_loops_plain[OF assms(2), of "[]" "[]" r] by (simp_all add: loops_nil)
  show "split_keep_loop [n] (concat (map (\<lambda>x. x @ [n]) xs) @ e) False [] r = Some (r @ xs @ [e])"
    using assms(1) e(1) assms(3)
    by (induction xs arbitrary: r) (simp_all add: split_loops_plain(1) loops_sep(2))
  show "split_line_loop [n] (concat (map (\<lambda>x. x @ [n]) xs) @ e) False [] r = Some (r @ xs @ [e])"
    using assms(1) e(2) assms(3)
    by (induction xs arbitrary: r) (simp_all add: split_loops_plain(2) loops_sep(1))
qed

lemma plain_text_row:
  assumes "\<forall>x \<in> set row. plain_text {n, d} x" "n \<noteq> d" "d \<noteq> quote_char"
  shows "plain_text {n} (concat (map (\<lambda>x. x @ [d]) row))"
  using assms by (auto simp: plain_text_def)

text \<open>The reader of the parameters, with the code's own scanners: the text is cut at the row
  separator, its last line is the end marker, and every other line is cut at the cell separator, which
  also ends it.\<close>

definition cut_params :: "string \<Rightarrow> string \<Rightarrow> string \<Rightarrow> (string list list \<times> string) option" where
  "cut_params nextLineChar divisionChar text =
    Option.bind (split_line_keep_quote text nextLineChar) (\<lambda>lines.
      map_option (\<lambda>rows. (map butlast rows, last lines))
        (those (map (\<lambda>line. split_line line divisionChar) (butlast lines))))"



end
