(* ===== verification/Metric.thy ===== *)
theory Metric
  imports Gostd "HOL-Library.AList"
begin

text \<open>
  \<^verbatim>\<open>extension/metric/lib.go\<close> and \<^verbatim>\<open>simple.go\<close>: named groups of metric values.
  The interface \<^verbatim>\<open>MetricExtension\<close> is the locale \<open>metric_extension\<close>, which the pools
  use; \<^verbatim>\<open>SimpleMetricExtension\<close> is interpreted as one.  The value type \<open>'f\<close> stands
  for \<^verbatim>\<open>float64\<close>: only its zero and its addition are used, and no law of either.  The
  text of \<^verbatim>\<open>Print\<close> is in \<open>MetricPrint\<close>.
\<close>

section \<open>The interface\<close>

locale metric_extension =
  fixes get :: "'m \<Rightarrow> string \<Rightarrow> string \<Rightarrow> 'f::{zero, plus}"
    and add :: "string \<Rightarrow> string \<Rightarrow> 'f \<Rightarrow> 'm \<Rightarrow> 'm"
    and adds :: "string \<Rightarrow> (string \<times> 'f) list \<Rightarrow> 'm \<Rightarrow> 'm"
    and assignment :: "string \<Rightarrow> string \<Rightarrow> 'f \<Rightarrow> 'm \<Rightarrow> 'm"
    and assignments :: "string \<Rightarrow> (string \<times> 'f) list \<Rightarrow> 'm \<Rightarrow> 'm"
    and delete_from_name :: "string \<Rightarrow> 'm \<Rightarrow> 'm"
    and reset :: "'m \<Rightarrow> 'm"
    and inv :: "'m \<Rightarrow> bool"
    and has :: "'m \<Rightarrow> string \<Rightarrow> string \<Rightarrow> bool"
  assumes inv_ops: "inv m \<Longrightarrow> inv (add n k v m)" "inv m \<Longrightarrow> inv (adds n kvs m)"
      "inv m \<Longrightarrow> inv (assignment n k v m)" "inv m \<Longrightarrow> inv (assignments n kvs m)"
      "inv m \<Longrightarrow> inv (delete_from_name n m)" "inv m \<Longrightarrow> inv (reset m)"
    and get_none: "inv m \<Longrightarrow> \<not> has m n k \<Longrightarrow> get m n k = 0"
    and get_assignments: "inv m \<Longrightarrow> distinct (map fst kvs) \<Longrightarrow> get (assignments n kvs m) n' k =
      (if n' = n then (case map_of kvs k of Some v \<Rightarrow> v | None \<Rightarrow> get m n k) else get m n' k)"
    and get_adds: "inv m \<Longrightarrow> distinct (map fst kvs) \<Longrightarrow> get (adds n kvs m) n' k =
      (if n' = n then (case map_of kvs k of
          Some v \<Rightarrow> (if has m n k then get m n k + v else v) | None \<Rightarrow> get m n k)
       else get m n' k)"
    and assignment_single: "assignment n k v m = assignments n [(k, v)] m"
    and add_single: "add n k v m = adds n [(k, v)] m"
    and get_delete: "inv m \<Longrightarrow> get (delete_from_name n m) n' k = (if n' = n then 0 else get m n' k)"
    and get_reset: "inv m \<Longrightarrow> get (reset m) n k = 0"
begin

lemma get_assignment: "inv m \<Longrightarrow> get (assignment n k v m) n' k' = (if n' = n \<and> k' = k then v else get m n' k')"
  by (simp add: assignment_single get_assignments)

text \<open>The pair of gauges a pool keeps.\<close>

lemma get_two_gauges:
  "inv m \<Longrightarrow> a \<noteq> b \<Longrightarrow> get (assignments n [(a, v), (b, w)] m) n a = v \<and>
    get (assignments n [(a, v), (b, w)] m) n b = w"
  by (simp add: get_assignments)

end

section \<open>SimpleMetricExtension\<close>

text \<open>The field \<^verbatim>\<open>m\<close>: nil, or a map from names to maps from keys to values.\<close>

type_synonym 'f simple_metric = "(string \<times> (string \<times> 'f) list) list option"

definition sme_get :: "'f::zero simple_metric \<Rightarrow> string \<Rightarrow> string \<Rightarrow> 'f" where
  "sme_get s name key =
    (case s of None \<Rightarrow> 0
    | Some m \<Rightarrow>
        (case map_of m name of None \<Rightarrow> 0
        | Some sub \<Rightarrow> (case map_of sub key of None \<Rightarrow> 0 | Some v \<Rightarrow> v)))"

definition sme_delete_from_name :: "string \<Rightarrow> 'f simple_metric \<Rightarrow> 'f simple_metric" where
  "sme_delete_from_name name s =
    (case s of None \<Rightarrow> s
    | Some m \<Rightarrow> (case map_of m name of None \<Rightarrow> s | Some sub \<Rightarrow> Some (AList.delete name m)))"

text \<open>The map made on first use, and the sub-map of \<^verbatim>\<open>name\<close>, made on first use.\<close>

definition sme_init :: "'f simple_metric \<Rightarrow> (string \<times> (string \<times> 'f) list) list" where
  "sme_init s = (case s of None \<Rightarrow> [] | Some m \<Rightarrow> m)"

definition sme_sub :: "(string \<times> (string \<times> 'f) list) list \<Rightarrow> string \<Rightarrow> (string \<times> 'f) list" where
  "sme_sub m name = (case map_of m name of None \<Rightarrow> [] | Some sub \<Rightarrow> sub)"

definition sme_put_add :: "(string \<times> 'f::plus) list \<Rightarrow> string \<times> 'f \<Rightarrow> (string \<times> 'f) list" where
  "sme_put_add sub kv =
    (case map_of sub (fst kv) of
      None \<Rightarrow> AList.update (fst kv) (snd kv) sub
    | Some val \<Rightarrow> AList.update (fst kv) (val + snd kv) sub)"

definition sme_adds :: "string \<Rightarrow> (string \<times> 'f::plus) list \<Rightarrow> 'f simple_metric \<Rightarrow> 'f simple_metric" where
  "sme_adds name data s =
    (let m = sme_init s in Some (AList.update name (foldl sme_put_add (sme_sub m name) data) m))"

definition sme_add :: "string \<Rightarrow> string \<Rightarrow> 'f::plus \<Rightarrow> 'f simple_metric \<Rightarrow> 'f simple_metric" where
  "sme_add name key value s =
    (let m = sme_init s in Some (AList.update name (sme_put_add (sme_sub m name) (key, value)) m))"

definition sme_assignments :: "string \<Rightarrow> (string \<times> 'f) list \<Rightarrow> 'f simple_metric \<Rightarrow> 'f simple_metric" where
  "sme_assignments name data s =
    (let m = sme_init s in
     Some (AList.update name (foldl (\<lambda>sub kv. AList.update (fst kv) (snd kv) sub) (sme_sub m name) data) m))"

definition sme_assignment :: "string \<Rightarrow> string \<Rightarrow> 'f \<Rightarrow> 'f simple_metric \<Rightarrow> 'f simple_metric" where
  "sme_assignment name key value s =
    (let m = sme_init s in Some (AList.update name (AList.update key value (sme_sub m name)) m))"

definition sme_reset :: "'f simple_metric \<Rightarrow> 'f simple_metric" where
  "sme_reset s = None"

definition sme_wf :: "'f simple_metric \<Rightarrow> bool" where
  "sme_wf s \<longleftrightarrow> (case s of None \<Rightarrow> True
    | Some m \<Rightarrow> distinct (map fst m) \<and> (\<forall>(n, sub) \<in> set m. distinct (map fst sub)))"

definition sme_lookup :: "'f simple_metric \<Rightarrow> string \<Rightarrow> string \<rightharpoonup> 'f" where
  "sme_lookup s name = map_of (sme_sub (sme_init s) name)"

lemma sme_none [simp]: "sme_wf None" "sme_lookup None n = Map.empty"
  by (simp_all add: sme_wf_def sme_lookup_def sme_init_def sme_sub_def)

lemma set_alist_delete: "kv \<in> set (AList.delete k kvs) \<longleftrightarrow> kv \<in> set kvs \<and> fst kv \<noteq> k"
  by (auto simp: AList.delete_eq)

lemma sme_get_lookup: "sme_get s n k = (case sme_lookup s n k of None \<Rightarrow> 0 | Some v \<Rightarrow> v)"
  by (simp add: sme_get_def sme_lookup_def sme_sub_def sme_init_def split: option.split)

lemma sme_wf_init: "sme_wf s \<Longrightarrow> distinct (map fst (sme_init s))"
  by (simp add: sme_wf_def sme_init_def split: option.splits)

lemma sme_wf_sub: "sme_wf s \<Longrightarrow> distinct (map fst (sme_sub (sme_init s) n))"
  by (auto simp: sme_wf_def sme_init_def sme_sub_def split: option.splits dest: map_of_SomeD)

lemma sme_wf_update:
  assumes "sme_wf s" "distinct (map fst sub)"
  shows "sme_wf (Some (AList.update n sub (sme_init s)))"
  using assms set_alist_update[of n sub "sme_init s"] sme_wf_init[OF assms(1)]
  by (fastforce simp: sme_wf_def sme_init_def distinct_update split: option.splits)

lemma sme_lookup_update [simp]:
  "sme_lookup (Some (AList.update n sub (sme_init s))) n' = (if n' = n then map_of sub else sme_lookup s n')"
  by (auto simp: sme_lookup_def sme_init_def sme_sub_def update_conv')

lemma distinct_put_add: "distinct (map fst sub) \<Longrightarrow> distinct (map fst (foldl sme_put_add sub kvs))"
  by (induction kvs arbitrary: sub) (auto simp: sme_put_add_def distinct_update split: option.splits)

lemma distinct_put_all:
  "distinct (map fst sub) \<Longrightarrow> distinct (map fst (foldl (\<lambda>sub kv. AList.update (fst kv) (snd kv) sub) sub kvs))"
  by (induction kvs arbitrary: sub) (auto simp: distinct_update)

lemma map_of_put_add:
  "distinct (map fst kvs) \<Longrightarrow> map_of (foldl sme_put_add sub kvs) k =
    (case map_of kvs k of
      None \<Rightarrow> map_of sub k
    | Some v \<Rightarrow> (case map_of sub k of None \<Rightarrow> Some v | Some w \<Rightarrow> Some (w + v)))"
proof (induction kvs arbitrary: sub)
  case Nil
  then show ?case by simp
next
  case (Cons kv kvs)
  have "map_of kvs (fst kv) = None" using Cons.prems by (auto simp: map_of_eq_None_iff)
  with Cons show ?case by (cases "fst kv = k") (auto simp: sme_put_add_def update_conv' split: option.splits)
qed

lemma map_of_put_all:
  "distinct (map fst kvs) \<Longrightarrow>
    map_of (foldl (\<lambda>sub kv. AList.update (fst kv) (snd kv) sub) sub kvs) k =
    (case map_of kvs k of None \<Rightarrow> map_of sub k | Some v \<Rightarrow> Some v)"
proof (induction kvs arbitrary: sub)
  case Nil
  then show ?case by simp
next
  case (Cons kv kvs)
  have "map_of kvs (fst kv) = None" using Cons.prems by (auto simp: map_of_eq_None_iff)
  with Cons show ?case by (cases "fst kv = k") (auto simp: update_conv' split: option.splits)
qed

lemma sme_lookup_delete: "sme_wf s \<Longrightarrow> sme_lookup (sme_delete_from_name n s) n' = (if n' = n then Map.empty else sme_lookup s n')"
  by (cases s) (auto simp: sme_lookup_def sme_delete_from_name_def sme_init_def sme_sub_def delete_conv' split: option.splits)

interpretation simple: metric_extension "sme_get :: 'f::{zero, plus} simple_metric \<Rightarrow> _" sme_add sme_adds
    sme_assignment sme_assignments sme_delete_from_name sme_reset sme_wf "\<lambda>s n k. sme_lookup s n k \<noteq> None"
proof (unfold_locales, goal_cases)
  case (1 m n k v)
  then show ?case
    using distinct_put_add[of "sme_sub (sme_init m) n" "[(k, v)]"]
    by (simp add: sme_add_def Let_def sme_wf_update sme_wf_sub)
next
  case (5 m n)
  then show ?case
    by (auto simp: sme_wf_def sme_delete_from_name_def distinct_delete set_alist_delete split: option.splits)
next
  case (8 m kvs n n' k)
  then show ?case
    by (auto simp: sme_get_lookup sme_assignments_def Let_def map_of_put_all split: option.splits)
      (simp_all add: sme_lookup_def)
next
  case (9 m kvs n n' k)
  then show ?case
    by (auto simp: sme_get_lookup sme_adds_def Let_def map_of_put_add split: option.splits)
      (simp_all add: sme_lookup_def)
next
  case (12 m n n' k)
  then show ?case by (simp add: sme_get_lookup sme_lookup_delete)
qed (auto simp: sme_adds_def sme_assignment_def sme_assignments_def sme_add_def sme_reset_def sme_get_lookup
    Let_def sme_wf_update distinct_put_add distinct_put_all distinct_update sme_wf_sub sme_none)

section \<open>What is read back\<close>

text \<open>Assignments replace and additions accumulate exactly the given keys of the given name
  (the first addition to a key stores the value itself), a delete empties its name only, and a
  reset empties everything; a value never written reads as 0.\<close>

theorem metric_reads_back:
  assumes "sme_wf s" "distinct (map fst data)"
  shows "sme_get (sme_assignments name data s) n k =
      (if n = name then (case map_of data k of Some v \<Rightarrow> v | None \<Rightarrow> sme_get s name k) else sme_get s n k) \<and>
    sme_get (sme_adds name data s) n k =
      (if n = name then (case map_of data k of
          Some v \<Rightarrow> if sme_lookup s name k \<noteq> None then sme_get s name k + v else v
        | None \<Rightarrow> sme_get s name k)
       else sme_get s n k) \<and>
    sme_get (sme_delete_from_name name s) n k = (if n = name then 0 else sme_get s n k) \<and>
    sme_get (sme_reset s) n k = 0 \<and>
    sme_wf (sme_assignments name data s) \<and> sme_wf (sme_adds name data s) \<and> sme_wf (sme_delete_from_name name s)"
  using assms simple.get_assignments[OF assms, of name n k] simple.get_adds[OF assms, of name n k]
    simple.get_delete[OF assms(1), of name n k] simple.get_reset[OF assms(1), of n k] simple.inv_ops(2,4,5)[OF assms(1)]
  by (simp add: simple.inv_ops)

lemma metric_reads_back_witness:
  "sme_get (sme_adds ''p'' [(''use'', 2)] (sme_assignments ''p'' [(''use'', 3 :: int)] None)) ''p'' ''use'' = 5"
proof -
  have wf: "sme_wf (sme_assignments ''p'' [(''use'', 3 :: int)] None)"
    using metric_reads_back[of "None :: int simple_metric" "[(''use'', 3)]" "''p''" "''p''" "''use''"] by simp
  show ?thesis
    using metric_reads_back[OF wf, of "[(''use'', 2)]" "''p''" "''p''" "''use''"]
    by (simp add: sme_lookup_def sme_assignments_def sme_init_def sme_sub_def sme_get_def)
qed

end
