(* ===== verification/Pools.thy ===== *)
theory Pools
  imports Metric
begin

text \<open>
  \<^verbatim>\<open>extension/pool/simple_pool.go\<close> and \<^verbatim>\<open>timeout_pool.go\<close>, called by one
  thread at a time: \<open>Use\<close> with the callback run to its end, \<open>Close\<close>.  The interleavings
  of several callers are in \<open>Pool_Interleaving\<close>.

  What a pool is given (generator, context, metrics, the closing of an item) is the record
  \<open>pool_env\<close>; generator, callback and closing work on a world \<open>'w\<close>.  A channel is nil
  (\<open>None\<close>) or its queue with the closed flag.
\<close>

section \<open>Channels\<close>

record 't chan =
  ch_queue :: "'t list"
  ch_closed :: bool

datatype 't received = Item 't | ZeroItem | NothingReady

text \<open>A \<^verbatim>\<open>select\<close> with a receive and a \<^verbatim>\<open>default\<close>.\<close>

definition try_receive :: "'t chan option \<Rightarrow> 't received \<times> 't chan option" where
  "try_receive ch =
    (case ch of
      None \<Rightarrow> (NothingReady, None)
    | Some c \<Rightarrow>
        (case ch_queue c of
          x # xs \<Rightarrow> (Item x, Some (c\<lparr>ch_queue := xs\<rparr>))
        | [] \<Rightarrow> (if ch_closed c then ZeroItem else NothingReady, Some c)))"

text \<open>\<^verbatim>\<open>len(ch)\<close>\<close>

definition chan_len :: "'t chan option \<Rightarrow> int" where
  "chan_len ch = (case ch of None \<Rightarrow> 0 | Some c \<Rightarrow> int (length (ch_queue c)))"

lemma chan_len_simps [simp]: "chan_len None = 0" "chan_len (Some c) = int (length (ch_queue c))"
  by (simp_all add: chan_len_def)

text \<open>\<^verbatim>\<open>ch <- x\<close> with room in the buffer.\<close>

definition send :: "'t \<Rightarrow> 't chan option \<Rightarrow> 't chan option go" where
  "send x ch =
    (case ch of
      None \<Rightarrow> Panic (PExplicit ''deadlock'')
    | Some c \<Rightarrow> if ch_closed c then Panic PSendClosed else Ok (Some (c\<lparr>ch_queue := ch_queue c @ [x]\<rparr>)))"

definition close_chan :: "'t chan option \<Rightarrow> 't chan option go" where
  "close_chan ch =
    (case ch of
      None \<Rightarrow> Ok None
    | Some c \<Rightarrow> if ch_closed c then Panic PCloseClosed else Ok (Some (c\<lparr>ch_closed := True\<rparr>)))"

section \<open>The environment and the state of a pool\<close>

record ('w, 'c, 'm) pool_env =
  pe_name :: string
  pe_gen :: "('w, 'c) goS"
  pe_max :: int
  pe_done :: "'w \<Rightarrow> bool"
  pe_zero :: 'c
  pe_close :: "'c \<Rightarrow> 'w \<Rightarrow> 'w"
  pe_assignment :: "string \<Rightarrow> string \<Rightarrow> int \<Rightarrow> 'm \<Rightarrow> 'm"
  pe_assignments :: "string \<Rightarrow> (string \<times> int) list \<Rightarrow> 'm \<Rightarrow> 'm"
  pe_delete :: "string \<Rightarrow> 'm \<Rightarrow> 'm"

record ('w, 't, 'm) pool =
  pl_isInit :: bool
  pl_isClose :: bool
  pl_chan :: "'t chan option"
  pl_use :: int
  pl_accErr :: int
  pl_realMax :: int
  pl_metric :: 'm
  pl_world :: 'w

definition new_pool :: "'m \<Rightarrow> 'w \<Rightarrow> ('w, 't, 'm) pool" where
  "new_pool m w = \<lparr>pl_isInit = False, pl_isClose = False, pl_chan = None, pl_use = 0, pl_accErr = 0,
     pl_realMax = 0, pl_metric = m, pl_world = w\<rparr>"

definition full_key :: string where "full_key = ''full''"
definition use_key :: string where "use_key = ''use''"
definition idle_key :: string where "idle_key = ''idle''"
definition acc_err_key :: string where "acc_err_key = ''accErr''"

definition upd_metric :: "('m \<Rightarrow> 'm) \<Rightarrow> ('w, 't, 'm) pool \<Rightarrow> ('w, 't, 'm) pool" where
  "upd_metric f p = p\<lparr>pl_metric := f (pl_metric p)\<rparr>"

definition set_gauges :: "('w, 'c, 'm) pool_env \<Rightarrow> ('w, 't, 'm) pool \<Rightarrow> ('w, 't, 'm) pool" where
  "set_gauges e p = upd_metric (pe_assignments e (pe_name e)
    [(idle_key, chan_len (pl_chan p)), (use_key, pl_use p)]) p"

definition on_pool_world :: "('w, 'a) goS \<Rightarrow> (('w, 't, 'm) pool, 'a) goS" where
  "on_pool_world m p = (case m (pl_world p) of (r, w) \<Rightarrow> (r, p\<lparr>pl_world := w\<rparr>))"

definition close_item :: "('w, 'c, 'm) pool_env \<Rightarrow> 'c \<Rightarrow> ('w, 't, 'm) pool \<Rightarrow> ('w, 't, 'm) pool" where
  "close_item e c p = p\<lparr>pl_world := pe_close e c (pl_world p)\<rparr>"

definition pool_gen :: "('w, 'c, 'm) pool_env \<Rightarrow> (('w, 't, 'm) pool, 'c) goS" where
  "pool_gen e p = (if pl_isClose p then (Ok (pe_zero e), p) else wrapS ''gen failed'' (on_pool_world (pe_gen e)) p)"

definition real_max :: "('w, 'c, 'm) pool_env \<Rightarrow> int" where
  "real_max e = (if 0 < pe_max e then pe_max e else 10)"

definition init_pool :: "('w, 'c, 'm) pool_env \<Rightarrow> ('w, 't, 'm) pool \<Rightarrow> ('w, 't, 'm) pool" where
  "init_pool e p =
    (if pl_isInit p then p
     else let p = (if pl_chan p = None
         then p\<lparr>pl_realMax := real_max e, pl_chan := Some \<lparr>ch_queue = [], ch_closed = False\<rparr>\<rparr> else p) in
       (upd_metric (pe_assignment e (pe_name e) full_key (pl_realMax p)) p)\<lparr>pl_isInit := True\<rparr>)"

text \<open>The draining loop of \<^verbatim>\<open>Close\<close>; \<open>data\<close> takes an item's connection.\<close>

fun drain :: "('w, 'c, 'm) pool_env \<Rightarrow> ('t \<Rightarrow> 'c) \<Rightarrow> 't list \<Rightarrow> 'w \<Rightarrow> 'w" where
  "drain e data [] w = w"
| "drain e data (x # xs) w = drain e data xs (pe_close e (data x) w)"

definition pool_close :: "('w, 'c, 'm) pool_env \<Rightarrow> ('t \<Rightarrow> 'c) \<Rightarrow> (('w, 't, 'm) pool, unit) goS" where
  "pool_close e data p =
    (if pl_isClose p then (Err (sentinel_err ClosedError ''SyncExpirePool already closed''), p)
     else let q = (case pl_chan p of None \<Rightarrow> [] | Some c \<Rightarrow> ch_queue c);
        p = p\<lparr>pl_isClose := True, pl_world := drain e data q (pl_world p),
          pl_chan := map_option (ch_queue_update (\<lambda>_. [])) (pl_chan p)\<rparr> in
       case close_chan (pl_chan p) of
         Ok ch \<Rightarrow> (Ok (), upd_metric (pe_delete e (pe_name e)) (p\<lparr>pl_chan := ch\<rparr>))
       | Err er \<Rightarrow> (Err er, p)
       | Panic x \<Rightarrow> (Panic x, p))"

section \<open>SimplePoolExtension.Use\<close>

text \<open>The first part: an item to work with.\<close>

definition gen_item ::
    "('w, 'c, 'm) pool_env \<Rightarrow> (('w, 't, 'm) pool, 'c) goS" where
  "gen_item e p =
    (case pool_gen e p of
      (Err er, p) \<Rightarrow>
        let p = p\<lparr>pl_accErr := pl_accErr p + 1\<rparr> in
        (Err (EWrap (Some er) ''use, gen failed''),
         upd_metric (pe_assignment e (pe_name e) acc_err_key (pl_accErr p)) p)
    | r \<Rightarrow> r)"

definition simple_get :: "('w, 'c, 'm) pool_env \<Rightarrow> (('w, 'c, 'm) pool, 'c) goS" where
  "simple_get e p =
    (case try_receive (pl_chan p) of
      (Item x, ch) \<Rightarrow> (Ok x, p\<lparr>pl_chan := ch\<rparr>)
    | (ZeroItem, ch) \<Rightarrow> (Ok (pe_zero e), p\<lparr>pl_chan := ch\<rparr>)
    | (NothingReady, ch) \<Rightarrow> gen_item e p)"

text \<open>The last part: the item is put back, or closed; \<open>mk\<close> is what goes into the channel.\<close>

definition finish ::
    "('w, 'c, 'm) pool_env \<Rightarrow> ('c \<Rightarrow> 't) \<Rightarrow> 'c \<Rightarrow> 'r go \<Rightarrow> (('w, 't, 'm) pool, 'r) goS" where
  "finish e mk item r p =
    (case r of
      Panic x \<Rightarrow> (Panic x, p)
    | Err er \<Rightarrow>
        let p = set_gauges e (p\<lparr>pl_use := pl_use p - 1\<rparr>);
          p = close_item e item p;
          p = p\<lparr>pl_accErr := pl_accErr p + 1\<rparr> in
        (Err (EWrap (Some er) ''pool.use execute failed''),
         upd_metric (pe_assignments e (pe_name e)
           [(idle_key, chan_len (pl_chan p)), (use_key, pl_use p), (acc_err_key, pl_accErr p)]) p)
    | Ok v \<Rightarrow>
        let p = set_gauges e (p\<lparr>pl_use := pl_use p - 1\<rparr>) in
        if pl_isClose p then (Ok v, p)
        else if chan_len (pl_chan p) < pl_realMax p then
          (case send (mk item) (pl_chan p) of
            Ok ch \<Rightarrow> (Ok v, set_gauges e (p\<lparr>pl_chan := ch\<rparr>))
          | Err er \<Rightarrow> (Err er, p)
          | Panic x \<Rightarrow> (Panic x, p))
        else (Ok v, set_gauges e (close_item e item p)))"

definition use_with ::
    "('w, 'c, 'm) pool_env \<Rightarrow> ('t \<Rightarrow> 'c) \<Rightarrow> (('w, 't, 'm) pool, 'c) goS \<Rightarrow> ('c \<Rightarrow> 't) \<Rightarrow>
     ('c \<Rightarrow> ('w, 'r) goS) \<Rightarrow> (('w, 't, 'm) pool, 'r) goS" where
  "use_with e data get mk useFn p =
    (if pl_isClose p then (Err (sentinel_err ClosedError ''SyncExpirePool already closed''), p)
     else if pe_done e (pl_world p)
     then (case pool_close e data p of
         (Panic x, p) \<Rightarrow> (Panic x, p)
       | (_, p) \<Rightarrow> (Err (sentinel_err ClosedError ''SyncExpirePool already camcel context''), p))
     else bindS get (\<lambda>item p.
       let p = set_gauges e (p\<lparr>pl_use := pl_use p + 1\<rparr>) in
       case on_pool_world (useFn item) p of (r, p) \<Rightarrow> finish e mk item r p) (init_pool e p))"

definition simple_use ::
    "('w, 'c, 'm) pool_env \<Rightarrow> ('c \<Rightarrow> ('w, 'r) goS) \<Rightarrow> (('w, 'c, 'm) pool, 'r) goS" where
  "simple_use e = use_with e id (simple_get e) id"

section \<open>TimeoutPoolExtension.Use\<close>

text \<open>
  Durations are nanoseconds.  \<^verbatim>\<open>time.Now().Second()\<close> is the second within the minute:
  \<open>sec\<close> is its reading when the item is taken, \<open>sec'\<close> when it is put back.
\<close>

record 'c timeout_item =
  ti_data :: 'c
  ti_last :: int

type_synonym ('w, 'c, 'm) timeout_pool = "('w, 'c timeout_item, 'm) pool"

definition nanos :: "int \<Rightarrow> int" where
  "nanos s = s * 1000000000"

definition expired :: "int \<Rightarrow> int \<Rightarrow> 'c timeout_item \<Rightarrow> bool" where
  "expired idleTimeout sec item \<longleftrightarrow> 0 < idleTimeout \<and> ti_last item \<noteq> 0 \<and> idleTimeout < nanos sec - ti_last item"

text \<open>\<^verbatim>\<open>getLoop\<close>: items past their time are closed until one is not, or none is left.\<close>

fun timeout_scan ::
    "('w, 'c, 'm) pool_env \<Rightarrow> int \<Rightarrow> int \<Rightarrow> 'c timeout_item list \<Rightarrow> (('w, 'c, 'm) timeout_pool, 'c) goS" where
  "timeout_scan e idleTimeout sec [] p =
    (case try_receive (pl_chan p) of
      (ZeroItem, ch) \<Rightarrow> (Ok (pe_zero e), p)
    | (r, ch) \<Rightarrow> gen_item e p)"
| "timeout_scan e idleTimeout sec (x # xs) p =
    (let p = p\<lparr>pl_chan := snd (try_receive (pl_chan p))\<rparr> in
     if expired idleTimeout sec x
     then timeout_scan e idleTimeout sec xs
       (upd_metric (pe_assignment e (pe_name e) idle_key (chan_len (pl_chan p))) (close_item e (ti_data x) p))
     else (Ok (ti_data x), p))"

definition timeout_get ::
    "('w, 'c, 'm) pool_env \<Rightarrow> int \<Rightarrow> int \<Rightarrow> (('w, 'c, 'm) timeout_pool, 'c) goS" where
  "timeout_get e idleTimeout sec p =
    timeout_scan e idleTimeout sec (case pl_chan p of None \<Rightarrow> [] | Some c \<Rightarrow> ch_queue c) p"

definition timeout_use ::
    "('w, 'c, 'm) pool_env \<Rightarrow> int \<Rightarrow> int \<Rightarrow> int \<Rightarrow> ('c \<Rightarrow> ('w, 'r) goS) \<Rightarrow>
     (('w, 'c, 'm) timeout_pool, 'r) goS" where
  "timeout_use e idleTimeout sec sec' =
    use_with e ti_data (timeout_get e idleTimeout sec) (\<lambda>c. \<lparr>ti_data = c, ti_last = nanos sec'\<rparr>)"

text \<open>\<^verbatim>\<open>Close\<close> is the simple pool's.\<close>

definition timeout_close :: "('w, 'c, 'm) pool_env \<Rightarrow> (('w, 'c, 'm) timeout_pool, unit) goS" where
  [simp]: "timeout_close e = pool_close e ti_data"

section \<open>The timeout pool is a simple pool\<close>

text \<open>Forgetting the time stamps.\<close>

definition abs_chan :: "'c timeout_item chan option \<Rightarrow> 'c chan option" where
  "abs_chan ch = map_option (\<lambda>c. \<lparr>ch_queue = map ti_data (ch_queue c), ch_closed = ch_closed c\<rparr>) ch"

definition abs_pool :: "('w, 'c timeout_item, 'm) pool \<Rightarrow> ('w, 'c, 'm) pool" where
  "abs_pool p = \<lparr>pl_isInit = pl_isInit p, pl_isClose = pl_isClose p, pl_chan = abs_chan (pl_chan p),
     pl_use = pl_use p, pl_accErr = pl_accErr p, pl_realMax = pl_realMax p, pl_metric = pl_metric p,
     pl_world = pl_world p\<rparr>"

definition abs_res :: "'a go \<times> ('w, 'c timeout_item, 'm) pool \<Rightarrow> 'a go \<times> ('w, 'c, 'm) pool" where
  "abs_res rp = (fst rp, abs_pool (snd rp))"

lemma abs_pool_sel [simp]:
  "pl_isInit (abs_pool p) = pl_isInit p" "pl_isClose (abs_pool p) = pl_isClose p"
  "pl_chan (abs_pool p) = abs_chan (pl_chan p)" "pl_use (abs_pool p) = pl_use p"
  "pl_accErr (abs_pool p) = pl_accErr p" "pl_realMax (abs_pool p) = pl_realMax p"
  "pl_metric (abs_pool p) = pl_metric p" "pl_world (abs_pool p) = pl_world p"
  by (simp_all add: abs_pool_def)

lemma abs_pool_upd [simp]:
  "abs_pool (p\<lparr>pl_use := u\<rparr>) = (abs_pool p)\<lparr>pl_use := u\<rparr>"
  "abs_pool (p\<lparr>pl_accErr := n\<rparr>) = (abs_pool p)\<lparr>pl_accErr := n\<rparr>"
  "abs_pool (p\<lparr>pl_world := w\<rparr>) = (abs_pool p)\<lparr>pl_world := w\<rparr>"
  "abs_pool (p\<lparr>pl_chan := ch\<rparr>) = (abs_pool p)\<lparr>pl_chan := abs_chan ch\<rparr>"
  "abs_pool (p\<lparr>pl_isInit := b\<rparr>) = (abs_pool p)\<lparr>pl_isInit := b\<rparr>"
  "abs_pool (p\<lparr>pl_isClose := b\<rparr>) = (abs_pool p)\<lparr>pl_isClose := b\<rparr>"
  "abs_pool (p\<lparr>pl_realMax := n\<rparr>) = (abs_pool p)\<lparr>pl_realMax := n\<rparr>"
  "abs_pool (p\<lparr>pl_metric := m\<rparr>) = (abs_pool p)\<lparr>pl_metric := m\<rparr>"
  by (simp_all add: abs_pool_def)

lemma abs_chan_simps [simp]:
  "abs_chan None = None" "abs_chan (Some c) = Some \<lparr>ch_queue = map ti_data (ch_queue c), ch_closed = ch_closed c\<rparr>"
  "chan_len (abs_chan ch) = chan_len ch" "abs_chan ch = None \<longleftrightarrow> ch = None"
  by (auto simp: abs_chan_def chan_len_def split: option.split)

lemma abs_steps [simp]:
  "abs_pool (upd_metric f p) = upd_metric f (abs_pool p)"
  "abs_pool (set_gauges e p) = set_gauges e (abs_pool p)"
  "abs_pool (close_item e c p) = close_item e c (abs_pool p)"
  "abs_pool (init_pool e p) = init_pool e (abs_pool p)"
  by (simp_all add: upd_metric_def set_gauges_def close_item_def init_pool_def Let_def)

lemma abs_on_world: "abs_res (on_pool_world m p) = on_pool_world m (abs_pool p)"
  by (simp add: abs_res_def on_pool_world_def split: prod.split)

lemma abs_gen_item: "abs_res (gen_item e p) = gen_item e (abs_pool p)"
  by (auto simp: gen_item_def pool_gen_def abs_res_def wrapS_def on_pool_world_def Let_def split: prod.splits go.splits)

lemma abs_finish: "abs_res (finish e mk item r p) = finish e (\<lambda>c. ti_data (mk c)) item r (abs_pool p)"
proof (cases r)
  case (Ok v)
  then show ?thesis
    by (cases "pl_chan p") (auto simp: finish_def abs_res_def Let_def send_def set_gauges_def upd_metric_def close_item_def)
qed (simp_all add: finish_def abs_res_def Let_def set_gauges_def upd_metric_def close_item_def)

lemma drain_abs: "drain e id (map data xs) w = drain e data xs w"
  by (induction e data xs w rule: drain.induct) simp_all

lemma abs_close: "abs_res (pool_close e ti_data p) = pool_close e id (abs_pool p)"
proof (cases "pl_chan p")
  case (Some c)
  then show ?thesis
    by (simp add: pool_close_def abs_res_def Let_def close_chan_def drain_abs)
qed (simp add: pool_close_def abs_res_def Let_def close_chan_def abs_pool_def upd_metric_def)

text \<open>Items put back within one minute are never past a limit of a minute or more.\<close>

definition stamped :: "('w, 'c timeout_item, 'm) pool \<Rightarrow> bool" where
  "stamped p \<longleftrightarrow> (\<forall>c. pl_chan p = Some c \<longrightarrow> (\<forall>x \<in> set (ch_queue c). 0 \<le> ti_last x))"

lemma not_expired: "0 \<le> ti_last x \<Longrightarrow> sec \<le> 59 \<Longrightarrow> nanos 60 \<le> idle \<Longrightarrow> \<not> expired idle sec x"
  by (simp add: expired_def nanos_def)

lemma abs_get:
  assumes "stamped p" "sec \<le> 59" "nanos 60 \<le> idle"
  shows "abs_res (timeout_get e idle sec p) = simple_get e (abs_pool p)"
proof (cases "pl_chan p")
  case None
  then show ?thesis
    by (simp add: timeout_get_def simple_get_def try_receive_def abs_gen_item)
next
  case (Some c)
  then show ?thesis
    using assms not_expired[of "hd (ch_queue c)" sec idle]
    by (cases "ch_queue c")
      (auto simp: timeout_get_def simple_get_def try_receive_def abs_gen_item[unfolded abs_res_def] stamped_def
        Let_def abs_res_def)
qed

lemma abs_use:
  assumes "stamped p" "sec \<le> 59" "nanos 60 \<le> idle"
  shows "abs_res (timeout_use e idle sec sec' f p) = simple_use e f (abs_pool p)"
proof -
  have st: "stamped (init_pool e p)"
    using assms(1) by (auto simp: stamped_def init_pool_def upd_metric_def Let_def)
  obtain r q where get: "timeout_get e idle sec (init_pool e p) = (r, q)" by fastforce
  then have sget: "simple_get e (init_pool e (abs_pool p)) = (r, abs_pool q)"
    using abs_get[OF st assms(2,3), of e] by (simp add: abs_res_def)
  have body: "abs_res (case on_pool_world (f i) (set_gauges e (q\<lparr>pl_use := pl_use q + 1\<rparr>)) of
        (r, p) \<Rightarrow> finish e (\<lambda>c. \<lparr>ti_data = c, ti_last = nanos sec'\<rparr>) i r p) =
      (case on_pool_world (f i) (set_gauges e ((abs_pool q)\<lparr>pl_use := pl_use q + 1\<rparr>)) of (r, p) \<Rightarrow> finish e id i r p)"
    for i
    using abs_on_world[of "f i" "set_gauges e (q\<lparr>pl_use := pl_use q + 1\<rparr>)", symmetric]
    by (cases "on_pool_world (f i) (set_gauges e (q\<lparr>pl_use := pl_use q + 1\<rparr>))")
      (simp add: abs_res_def abs_finish[unfolded abs_res_def] id_def)
  show ?thesis
    using abs_close[of e p] body get sget
    by (cases r) (auto simp: timeout_use_def simple_use_def use_with_def Let_def abs_res_def bindS_def split: prod.splits go.splits)
qed

text \<open>Every stamp in the channel comes from a reading of the clock.\<close>

lemma stamped_chan: "stamped p \<Longrightarrow> pl_chan q = pl_chan p \<Longrightarrow> stamped q"
  by (simp add: stamped_def)

lemma stamped_frame [simp]:
  "stamped (upd_metric g p) = stamped p" "stamped (set_gauges e p) = stamped p"
  "stamped (close_item e c p) = stamped p" "stamped (p\<lparr>pl_use := u\<rparr>) = stamped p"
  "stamped (p\<lparr>pl_accErr := n\<rparr>) = stamped p" "stamped (p\<lparr>pl_world := w\<rparr>) = stamped p"
  by (simp_all add: stamped_def upd_metric_def set_gauges_def close_item_def)

lemma stamped_gen_item: "gen_item e p = (r, q) \<Longrightarrow> stamped p \<Longrightarrow> stamped q"
  by (auto simp: gen_item_def pool_gen_def wrapS_def on_pool_world_def Let_def split: if_splits prod.splits go.splits)

lemma stamped_scan: "timeout_scan e idle sec xs p = (r, q) \<Longrightarrow> stamped p \<Longrightarrow> stamped q"
proof (induction e idle sec xs p rule: timeout_scan.induct)
  case (1 e idle sec p)
  then show ?case by (auto split: prod.splits received.splits intro: stamped_gen_item)
next
  case (2 e idle sec x xs p)
  have "stamped (p\<lparr>pl_chan := snd (try_receive (pl_chan p))\<rparr>)"
    using 2(3) by (auto simp: stamped_def try_receive_def split: option.splits list.splits)
  with 2 show ?case by (auto simp: Let_def split: if_splits)
qed

lemma stamped_finish:
  assumes "finish e mk i r p = (r', q)" "stamped p" "0 \<le> ti_last (mk i)"
  shows "stamped q"
proof (cases r)
  case (Ok v)
  have "stamped (p\<lparr>pl_chan := ch\<rparr>)" if "send (mk i) (pl_chan p) = Ok ch" for ch
    using that assms(2,3) by (auto simp: send_def stamped_def split: option.splits if_splits)
  with Ok assms show ?thesis
    by (auto simp: finish_def Let_def set_gauges_def upd_metric_def close_item_def stamped_def split: if_splits go.splits)
qed (use assms in \<open>auto simp: finish_def Let_def set_gauges_def upd_metric_def close_item_def stamped_def\<close>)

lemma stamped_close: "pool_close e d p = (r, q) \<Longrightarrow> stamped p \<Longrightarrow> stamped q"
  by (cases "pl_chan p") (auto simp: pool_close_def Let_def close_chan_def stamped_def upd_metric_def split: if_splits)

lemma stamped_use:
  assumes "stamped p" "0 \<le> sec'"
  shows "stamped (snd (timeout_use e idle sec sec' (f :: _ \<Rightarrow> (_, 'r) goS) p))"
proof -
  have st: "stamped (init_pool e p)"
    using assms(1) by (auto simp: stamped_def init_pool_def upd_metric_def Let_def)
  obtain r q where get: "timeout_get e idle sec (init_pool e p) = (r, q)" by fastforce
  then have sq: "stamped q" using stamped_scan st by (fastforce simp: timeout_get_def)
  have fin: "stamped (snd (finish e (\<lambda>c. \<lparr>ti_data = c, ti_last = nanos sec'\<rparr>) i b u))"
    if "stamped u" for i u and b :: "'r go"
    using stamped_finish[of e _ i b u] that assms(2) by (metis nanos_def prod.collapse timeout_item.select_convs(2) zero_le_mult_iff zero_le_numeral)
  have cl: "stamped (snd (pool_close e ti_data p))" using stamped_close assms(1) by (metis prod.collapse)
  show ?thesis
    using get sq fin cl assms(1)
    by (cases r) (auto simp: timeout_use_def use_with_def bindS_def Let_def on_pool_world_def split: prod.splits go.splits)
qed

text \<open>C27: The time-limited pool never drops a connection for its age.  Its clock is the second of
  the minute, so no age exceeds 59 seconds, and with a limit of a minute or more (the factory
  sets 61 seconds) \<^verbatim>\<open>Use\<close> is, result and state, \<^verbatim>\<open>Use\<close> of the simple
  pool; and the stamps it leaves are readings of that clock again, so this holds of every later
  \<^verbatim>\<open>Use\<close>.\<close>

theorem timeout_pool_is_simple_pool:
  assumes "stamped p" "0 \<le> sec'" "sec \<le> 59" "nanos 60 \<le> idleTimeout"
  shows "abs_res (timeout_use e idleTimeout sec sec' f p) = simple_use e f (abs_pool p) \<and>
    stamped (snd (timeout_use e idleTimeout sec sec' f p))"
  by (intro conjI abs_use stamped_use assms)

definition probe_env :: "int \<Rightarrow> (nat, nat, int simple_metric) pool_env" where
  "probe_env n = \<lparr>pe_name = ''p'', pe_gen = (\<lambda>w. (Ok w, Suc w)), pe_max = n, pe_done = (\<lambda>_. False),
     pe_zero = 0, pe_close = (\<lambda>_ w. w), pe_assignment = sme_assignment, pe_assignments = sme_assignments,
     pe_delete = sme_delete_from_name\<rparr>"

lemma timeout_pool_is_simple_pool_witness:
  "abs_res (timeout_use (probe_env 1) (nanos 61) 59 3 (\<lambda>c w. (Ok c, w))
      (new_pool None 5 \<lparr>pl_chan := Some \<lparr>ch_queue = [\<lparr>ti_data = 4, ti_last = nanos 0 + 1\<rparr>], ch_closed = False\<rparr>,
        pl_isInit := True, pl_realMax := 1\<rparr>)) =
   simple_use (probe_env 1) (\<lambda>c w. (Ok c, w))
      (new_pool None 5 \<lparr>pl_chan := Some \<lparr>ch_queue = [4], ch_closed = False\<rparr>,
        pl_isInit := True, pl_realMax := 1\<rparr>)"
proof -
  let ?p = "new_pool None 5 \<lparr>pl_chan := Some \<lparr>ch_queue = [\<lparr>ti_data = 4, ti_last = nanos 0 + 1\<rparr>], ch_closed = False\<rparr>,
      pl_isInit := True, pl_realMax := 1\<rparr> :: (nat, nat timeout_item, int simple_metric) pool"
  have "abs_res (timeout_use (probe_env 1) (nanos 61) 59 3 (\<lambda>c w. (Ok c, w)) ?p) =
      simple_use (probe_env 1) (\<lambda>c w. (Ok c, w)) (abs_pool ?p)"
    by (rule conjunct1, rule timeout_pool_is_simple_pool) (auto simp: nanos_def stamped_def)
  then show ?thesis by (simp add: abs_pool_def new_pool_def)
qed

section \<open>One caller at a time\<close>

definition pool_ok :: "('w, 'c, 'm) pool_env \<Rightarrow> ('w, 't, 'm) pool \<Rightarrow> bool" where
  "pool_ok e p \<longleftrightarrow> (pl_isInit p \<longleftrightarrow> pl_chan p \<noteq> None) \<and>
    (\<forall>c. pl_chan p = Some c \<longrightarrow> pl_realMax p = real_max e \<and> int (length (ch_queue c)) \<le> real_max e \<and>
      ch_closed c = pl_isClose p \<and> (pl_isClose p \<longrightarrow> ch_queue c = []))"

lemma pool_ok_new [simp]: "pool_ok e (new_pool m w)"
  by (simp add: pool_ok_def new_pool_def)

lemma pool_frame [simp]:
  "pool_ok e (upd_metric g p) = pool_ok e p" "pool_ok e (set_gauges e' p) = pool_ok e p"
  "pool_ok e (close_item e' c p) = pool_ok e p" "pool_ok e (p\<lparr>pl_use := u\<rparr>) = pool_ok e p"
  "pool_ok e (p\<lparr>pl_accErr := n\<rparr>) = pool_ok e p" "pool_ok e (p\<lparr>pl_world := w\<rparr>) = pool_ok e p"
  by (simp_all add: pool_ok_def upd_metric_def set_gauges_def close_item_def)

lemma pool_sel [simp]:
  "pl_chan (upd_metric g p) = pl_chan p" "pl_chan (set_gauges e p) = pl_chan p" "pl_chan (close_item e c p) = pl_chan p"
  "pl_isClose (upd_metric g p) = pl_isClose p" "pl_isClose (set_gauges e p) = pl_isClose p"
  "pl_isClose (close_item e c p) = pl_isClose p"
  "pl_use (upd_metric g p) = pl_use p" "pl_use (set_gauges e p) = pl_use p" "pl_use (close_item e c p) = pl_use p"
  "pl_realMax (upd_metric g p) = pl_realMax p" "pl_realMax (set_gauges e p) = pl_realMax p"
  "pl_realMax (close_item e c p) = pl_realMax p" "pl_accErr (close_item e c p) = pl_accErr p"
  "pl_accErr (set_gauges e p) = pl_accErr p" "pl_accErr (upd_metric g p) = pl_accErr p" "pl_metric (close_item e c p) = pl_metric p"
  "pl_metric (upd_metric g p) = g (pl_metric p)"
  "pl_isInit (upd_metric g p) = pl_isInit p" "pl_isInit (set_gauges e p) = pl_isInit p"
  "pl_isInit (close_item e c p) = pl_isInit p"
  by (simp_all add: upd_metric_def set_gauges_def close_item_def)

text \<open>An open, initialised pool: what the middle of \<^verbatim>\<open>Use\<close> works on.\<close>

definition running :: "('w, 'c, 'm) pool_env \<Rightarrow> ('w, 't, 'm) pool \<Rightarrow> bool" where
  "running e p \<longleftrightarrow> pool_ok e p \<and> \<not> pl_isClose p \<and> pl_chan p \<noteq> None"

lemma running_init: "pool_ok e p \<Longrightarrow> \<not> pl_isClose p \<Longrightarrow> running e (init_pool e p)"
  by (auto simp: running_def init_pool_def Let_def pool_ok_def upd_metric_def real_max_def)

lemma init_pool_use [simp]: "pl_use (init_pool e p) = pl_use p"
  by (simp add: init_pool_def Let_def upd_metric_def)

lemma simple_get_running:
  assumes "running e p" "simple_get e p = (r, q)"
  shows "running e q \<and> pl_use q = pl_use p \<and> (is_panic r \<longrightarrow> (\<exists>w. is_panic (fst (pe_gen e w))))"
proof -
  obtain c where c: "pl_chan p = Some c" using assms(1) by (auto simp: running_def)
  show ?thesis
  proof (cases "ch_queue c")
    case (Cons x xs)
    then show ?thesis
      using assms c by (auto simp: simple_get_def try_receive_def running_def pool_ok_def)
  next
    case Nil
    obtain g w where g: "pe_gen e (pl_world p) = (g, w)" by fastforce
    then have "is_panic g \<Longrightarrow> \<exists>w. is_panic (fst (pe_gen e w))" by (metis fst_conv)
    then show ?thesis
      using assms c Nil g
      by (cases g) (auto simp: simple_get_def try_receive_def running_def pool_ok_def gen_item_def pool_gen_def
        wrapS_def on_pool_world_def Let_def upd_metric_def)
  qed
qed

lemma finish_running:
  assumes "running e p" "finish e id i r p = (r', q)"
  shows "pool_ok e q \<and> (is_panic r' \<longrightarrow> is_panic r) \<and> (\<not> is_panic r \<longrightarrow> pl_use q = pl_use p - 1)"
proof -
  obtain c where c: "pl_chan p = Some c" "\<not> ch_closed c" "\<not> pl_isClose p"
      "pl_realMax p = real_max e" "int (length (ch_queue c)) \<le> real_max e"
    using assms(1) by (auto simp: running_def pool_ok_def)
  show ?thesis
  proof (cases r)
    case (Ok v)
    show ?thesis
    proof (cases "int (length (ch_queue c)) < real_max e")
      case True
      then show ?thesis
        using assms c Ok by (auto simp: finish_def Let_def send_def running_def pool_ok_def)
    next
      case False
      then show ?thesis
        using assms c Ok by (auto simp: finish_def Let_def send_def running_def)
    qed
  qed (use assms in \<open>auto simp: finish_def Let_def running_def\<close>)
qed

lemma pool_close_ok:
  assumes "pool_ok e p" "pool_close e data p = (r, q)"
  shows "pool_ok e q \<and> pl_isClose q \<and> \<not> is_panic r \<and> pl_use q = pl_use p \<and>
    (\<not> pl_isClose p \<longrightarrow> pl_world q = drain e data (case pl_chan p of None \<Rightarrow> [] | Some c \<Rightarrow> ch_queue c) (pl_world p) \<and>
      pl_metric q = pe_delete e (pe_name e) (pl_metric p))"
proof (cases "pl_isClose p")
  case True
  with assms show ?thesis by (auto simp: pool_close_def)
next
  case False
  with assms show ?thesis
    by (cases "pl_chan p") (auto simp: pool_close_def Let_def close_chan_def pool_ok_def upd_metric_def)
qed

lemma simple_use_kept:
  assumes "pool_ok e p" "\<And>w. \<not> is_panic (fst (pe_gen e w))" "\<And>c w. \<not> is_panic (fst (f c w))"
  shows "pool_ok e (snd (simple_use e f p)) \<and> \<not> is_panic (fst (simple_use e f p)) \<and>
    pl_use (snd (simple_use e f p)) = pl_use p"
proof -
  obtain r q where cl: "pool_close e id p = (r, q)" by fastforce
  note close = pool_close_ok[OF assms(1) cl]
  show ?thesis
  proof (cases "pl_isClose p \<or> pe_done e (pl_world p)")
    case True
    then show ?thesis using close cl assms(1) by (cases r) (auto simp: simple_use_def use_with_def)
  next
    case False
    then have run: "running e (init_pool e p)" using running_init[OF assms(1)] by simp
    obtain g p1 where g: "simple_get e (init_pool e p) = (g, p1)" by fastforce
    note get = simple_get_running[OF run g]
    show ?thesis
    proof (cases g)
      case (Ok item)
      obtain u w where u: "f item (pl_world p1) = (u, w)" by fastforce
      let ?p2 = "(set_gauges e (p1\<lparr>pl_use := pl_use p1 + 1\<rparr>))\<lparr>pl_world := w\<rparr>"
      have wld: "pl_world (set_gauges e (p1\<lparr>pl_use := pl_use p1 + 1\<rparr>)) = pl_world p1"
        by (simp add: set_gauges_def upd_metric_def)
      obtain r' q' where fin: "finish e id item u ?p2 = (r', q')" by fastforce
      have "running e ?p2" using get by (simp add: running_def)
      from finish_running[OF this fin] have fin': "pool_ok e q'" "\<not> is_panic r'" "pl_use q' = pl_use p"
        using assms(3)[of item "pl_world p1"] u get by auto
      have "simple_use e f p = (r', q')"
        using False g Ok fin u wld by (simp add: simple_use_def use_with_def Let_def on_pool_world_def)
      with fin' show ?thesis by simp
    qed (use False g get assms(2) in \<open>auto simp: simple_use_def use_with_def running_def\<close>)
  qed
qed

text \<open>C7: Called by one thread at a time, a pool keeps at most its capacity of idle items and an
  open channel until it is closed; neither \<^verbatim>\<open>Use\<close> nor \<^verbatim>\<open>Close\<close> panics
  unless the generator or the callback does; after \<^verbatim>\<open>Use\<close> the use count is what it was
  before; a closed pool refuses every \<^verbatim>\<open>Use\<close> and changes nothing.\<close>

theorem simple_pool_safe:
  assumes "pool_ok e p" "\<And>w. \<not> is_panic (fst (pe_gen e w))" "\<And>c w. \<not> is_panic (fst (f c w))"
  shows "pool_ok e (snd (simple_use e f p)) \<and> \<not> is_panic (fst (simple_use e f p)) \<and>
    pl_use (snd (simple_use e f p)) = pl_use p \<and>
    pool_ok e (snd (pool_close e id p)) \<and> \<not> is_panic (fst (pool_close e id p)) \<and>
    (pl_isClose p \<longrightarrow> simple_use e f p = (Err (sentinel_err ClosedError ''SyncExpirePool already closed''), p))"
proof -
  obtain r q where cl: "pool_close e id p = (r, q)" by fastforce
  have "simple_use e f p = (Err (sentinel_err ClosedError ''SyncExpirePool already closed''), p)" if "pl_isClose p"
    using that by (simp add: simple_use_def use_with_def)
  with simple_use_kept[OF assms] pool_close_ok[OF assms(1) cl] cl show ?thesis by simp
qed

lemma simple_pool_safe_witness:
  "pool_ok (probe_env 1) (snd (simple_use (probe_env 1) (\<lambda>c w. (Ok c, w)) (new_pool None 5)))"
  using simple_pool_safe[OF pool_ok_new, of "probe_env 1" "\<lambda>c w. (Ok c, w)" None 5] by (simp add: probe_env_def)

section \<open>The gauges\<close>

definition simple_metrics :: "('w, 'c, int simple_metric) pool_env \<Rightarrow> bool" where
  "simple_metrics e \<longleftrightarrow> pe_assignment e = sme_assignment \<and> pe_assignments e = sme_assignments \<and>
    pe_delete e = sme_delete_from_name"

text \<open>What is published under the pool's name: the failures so far and, once it is initialised, the
  capacity; while it is open also the idle items and the uses; nothing when it is closed.\<close>

definition counters_ok :: "('w, 'c, int simple_metric) pool_env \<Rightarrow> ('w, 't, int simple_metric) pool \<Rightarrow> bool" where
  "counters_ok e p \<longleftrightarrow> sme_wf (pl_metric p) \<and> sme_get (pl_metric p) (pe_name e) acc_err_key = pl_accErr p \<and>
    (pl_isInit p \<longrightarrow> sme_get (pl_metric p) (pe_name e) full_key = pl_realMax p)"

definition gauges_ok :: "('w, 'c, int simple_metric) pool_env \<Rightarrow> ('w, 't, int simple_metric) pool \<Rightarrow> bool" where
  "gauges_ok e p \<longleftrightarrow>
    (if pl_isClose p then sme_wf (pl_metric p) \<and> (\<forall>k. sme_get (pl_metric p) (pe_name e) k = 0)
     else counters_ok e p \<and>
       sme_get (pl_metric p) (pe_name e) idle_key = chan_len (pl_chan p) \<and>
       sme_get (pl_metric p) (pe_name e) use_key = pl_use p)"

lemma keys_distinct [simp]: "idle_key \<noteq> use_key" "idle_key \<noteq> acc_err_key" "use_key \<noteq> acc_err_key"
    "idle_key \<noteq> full_key" "use_key \<noteq> full_key" "use_key \<noteq> idle_key" "acc_err_key \<noteq> use_key"
    "acc_err_key \<noteq> idle_key" "full_key \<noteq> idle_key" "full_key \<noteq> use_key" "full_key \<noteq> acc_err_key" "acc_err_key \<noteq> full_key"
  by (simp_all add: idle_key_def use_key_def acc_err_key_def full_key_def)

lemma counters_wf: "counters_ok e p \<Longrightarrow> sme_wf (pl_metric p)"
  by (simp add: counters_ok_def)

lemma counters_frame [simp]:
  "counters_ok e (p\<lparr>pl_use := u\<rparr>) = counters_ok e p" "counters_ok e (p\<lparr>pl_world := w\<rparr>) = counters_ok e p"
  "counters_ok e (p\<lparr>pl_chan := ch\<rparr>) = counters_ok e p" "counters_ok e (close_item e' c p) = counters_ok e p"
  by (simp_all add: counters_ok_def close_item_def)

lemma counters_set:
  assumes "simple_metrics e" "counters_ok e p"
  shows "counters_ok e (set_gauges e p)"
  using assms simple.get_assignments[OF counters_wf[OF assms(2)]] simple.inv_ops(4)[OF counters_wf[OF assms(2)]]
  by (simp add: counters_ok_def set_gauges_def simple_metrics_def upd_metric_def)

lemma gauges_set:
  assumes "simple_metrics e" "counters_ok e p" "\<not> pl_isClose p"
  shows "gauges_ok e (set_gauges e p)"
  using assms counters_set[OF assms(1,2)]
    simple.get_two_gauges[OF counters_wf[OF assms(2)], of idle_key use_key "pe_name e" "chan_len (pl_chan p)" "pl_use p"]
  by (simp add: gauges_ok_def set_gauges_def simple_metrics_def)

lemma gauges_init:
  assumes "simple_metrics e" "gauges_ok e p" "\<not> pl_isClose p"
  shows "gauges_ok e (init_pool e p)"
proof -
  have c: "counters_ok e p" using assms(2,3) by (simp add: gauges_ok_def)
  show ?thesis
    using assms c simple.inv_ops(3)[OF counters_wf[OF c]] simple.get_assignment[OF counters_wf[OF c]]
    by (auto simp: gauges_ok_def counters_ok_def init_pool_def Let_def upd_metric_def simple_metrics_def)
qed

lemma gauges_get:
  assumes "simple_metrics e" "gauges_ok e p" "\<not> pl_isClose p" "simple_get e p = (r, q)"
  shows "counters_ok e q \<and> (\<forall>er. r = Err er \<longrightarrow> gauges_ok e q)"
proof -
  have c: "counters_ok e p" using assms(2,3) by (simp add: gauges_ok_def)
  obtain g w where g: "pe_gen e (pl_world p) = (g, w)" by fastforce
  show ?thesis
    using assms c g simple.inv_ops(3)[OF counters_wf[OF c]] simple.get_assignment[OF counters_wf[OF c]]
    by (cases g) (auto simp: simple_get_def gen_item_def pool_gen_def wrapS_def on_pool_world_def Let_def
      gauges_ok_def counters_ok_def simple_metrics_def upd_metric_def try_receive_def
      split: option.splits list.splits if_splits)
qed

lemma gauges_finish:
  assumes "simple_metrics e" "counters_ok e p" "running e p" "finish e id i r p = (r', q)" "\<not> is_panic r"
  shows "gauges_ok e q"
proof -
  let ?p = "set_gauges e (p\<lparr>pl_use := pl_use p - 1\<rparr>)"
  have open_p: "\<not> pl_isClose p" using assms(3) by (simp add: running_def)
  have c: "counters_ok e ?p" using assms(1,2) by (simp add: counters_set)
  show ?thesis
  proof (cases r)
    case (Ok v)
    then show ?thesis
      using assms(3,4) c open_p
      by (auto simp: finish_def Let_def send_def running_def pool_ok_def split: if_splits intro!: gauges_set[OF assms(1)])
  next
    case (Err er)
    then show ?thesis
      using assms(1,4) c open_p simple.inv_ops(4)[OF counters_wf[OF c]] simple.get_assignments[OF counters_wf[OF c]]
      by (auto simp: finish_def Let_def gauges_ok_def counters_ok_def simple_metrics_def)
  qed (use assms(5) in simp)
qed

lemma gauges_close:
  assumes "simple_metrics e" "pool_ok e p" "gauges_ok e p" "pool_close e data p = (r, q)"
  shows "gauges_ok e q"
proof (cases "pl_isClose p")
  case True
  with assms(3,4) show ?thesis by (simp add: pool_close_def)
next
  case False
  with assms(3) have wf: "sme_wf (pl_metric p)" by (simp add: gauges_ok_def counters_ok_def)
  from False show ?thesis
    using pool_close_ok[OF assms(2,4)] assms(1) simple.inv_ops(5)[OF wf] simple.get_delete[OF wf]
    by (simp add: gauges_ok_def simple_metrics_def)
qed

lemma gauges_use:
  assumes "simple_metrics e" "pool_ok e p" "gauges_ok e p"
    and "\<And>w. \<not> is_panic (fst (pe_gen e w))" "\<And>c w. \<not> is_panic (fst (f c w))"
  shows "gauges_ok e (snd (simple_use e f p))"
proof (cases "pl_isClose p \<or> pe_done e (pl_world p)")
  case True
  obtain r q where cl: "pool_close e id p = (r, q)" by fastforce
  show ?thesis
    using True cl assms(3) gauges_close[OF assms(1-3) cl] by (cases r) (auto simp: simple_use_def use_with_def)
next
  case False
  have run: "running e (init_pool e p)" using running_init[OF assms(2)] False by simp
  then have op: "\<not> pl_isClose (init_pool e p)" by (simp add: running_def)
  obtain g p1 where g: "simple_get e (init_pool e p) = (g, p1)" by fastforce
  have ini: "gauges_ok e (init_pool e p)" using gauges_init[OF assms(1,3)] False by simp
  note get = simple_get_running[OF run g] gauges_get[OF assms(1) ini op g]
  show ?thesis
  proof (cases g)
    case (Ok item)
    let ?p2 = "set_gauges e (p1\<lparr>pl_use := pl_use p1 + 1\<rparr>)"
    have wld: "pl_world ?p2 = pl_world p1" by (simp add: set_gauges_def upd_metric_def)
    obtain u w where u: "f item (pl_world p1) = (u, w)" by fastforce
    let ?p3 = "?p2\<lparr>pl_world := w\<rparr>"
    have run2: "running e ?p3" using get(1) by (simp add: running_def)
    have c: "counters_ok e ?p3" using get(2) assms(1) by (simp add: counters_set)
    obtain r' q' where fin: "finish e id item u ?p3 = (r', q')" by fastforce
    have "\<not> is_panic u" using assms(5)[of item "pl_world p1"] u by simp
    from gauges_finish[OF assms(1) c run2 fin this] show ?thesis
      using False g Ok fin u wld by (simp add: simple_use_def use_with_def Let_def on_pool_world_def)
  next
    case (Panic x)
    then show ?thesis using get(1) assms(4) by simp
  qed (use False g get in \<open>auto simp: simple_use_def use_with_def\<close>)
qed

text \<open>Calls on a pool, one after the other: \<^verbatim>\<open>Use\<close> with a callback, \<^verbatim>\<open>Close\<close>.\<close>

datatype ('w, 'c, 'r) pool_call = UseCall "'c \<Rightarrow> ('w, 'r) goS" | CloseCall

fun pool_do :: "('w, 'c, 'm) pool_env \<Rightarrow> ('w, 'c, 'r) pool_call \<Rightarrow> ('w, 'c, 'm) pool \<Rightarrow> ('w, 'c, 'm) pool" where
  "pool_do e (UseCall f) p = snd (simple_use e f p)"
| "pool_do e CloseCall p = snd (pool_close e id p)"

fun calm_call :: "('w, 'c, 'r) pool_call \<Rightarrow> bool" where
  "calm_call (UseCall f) \<longleftrightarrow> (\<forall>c w. \<not> is_panic (fst (f c w)))"
| "calm_call CloseCall \<longleftrightarrow> True"

lemma pool_do_keeps:
  assumes "simple_metrics e" "\<And>w. \<not> is_panic (fst (pe_gen e w))" "calm_call call" "pool_ok e p" "gauges_ok e p"
  shows "pool_ok e (pool_do e call p) \<and> gauges_ok e (pool_do e call p)"
proof (cases call)
  case (UseCall f)
  then have f: "\<And>c w. \<not> is_panic (fst (f c w))" using assms(3) by simp
  show ?thesis using UseCall simple_use_kept[OF assms(4,2) f] gauges_use[OF assms(1,4,5,2) f] by simp
next
  case CloseCall
  obtain r q where cl: "pool_close e id p = (r, q)" by fastforce
  show ?thesis using CloseCall cl pool_close_ok[OF assms(4) cl] gauges_close[OF assms(1,4,5) cl] by simp
qed

text \<open>C31: The gauges are exact after every sequence of uses and closes of a new pool, also of uses that
  fail or find the context done, as long as no generator and no callback panics (a panic leaves the use
  counted): while the pool is open the metrics under its name are the number of idle items, the number
  of items in use, the failures so far and, from the first use on, the capacity; once it is closed there
  is nothing under its name.\<close>

theorem pool_gauges_exact:
  assumes "simple_metrics e" "\<And>w. \<not> is_panic (fst (pe_gen e w))" "\<forall>call \<in> set calls. calm_call call"
    and "sme_wf m" "\<And>k. sme_get m (pe_name e) k = 0"
  shows "gauges_ok e (fold (pool_do e) calls (new_pool m w))"
proof -
  have kept: "pool_ok e (fold (pool_do e) calls p) \<and> gauges_ok e (fold (pool_do e) calls p)" if "pool_ok e p" "gauges_ok e p" for p
    using assms(3) that
  proof (induction calls arbitrary: p)
    case (Cons call calls)
    then have "calm_call call" "\<forall>c \<in> set calls. calm_call c" by simp_all
    with Cons.IH[of "pool_do e call p"] pool_do_keeps[OF assms(1,2) _ Cons.prems(2,3), of call] show ?case by simp
  qed simp
  have "gauges_ok e (new_pool m w)"
    using assms(4,5) by (simp add: gauges_ok_def counters_ok_def new_pool_def)
  from kept[OF pool_ok_new this] show ?thesis by simp
qed

lemma pool_gauges_exact_witness:
  "gauges_ok (probe_env 1) (fold (pool_do (probe_env 1))
     [UseCall (\<lambda>c w. (Ok c, w)), UseCall (\<lambda>c w. (Err (ESys ''bad''), w)), UseCall (\<lambda>c w. (Ok c, w)), CloseCall] (new_pool None 5))"
  by (rule pool_gauges_exact) (simp_all add: probe_env_def simple_metrics_def sme_get_def)

text \<open>The world changes only where a connection is closed.\<close>

lemma world_upd [simp]:
  "pl_world (set_gauges e p) = pl_world p" "pl_world (upd_metric f p) = pl_world p"
  "pl_world (init_pool e p) = pl_world p" "pl_world (close_item e c p) = pe_close e c (pl_world p)"
  by (simp_all add: set_gauges_def upd_metric_def init_pool_def close_item_def Let_def)

end
