(* ===== verification/Pool_Interleaving.thy ===== *)
theory Pool_Interleaving
  imports Prelude "HOL-Library.Multiset"
begin

text \<open>
  \<^verbatim>\<open>extension/pool/simple_pool.go\<close> (and \<^verbatim>\<open>timeout_pool.go\<close>, which differs
  only in the stamps) used by several goroutines: the interleavings of \<^verbatim>\<open>Use\<close> and
  \<^verbatim>\<open>Close\<close> on an initialised pool, one step per access to the shared state
  (\<^verbatim>\<open>isClose\<close>, the channel, the section under \<^verbatim>\<open>chanPushLock\<close>).

  Connections are numbered in the order they are generated; the zero value of the item type is
  \<open>ZeroVal\<close>.  A panic ends the process, so no step follows it.
\<close>

datatype item = Conn nat | ZeroVal

datatype pc =
    Idle
  | Entered
  | Generating
  | Using item
  | Returned item
  | Pushing item
  | Draining
  | Closing

record cpool =
  cs_isClose :: bool
  cs_queue :: "item list"
  cs_chanClosed :: bool
  cs_max :: nat
  cs_threads :: "pc list"
  cs_next :: nat
  cs_closedConns :: "item list"
  cs_lost :: "item list"
  cs_panic :: "panic option"

definition start :: "nat \<Rightarrow> nat \<Rightarrow> cpool" where
  "start mx n = \<lparr>cs_isClose = False, cs_queue = [], cs_chanClosed = False, cs_max = mx,
     cs_threads = replicate n Idle, cs_next = 0, cs_closedConns = [], cs_lost = [], cs_panic = None\<rparr>"

definition goto :: "nat \<Rightarrow> pc \<Rightarrow> cpool \<Rightarrow> cpool" where
  "goto t p s = s\<lparr>cs_threads := (cs_threads s)[t := p]\<rparr>"

text \<open>What a goroutine can do next.\<close>

datatype act =
    CallUse | TryReceive | RunGen | FailGen | CallbackOk | CallbackErr | LoadIsClose | PushLocked
  | CallClose | DrainOne | CloseChannel

definition close_conn :: "item \<Rightarrow> cpool \<Rightarrow> cpool" where
  "close_conn x s =
    (case x of ZeroVal \<Rightarrow> s\<lparr>cs_panic := Some PNilDeref\<rparr> | Conn c \<Rightarrow> s\<lparr>cs_closedConns := x # cs_closedConns s\<rparr>)"

fun exec_act :: "act \<Rightarrow> nat \<Rightarrow> pc \<Rightarrow> cpool \<Rightarrow> cpool option" where
  "exec_act CallUse t p s =
    (if p = Idle then Some (if cs_isClose s then s else goto t Entered s) else None)"
| "exec_act TryReceive t p s =
    (if p = Entered then
      (case cs_queue s of
        x # xs \<Rightarrow> Some (goto t (Using x) (s\<lparr>cs_queue := xs\<rparr>))
      | [] \<Rightarrow> Some (if cs_chanClosed s then goto t (Using ZeroVal) s else goto t Generating s))
     else None)"
| "exec_act RunGen t p s =
    (if p = Generating then
      Some (if cs_isClose s then goto t (Using ZeroVal) s
        else goto t (Using (Conn (cs_next s))) (s\<lparr>cs_next := Suc (cs_next s)\<rparr>))
     else None)"
| "exec_act FailGen t p s = (if p = Generating then Some (goto t Idle s) else None)"
| "exec_act CallbackOk t p s = (case p of Using x \<Rightarrow> Some (goto t (Returned x) s) | _ \<Rightarrow> None)"
| "exec_act CallbackErr t p s = (case p of Using x \<Rightarrow> Some (close_conn x (goto t Idle s)) | _ \<Rightarrow> None)"
| "exec_act LoadIsClose t p s =
    (case p of
      Returned x \<Rightarrow>
        Some (if cs_isClose s then (goto t Idle s)\<lparr>cs_lost := x # cs_lost s\<rparr> else goto t (Pushing x) s)
    | _ \<Rightarrow> None)"
| "exec_act PushLocked t p s =
    (case p of
      Pushing x \<Rightarrow>
        Some (if length (cs_queue s) < cs_max s then
            (if cs_chanClosed s then s\<lparr>cs_panic := Some PSendClosed\<rparr>
             else goto t Idle (s\<lparr>cs_queue := cs_queue s @ [x]\<rparr>))
          else close_conn x (goto t Idle s))
    | _ \<Rightarrow> None)"
| "exec_act CallClose t p s =
    (if p = Idle then Some (if cs_isClose s then s else goto t Draining (s\<lparr>cs_isClose := True\<rparr>)) else None)"
| "exec_act DrainOne t p s =
    (if p = Draining then
      (case cs_queue s of
        x # xs \<Rightarrow> Some (close_conn x (s\<lparr>cs_queue := xs\<rparr>))
      | [] \<Rightarrow> Some (goto t Closing s))
     else None)"
| "exec_act CloseChannel t p s =
    (if p = Closing then
      Some (if cs_chanClosed s then s\<lparr>cs_panic := Some PCloseClosed\<rparr> else goto t Idle (s\<lparr>cs_chanClosed := True\<rparr>))
     else None)"

definition step :: "nat \<times> act \<Rightarrow> cpool \<Rightarrow> cpool option" where
  "step ta s =
    (case ta of (t, a) \<Rightarrow>
      if cs_panic s = None \<and> t < length (cs_threads s) then exec_act a t (cs_threads s ! t) s else None)"

fun run_steps :: "(nat \<times> act) list \<Rightarrow> cpool \<Rightarrow> cpool option" where
  "run_steps [] s = Some s"
| "run_steps (ta # tas) s = Option.bind (step ta s) (run_steps tas)"

inductive reach :: "act set \<Rightarrow> cpool \<Rightarrow> cpool \<Rightarrow> bool" for A s0 where
  reach_start: "reach A s0 s0"
| reach_step: "reach A s0 s \<Longrightarrow> a \<in> A \<Longrightarrow> step (t, a) s = Some s' \<Longrightarrow> reach A s0 s'"

inductive_cases reachE: "reach A s0 s"

lemma reach_run: "reach A s0 s \<Longrightarrow> run_steps tas s = Some s' \<Longrightarrow> snd ` set tas \<subseteq> A \<Longrightarrow> reach A s0 s'"
proof (induction tas arbitrary: s)
  case (Cons ta tas)
  then obtain u where u: "step ta s = Some u" "run_steps tas u = Some s'" by (auto simp: bind_eq_Some_conv)
  have "reach A s0 u"
    using reach_step[of A s0 s "snd ta" "fst ta" u] Cons.prems u(1) by auto
  with Cons u(2) show ?case by simp
qed simp

section \<open>Ownership\<close>

text \<open>Where connections are: held by a goroutine, queued, closed, or dropped without closing.\<close>

fun held :: "pc \<Rightarrow> item list" where
  "held (Using x) = [x]"
| "held (Returned x) = [x]"
| "held (Pushing x) = [x]"
| "held p = []"

definition conns :: "item list \<Rightarrow> item multiset" where
  "conns xs = mset (filter (\<lambda>x. x \<noteq> ZeroVal) xs)"

definition everywhere :: "cpool \<Rightarrow> item multiset" where
  "everywhere s = conns (concat (map held (cs_threads s))) + conns (cs_queue s) +
     conns (cs_closedConns s) + conns (cs_lost s)"

definition owned_once :: "cpool \<Rightarrow> bool" where
  "owned_once s \<longleftrightarrow> everywhere s = conns (map Conn [0..<cs_next s])"

definition conns1 :: "item \<Rightarrow> item multiset" where
  "conns1 x = (if x = ZeroVal then {#} else {#x#})"

lemma conns_simps [simp]:
  "conns [] = {#}" "conns (x # xs) = conns1 x + conns xs" "conns (xs @ ys) = conns xs + conns ys"
  "conns1 (Conn c) = {#Conn c#}" "conns1 ZeroVal = {#}"
  by (simp_all add: conns_def conns1_def)

lemma goto_sel [simp]:
  "cs_isClose (goto t p s) = cs_isClose s" "cs_queue (goto t p s) = cs_queue s"
  "cs_chanClosed (goto t p s) = cs_chanClosed s" "cs_max (goto t p s) = cs_max s"
  "cs_next (goto t p s) = cs_next s" "cs_closedConns (goto t p s) = cs_closedConns s"
  "cs_lost (goto t p s) = cs_lost s" "cs_panic (goto t p s) = cs_panic s"
  "cs_threads (goto t p s) = (cs_threads s)[t := p]"
  by (simp_all add: goto_def)

lemma close_conn_sel [simp]:
  "cs_isClose (close_conn x s) = cs_isClose s" "cs_queue (close_conn x s) = cs_queue s"
  "cs_chanClosed (close_conn x s) = cs_chanClosed s" "cs_max (close_conn x s) = cs_max s"
  "cs_next (close_conn x s) = cs_next s" "cs_lost (close_conn x s) = cs_lost s"
  "cs_threads (close_conn x s) = cs_threads s"
  by (simp_all add: close_conn_def split: item.split)

lemma conns_close [simp]: "conns (cs_closedConns (close_conn x s)) = conns1 x + conns (cs_closedConns s)"
  by (simp add: close_conn_def split: item.split)

text \<open>Every step keeps the multiset of connections, except that generating adds the next one.\<close>

lemma exec_everywhere:
  assumes "exec_act a t (cs_threads s ! t) s = Some s'" "t < length (cs_threads s)" "owned_once s"
  shows "owned_once s'"
proof -
  obtain ps p qs where ts: "cs_threads s = ps @ p # qs" "length ps = t"
    using split_thread[OF assms(2)] by metis
  show ?thesis
    using assms(1,3) ts
    by (cases a) (auto simp: owned_once_def everywhere_def nth_append list_update_append ac_simps
      split: if_splits list.splits pc.splits)
qed

definition closers :: "pc list \<Rightarrow> nat" where
  "closers ps = length (filter (\<lambda>p. p = Draining \<or> p = Closing) ps)"

lemma closers_simps [simp]:
  "closers [] = 0" "closers (p # ps) = (if p = Draining \<or> p = Closing then 1 else 0) + closers ps"
  "closers (ps @ qs) = closers ps + closers qs"
  by (simp_all add: closers_def)

definition cpool_inv :: "cpool \<Rightarrow> bool" where
  "cpool_inv s \<longleftrightarrow> owned_once s \<and> length (cs_queue s) \<le> cs_max s \<and>
    closers (cs_threads s) + (if cs_chanClosed s then 1 else 0) = (if cs_isClose s then 1 else 0) \<and>
    cs_panic s \<in> {None, Some PSendClosed, Some PNilDeref}"

lemma close_conn_panic:
  "cs_panic s = None \<Longrightarrow> cs_panic (close_conn x s) = (if x = ZeroVal then Some PNilDeref else None)"
  by (simp add: close_conn_def split: item.split)

lemma exec_inv:
  assumes "exec_act a t (cs_threads s ! t) s = Some s'" "t < length (cs_threads s)" "cs_panic s = None" "cpool_inv s"
  shows "cpool_inv s'"
proof -
  obtain ps p qs where ts: "cs_threads s = ps @ p # qs" "length ps = t"
    using split_thread[OF assms(2)] by metis
  have "owned_once s'" using exec_everywhere[OF assms(1,2)] assms(4) by (simp add: cpool_inv_def)
  then show ?thesis
    using assms(1,3,4) ts
    by (cases a) (auto simp: cpool_inv_def nth_append list_update_append close_conn_panic
      split: if_splits list.splits pc.splits)
qed

lemma step_exec:
  "step (t, a) s = Some s' \<longleftrightarrow> cs_panic s = None \<and> t < length (cs_threads s) \<and> exec_act a t (cs_threads s ! t) s = Some s'"
  by (auto simp: step_def)

lemma cpool_inv_start: "cpool_inv (start mx n)"
proof -
  have "conns (concat (map held (replicate n Idle))) = {#}" "closers (replicate n Idle) = 0"
    by (induction n) simp_all
  then show ?thesis by (simp add: cpool_inv_def start_def owned_once_def everywhere_def)
qed

lemma reach_inv: "reach A (start mx n) s \<Longrightarrow> cpool_inv s"
  by (induction rule: reach.induct) (auto simp: cpool_inv_start step_exec exec_inv)

lemma reach_max: "reach A s0 s \<Longrightarrow> cs_max s = cs_max s0"
proof (induction rule: reach.induct)
  case (reach_step s a t s')
  then show ?case
    by (cases a) (auto simp: step_exec split: if_splits list.splits pc.splits)
qed simp

text \<open>C8: Whatever the interleaving of any number of callers, every connection the pool has
  generated is at exactly one place: held by one goroutine, queued once, closed once, or dropped;
  two callers never share one.  The queue never exceeds the capacity, and the channel is never
  closed twice.\<close>

theorem pool_ownership:
  assumes "reach A (start mx n) s"
  shows "everywhere s = mset (map Conn [0..<cs_next s]) \<and> length (cs_queue s) \<le> mx \<and>
    cs_panic s \<noteq> Some PCloseClosed"
proof -
  have "conns (map Conn xs) = mset (map Conn xs)" for xs by (induction xs) simp_all
  then show ?thesis
    using reach_inv[OF assms] reach_max[OF assms] by (auto simp: cpool_inv_def owned_once_def start_def)
qed

text \<open>While nobody closes the pool.\<close>

definition open_inv :: "cpool \<Rightarrow> bool" where
  "open_inv s \<longleftrightarrow> \<not> cs_isClose s \<and> \<not> cs_chanClosed s \<and> cs_lost s = [] \<and> cs_panic s = None \<and>
    ZeroVal \<notin> set (cs_queue s) \<and> ZeroVal \<notin> set (concat (map held (cs_threads s)))"

lemma exec_open:
  assumes "exec_act a t (cs_threads s ! t) s = Some s'" "t < length (cs_threads s)" "open_inv s" "a \<noteq> CallClose"
    "closers (cs_threads s) = 0"
  shows "open_inv s'"
proof -
  obtain ps p qs where ts: "cs_threads s = ps @ p # qs" "length ps = t"
    using split_thread[OF assms(2)] by metis
  show ?thesis
    using assms(1,3,4,5) ts
    by (cases a) (auto simp: open_inv_def nth_append list_update_append close_conn_panic
      split: if_splits list.splits pc.splits)
qed

text \<open>As long as nobody closes the pool, no interleaving panics, loses a connection or hands
  out a zero value.\<close>

theorem pool_without_close_safe:
  assumes "reach (- {CallClose}) (start mx n) s"
  shows "cs_panic s = None \<and> cs_lost s = [] \<and> ZeroVal \<notin> set (concat (map held (cs_threads s)))"
proof -
  have "open_inv s"
    using assms
  proof (induction rule: reach.induct)
    case reach_start
    have "concat (map held (replicate n Idle)) = []" by (induction n) simp_all
    then show ?case by (simp add: open_inv_def start_def)
  next
    case (reach_step s a t s')
    have "cpool_inv s" by (rule reach_inv[OF reach_step(1)])
    moreover have "\<not> cs_isClose s" using reach_step(4) by (simp add: open_inv_def)
    ultimately have "closers (cs_threads s) = 0" by (simp add: cpool_inv_def)
    with reach_step show ?case using exec_open[of a t s s'] by (simp add: step_exec)
  qed
  then show ?thesis by (simp add: open_inv_def)
qed

text \<open>C19: Closing races with a \<^verbatim>\<open>Use\<close> that has already seen the pool open: one caller
  and one closer suffice to send on the closed channel (a panic), and a connection whose callback
  ends after \<^verbatim>\<open>Close\<close> is neither closed nor kept.\<close>

theorem pool_close_races:
  shows "(\<exists>s. reach UNIV (start 1 2) s \<and> cs_panic s = Some PSendClosed) \<and>
    (\<exists>s. reach UNIV (start 1 2) s \<and> cs_panic s = None \<and> set (cs_threads s) = {Idle} \<and> cs_chanClosed s \<and>
      cs_next s = 1 \<and> cs_closedConns s = [] \<and> cs_queue s = [])"
proof -
  let ?use = "[(0, CallUse), (0, TryReceive), (0, RunGen), (0, CallbackOk)]"
  let ?close = "[(1, CallClose), (1, DrainOne), (1, CloseChannel)]"
  let ?race = "?use @ [(0, LoadIsClose)] @ ?close @ [(0, PushLocked)]"
  let ?late = "?use @ ?close @ [(0, LoadIsClose)]"
  have "\<exists>s. run_steps ?race (start 1 2) = Some s \<and> cs_panic s = Some PSendClosed"
    by (simp add: step_def start_def numeral_2_eq_2 goto_def)
  moreover have "\<exists>s. run_steps ?late (start 1 2) = Some s \<and> cs_panic s = None \<and> set (cs_threads s) = {Idle} \<and>
      cs_chanClosed s \<and> cs_next s = 1 \<and> cs_closedConns s = [] \<and> cs_queue s = []"
    by (simp add: step_def start_def numeral_2_eq_2 goto_def)
  ultimately show ?thesis
    using reach_run[OF reach_start[of UNIV "start 1 2"]] by blast
qed

lemma pool_ownership_witness:
  "\<exists>s. reach UNIV (start 1 1) s \<and> everywhere s = {#Conn 0#}"
proof -
  obtain s where s: "run_steps [(0, CallUse), (0, TryReceive), (0, RunGen)] (start 1 1) = Some s" "cs_next s = 1"
    by (simp add: step_def start_def goto_def)
  have "reach UNIV (start 1 1) s" using reach_run[OF reach_start s(1)] by simp
  with pool_ownership[OF this] s(2) show ?thesis by auto
qed

lemma pool_without_close_safe_witness:
  "\<exists>s. reach (- {CallClose}) (start 1 1) s \<and> cs_next s = 1 \<and> cs_panic s = None"
proof -
  obtain s where s: "run_steps [(0, CallUse), (0, TryReceive), (0, RunGen)] (start 1 1) = Some s" "cs_next s = 1"
    by (simp add: step_def start_def goto_def)
  have "reach (- {CallClose}) (start 1 1) s" using reach_run[OF reach_start s(1)] by simp
  with pool_without_close_safe[OF this] s(2) show ?thesis by auto
qed

end
