(* ===== verification/Closer.thy ===== *)
theory Closer
  imports Prelude
begin

text \<open>
  The contract of \<^verbatim>\<open>io.Closer\<close> as the program relies on it: an object with methods, one of which
  closes it, and which does nothing any more once it is closed.
\<close>

text \<open>The value of a call forgotten.\<close>

definition forget :: "'a go \<times> 's \<Rightarrow> unit go \<times> 's" where
  "forget rs = (bind_go (fst rs) (\<lambda>_. Ok ()), snd rs)"

lemma forget_simps [simp]:
  "forget (Ok a, s) = (Ok (), s)" "forget (Err e, s) = (Err e, s)" "forget (Panic p, s) = (Panic p, s)"
  by (simp_all add: forget_def)

text \<open>\<open>call op\<close> is a method with its arguments; \<open>close\<close> is the one that closes; \<open>closed\<close> says that it has.\<close>

locale closable =
  fixes call :: "'op \<Rightarrow> ('s, unit) goS"
    and close :: 'op
    and closed :: "'s \<Rightarrow> bool"
  assumes closes: "call close s = (Ok (), s') \<Longrightarrow> closed s'"
    and inert: "closed s \<Longrightarrow> snd (call op s) = s"
    and refuses: "closed s \<Longrightarrow> op \<noteq> close \<Longrightarrow> fst (call op s) \<noteq> Ok ()"
begin

lemma calls_inert: "closed s \<Longrightarrow> fold (\<lambda>op s. snd (call op s)) ops s = s"
  by (induction ops) (simp_all add: inert)

lemma after_close: "call close s = (Ok (), s') \<Longrightarrow> fold (\<lambda>op s. snd (call op s)) ops s' = s'"
  by (rule calls_inert[OF closes])

lemma refused_after_close: "call close s = (Ok (), s') \<Longrightarrow> op \<noteq> close \<Longrightarrow> fst (call op s') \<noteq> Ok ()"
  by (rule refuses[OF closes])

end

text \<open>Objects that also refuse a second close.\<close>

locale closable_once = closable +
  assumes refuses_close: "closed s \<Longrightarrow> fst (call close s) \<noteq> Ok ()"
begin

lemma all_refused_after_close: "call close s = (Ok (), s') \<Longrightarrow> fst (call op s') \<noteq> Ok ()"
  using refuses[OF closes] refuses_close[OF closes] by (cases "op = close") auto

end

end
