(* ===== verification/ConnPool.thy ===== *)
theory ConnPool
  imports Pools Cfg Closer
begin

text \<open>
  \<^verbatim>\<open>connpool/factory.go\<close> and \<^verbatim>\<open>connpool/types/types.go\<close>: a pool of database
  connections behind the interface \<^verbatim>\<open>types.ConnPool\<close>.  The drivers are reached through
  \<^verbatim>\<open>types.Conn\<close>, here the record \<open>conn_ops\<close>; the generators through
  \<^verbatim>\<open>gen.Generator\<close>.  Log lines are not modelled.
\<close>

section \<open>Which generator\<close>

text \<open>\<^verbatim>\<open>define/dbtype.go\<close>: the types of database and their texts.\<close>

datatype pool_type =
  SQLSVR | POSTGRES | SQLITE | SAPHANA | MYSQL | REDIS | SSH | CASSANDRA | LOCAL | KAFKA | ODBC

fun pool_type_text :: "pool_type \<Rightarrow> string" where
  "pool_type_text SQLSVR = ''sqlserver''"
| "pool_type_text POSTGRES = ''postgres''"
| "pool_type_text SQLITE = ''sqlite''"
| "pool_type_text SAPHANA = ''hanadb''"
| "pool_type_text MYSQL = ''mysql''"
| "pool_type_text REDIS = ''redis''"
| "pool_type_text SSH = ''ssh''"
| "pool_type_text CASSANDRA = ''cassandra''"
| "pool_type_text LOCAL = ''local''"
| "pool_type_text KAFKA = ''kafka''"
| "pool_type_text ODBC = ''odbc''"

datatype generator_kind =
  RedisGen | LocalGen | KafkaGen | SSHGen | CassandraGen | ODBCGen | StdGen

definition generator_of :: "string \<Rightarrow> generator_kind" where
  "generator_of dbType =
    (if dbType = pool_type_text REDIS then RedisGen
     else if dbType = pool_type_text LOCAL then LocalGen
     else if dbType = pool_type_text KAFKA then KafkaGen
     else if dbType = pool_type_text SSH then SSHGen
     else if dbType = pool_type_text CASSANDRA then CassandraGen
     else if dbType = pool_type_text ODBC then ODBCGen
     else StdGen)"

section \<open>The pool\<close>

record ('w, 'c) conn_ops =
  co_execute :: "'c \<Rightarrow> conn_args \<Rightarrow> ('w, unit) goS"
  co_query :: "'c \<Rightarrow> conn_args \<Rightarrow> ('w, rows \<times> string list) goS"

record ret_wrapper =
  rw_rows :: rows
  rw_colName :: "string list"

record ('w, 'c, 'm) conn_pool =
  cp_ident :: string
  cp_conf :: conn_config
  cp_env :: "('w, 'c, 'm) pool_env"
  cp_pool :: "('w, 'c, 'm) timeout_pool"

definition idle_timeout :: int where
  "idle_timeout = nanos 61"

text \<open>What the pool shares with the rest of the process: metrics, context, closing a
  connection.\<close>

definition new_conn_pool ::
    "(generator_kind \<Rightarrow> conn_config \<Rightarrow> ('w, 'c) goS go) \<Rightarrow> ('w, 'c, 'm) pool_env \<Rightarrow> string \<Rightarrow> conn_config \<Rightarrow>
     'm \<Rightarrow> 'w \<Rightarrow> ('w, 'c, 'm) conn_pool go" where
  "new_conn_pool newGen base ident info m w =
    bind_go (wrap_err ''new conn pool failed ident:%s'' (newGen (generator_of (cc_DBType info)) info)) (\<lambda>g.
      Ok \<lparr>cp_ident = ident, cp_conf = info,
          cp_env = base\<lparr>pe_name := ident, pe_gen := g, pe_max := cc_MaxConn info\<rparr>,
          cp_pool = new_pool m w\<rparr>)"

definition on_pool ::
    "(('w, 'c timeout_item, 'm) pool, 'a) goS \<Rightarrow> (('w, 'c, 'm) conn_pool, 'a) goS" where
  "on_pool f c = (case f (cp_pool c) of (r, p) \<Rightarrow> (r, c\<lparr>cp_pool := p\<rparr>))"

text \<open>The clock is read when a connection is taken (\<open>sec\<close>) and put back (\<open>sec'\<close>).\<close>

definition cp_use ::
    "int \<Rightarrow> int \<Rightarrow> ('c \<Rightarrow> ('w, 'r) goS) \<Rightarrow> (('w, 'c, 'm) conn_pool, 'r) goS" where
  "cp_use sec sec' f c = on_pool (timeout_use (cp_env c) idle_timeout sec sec' f) c"

definition cp_run_execute ::
    "('w, 'c) conn_ops \<Rightarrow> int \<Rightarrow> int \<Rightarrow> conn_args \<Rightarrow> (('w, 'c, 'm) conn_pool, unit) goS" where
  "cp_run_execute ops sec sec' arg =
    bindS (cp_use sec sec' (\<lambda>data.
        bindS (wrapS ''RunExecute Failed : %s'' (co_execute ops data arg))
          (\<lambda>_. retS \<lparr>rw_rows = [], rw_colName = []\<rparr>)))
      (\<lambda>_. retS ())"

definition cp_run_query ::
    "('w, 'c) conn_ops \<Rightarrow> int \<Rightarrow> int \<Rightarrow> conn_args \<Rightarrow> (('w, 'c, 'm) conn_pool, rows \<times> string list) goS" where
  "cp_run_query ops sec sec' arg =
    bindS (cp_use sec sec' (\<lambda>data.
        bindS (wrapS ''RunExecute Failed : %s'' (co_execute ops data arg))
          (\<lambda>_. retS \<lparr>rw_rows = [], rw_colName = []\<rparr>)))
      (\<lambda>ret. retS (rw_rows ret, rw_colName ret))"

definition cp_get_config :: "('w, 'c, 'm) conn_pool \<Rightarrow> conn_config" where
  "cp_get_config c = cp_conf c"

definition cp_close :: "(('w, 'c, 'm) conn_pool, unit) goS" where
  "cp_close c = on_pool (timeout_close (cp_env c)) c"

section \<open>Queries return no rows\<close>

lemma finish_Ok: "finish e mk i r p = (Ok v, q) \<Longrightarrow> r = Ok v"
  by (cases r) (auto simp: finish_def Let_def split: if_splits go.splits)

lemma use_with_Ok:
  assumes "use_with e data get mk f p = (Ok v, q)"
  shows "\<exists>i w w'. f i w = (Ok v, w')"
proof -
  have "bindS get (\<lambda>item p.
       let p = set_gauges e (p\<lparr>pl_use := pl_use p + 1\<rparr>) in
       case on_pool_world (f item) p of (r, p) \<Rightarrow> finish e mk item r p) (init_pool e p) = (Ok v, q)"
    using assms by (auto simp: use_with_def split: if_splits prod.splits go.splits)
  then obtain item p1 where 1: "(let p = set_gauges e (p1\<lparr>pl_use := pl_use p1 + 1\<rparr>) in
       case on_pool_world (f item) p of (r, p) \<Rightarrow> finish e mk item r p) = (Ok v, q)"
    by (auto elim!: bindS_cases)
  define p2 where "p2 = set_gauges e (p1\<lparr>pl_use := pl_use p1 + 1\<rparr>)"
  obtain r w' where f: "f item (pl_world p2) = (r, w')" by fastforce
  with 1 have "finish e mk item r (p2\<lparr>pl_world := w'\<rparr>) = (Ok v, q)"
    by (simp add: on_pool_world_def p2_def Let_def)
  then have "r = Ok v" by (rule finish_Ok)
  with f show ?thesis by blast
qed

lemma cp_run_query_rowless:
  "cp_run_query ops sec sec' arg c = (Ok (rows, cols), c') \<Longrightarrow> rows = [] \<and> cols = []"
  by (auto simp: cp_run_query_def cp_use_def on_pool_def timeout_use_def split: prod.splits
      elim!: bindS_cases dest!: use_with_Ok)

text \<open>\<^verbatim>\<open>RunQuery\<close> of a connection pool does what \<^verbatim>\<open>RunExecute\<close> does: the
  same error or panic, the same effect on the pool and the database; when it succeeds, it returns
  no rows and no column names, whatever the driver's query would return.\<close>

theorem run_query_is_execute:
  shows "cp_run_query ops sec sec' arg = bindS (cp_run_execute ops sec sec' arg) (\<lambda>_. retS ([], []))"
proof (rule ext)
  fix c
  define m where "m = cp_use sec sec' (\<lambda>data.
        bindS (wrapS ''RunExecute Failed : %s'' (co_execute ops data arg))
          (\<lambda>_. retS \<lparr>rw_rows = [], rw_colName = []\<rparr>))"
  obtain r c' where mc: "m c = (r, c')" by fastforce
  show "cp_run_query ops sec sec' arg c = bindS (cp_run_execute ops sec sec' arg) (\<lambda>_. retS ([], [])) c"
  proof (cases r)
    case (Ok v)
    then have "cp_run_query ops sec sec' arg c = (Ok (rw_rows v, rw_colName v), c')"
      using mc by (simp add: cp_run_query_def m_def[symmetric])
    then show ?thesis
      using cp_run_query_rowless[of ops sec sec' arg c] mc Ok
      by (simp add: cp_run_execute_def m_def[symmetric] bindS_assoc)
  qed (use mc in \<open>simp_all add: cp_run_query_def cp_run_execute_def m_def[symmetric] bindS_assoc\<close>)
qed

section \<open>The interface of the management pool\<close>

text \<open>A source of query results that never has any: what the fetchers are given.\<close>

locale rowless_source =
  fixes query :: "conn_args \<Rightarrow> ('s, rows \<times> string list) goS"
  assumes no_rows: "query arg s = (Ok (data, cols), s') \<Longrightarrow> data = []"
begin

lemma query_cases:
  obtains (rows) cols t where "query arg s = (Ok ([], cols), t)"
    | (err) e t where "query arg s = (Err e, t)"
    | (panic) p t where "query arg s = (Panic p, t)"
  using no_rows[of arg s] by (metis go.exhaust surj_pair)

end

interpretation manage_pool: rowless_source "cp_run_query ops sec sec' :: _ \<Rightarrow> (('w, 'c, 'm) conn_pool, _) goS"
  for ops sec sec'
  by unfold_locales (simp add: cp_run_query_rowless)

section \<open>The pool as a closer\<close>

datatype pool_call = PoolExecute int int conn_args | PoolQuery int int conn_args | PoolClose

fun cp_call :: "('w, 'c) conn_ops \<Rightarrow> pool_call \<Rightarrow> (('w, 'c, 'm) conn_pool, unit) goS" where
  "cp_call ops (PoolExecute sec sec' arg) c = cp_run_execute ops sec sec' arg c"
| "cp_call ops (PoolQuery sec sec' arg) c = forget (cp_run_query ops sec sec' arg c)"
| "cp_call ops PoolClose c = cp_close c"

lemma closed_calls:
  assumes "pl_isClose (cp_pool c)"
  shows "cp_run_execute ops sec sec' arg c = (Err (sentinel_err ClosedError ''SyncExpirePool already closed''), c)"
    "cp_run_query ops sec sec' arg c = (Err (sentinel_err ClosedError ''SyncExpirePool already closed''), c)"
    "cp_close c = (Err (sentinel_err ClosedError ''SyncExpirePool already closed''), c)"
  using assms
  by (simp_all add: cp_run_execute_def cp_run_query_def cp_use_def on_pool_def timeout_use_def use_with_def
      cp_close_def pool_close_def bindS_def)

lemma close_sets_flag: "cp_close c = (Ok (), c') \<Longrightarrow> pl_isClose (cp_pool c')"
  by (auto simp: cp_close_def on_pool_def pool_close_def Let_def upd_metric_def split: prod.splits if_splits go.splits)

interpretation pool: closable_once "cp_call ops :: _ \<Rightarrow> (('w, 'c, 'm) conn_pool, unit) goS" PoolClose "\<lambda>c. pl_isClose (cp_pool c)"
  for ops
proof unfold_locales
  fix c c' :: "('w, 'c, 'm) conn_pool" and op
  show "cp_call ops PoolClose c = (Ok (), c') \<Longrightarrow> pl_isClose (cp_pool c')" by (simp add: close_sets_flag)
  assume "pl_isClose (cp_pool c)"
  then show "snd (cp_call ops op c) = c" "op \<noteq> PoolClose \<Longrightarrow> fst (cp_call ops op c) \<noteq> Ok ()"
    "fst (cp_call ops PoolClose c) \<noteq> Ok ()"
    by (cases op; simp add: closed_calls)+
qed

text \<open>C38: Once a connection pool has been closed, no sequence of calls on it, of whatever kind and with
  whatever arguments and drivers, has any effect on the pool, its connections or the databases, and
  every one of them is refused with the same error, a second close included.\<close>

theorem closed_pool_is_final:
  assumes "cp_close c = (Ok (), c')"
  shows "fold (\<lambda>op c. snd (cp_call ops op c)) calls c' = c' \<and>
    fst (cp_call ops op c') = Err (sentinel_err ClosedError ''SyncExpirePool already closed'')"
proof
  show "fold (\<lambda>op c. snd (cp_call ops op c)) calls c' = c'"
    by (rule pool.after_close[of ops c]) (simp add: assms)
  show "fst (cp_call ops op c') = Err (sentinel_err ClosedError ''SyncExpirePool already closed'')"
    using closed_calls[OF close_sets_flag[OF assms]] by (cases op) simp_all
qed

lemma closed_pool_is_final_witness:
  "\<exists>c'. cp_close \<lparr>cp_ident = ''p'', cp_conf = zero_conn_config, cp_env = probe_env 1, cp_pool = new_pool None 5\<rparr> = (Ok (), c') \<and>
    fold (\<lambda>op c. snd (cp_call (\<lparr>co_execute = \<lambda>_ _. retS (), co_query = \<lambda>_ _. retS ([], [])\<rparr>) op c))
      [PoolClose, PoolQuery 0 0 \<lparr>a_Query = [], a_Args = None, a_IsTransaction = False\<rparr>] c' = c'"
proof -
  let ?c = "\<lparr>cp_ident = ''p'', cp_conf = zero_conn_config, cp_env = probe_env 1, cp_pool = new_pool None 5\<rparr>"
  have "fst (cp_close ?c) = Ok ()"
    by (simp add: cp_close_def on_pool_def pool_close_def new_pool_def Let_def close_chan_def)
  then have "cp_close ?c = (Ok (), snd (cp_close ?c))" by (simp add: prod_eq_iff)
  with closed_pool_is_final[OF this] show ?thesis by blast
qed

end
