(* ===== verification/Master.thy ===== *)
theory Master
  imports ConnPool
begin

text \<open>
  The master process: \<^verbatim>\<open>cmd/oncecall_sync/entry/master.go\<close>,
  \<^verbatim>\<open>entry/master/db_fetcher.go\<close>, \<^verbatim>\<open>proc_exec.go\<close> and
  \<^verbatim>\<open>proc_exec_linux.go\<close>.  It keeps one child process per connection the database lists.

  The operating system is reached through the record \<open>os_ctl\<close> of the calls the code makes.
  A process table with zombies, \<open>table_ctl\<close>, is the instance the theorems about whole rounds
  use: as Linux documents, a child stays in the table until its parent waits for it, and this
  program never calls \<^verbatim>\<open>Wait\<close>.
\<close>

section \<open>Fetching the identifiers\<close>

fun list_ident_loop :: "rows \<Rightarrow> string list \<Rightarrow> string list go" where
  "list_ident_loop [] ret = Ok ret"
| "list_ident_loop (row # rows) ret =
    (if length row \<noteq> 1 then Err (sentinel_err SentinelCatchError ''db ident row length not matching %d'')
     else (case row ! 0 of
        GString conv \<Rightarrow> list_ident_loop rows (ret @ [conv])
      | _ \<Rightarrow> Err (sentinel_err ParseError ''db ident row content not matching %v'')))"

definition db_list_ident ::
    "(conn_args \<Rightarrow> ('q, rows \<times> string list) goS) \<Rightarrow> process_config \<Rightarrow> ('q, string list) goS" where
  "db_list_ident query conf =
    bindS (wrapS ''db list ident failed : %s''
        (query \<lparr>a_Query = pc_DbSyncList conf, a_Args = None, a_IsTransaction = False\<rparr>))
      (\<lambda>(data, _). if length data = 0 then retS [] else liftS (list_ident_loop data []))"

section \<open>The process manager\<close>

record 'o os_ctl =
  oc_executable :: "'o \<Rightarrow> string go"
  oc_spawn :: "string \<Rightarrow> string list \<Rightarrow> ('o, int) goS"
  oc_read_status :: "int \<Rightarrow> 'o \<Rightarrow> string go"
  oc_stat :: "int \<Rightarrow> 'o \<Rightarrow> bool go"
  oc_kill :: "int \<Rightarrow> ('o, unit) goS"

text \<open>\<open>oc_stat\<close> is \<^verbatim>\<open>os.Stat("/proc/<pid>")\<close> after \<^verbatim>\<open>os.IsNotExist\<close>:
  \<open>Ok False\<close> when the entry does not exist, an error for any other failure.\<close>

record 'o proc_manager =
  pm_rootFlagStr :: "string list"
  pm_rootPid :: int
  pm_procs :: "(string \<times> int) list"
  pm_os :: 'o

definition new_proc_manager :: "string list \<Rightarrow> int \<Rightarrow> 'o \<Rightarrow> 'o proc_manager" where
  "new_proc_manager args pid os = \<lparr>pm_rootFlagStr = args, pm_rootPid = pid, pm_procs = [], pm_os = os\<rparr>"

definition pm_list :: "'o proc_manager \<Rightarrow> string list" where
  "pm_list pm = map fst (pm_procs pm)"

definition fork_param :: "'o proc_manager \<Rightarrow> string \<Rightarrow> string list" where
  "fork_param pm syncIdent = [''--syncIdent='' @ syncIdent] @ pm_rootFlagStr pm"

definition on_os :: "('o, 'a) goS \<Rightarrow> ('o proc_manager, 'a) goS" where
  "on_os m pm = (case m (pm_os pm) of (r, os) \<Rightarrow> (r, pm\<lparr>pm_os := os\<rparr>))"

definition pm_start :: "'o os_ctl \<Rightarrow> string \<Rightarrow> ('o proc_manager, int) goS" where
  "pm_start ctl syncIdent pm =
    bindS (\<lambda>pm. (oc_executable ctl (pm_os pm), pm)) (\<lambda>exe.
    bindS (on_os (oc_spawn ctl exe (fork_param pm syncIdent))) (\<lambda>pid.
      \<lambda>pm. (Ok pid, pm\<lparr>pm_procs := AList.update syncIdent pid (pm_procs pm)\<rparr>))) pm"

text \<open>\<^verbatim>\<open>fmt.Sscanf(line, "PPid:\t%d", &ppid)\<close> on a line with that prefix: blanks are
  skipped, a sign and digits are read, the rest of the line is ignored.\<close>

definition scan_decimal :: "string \<Rightarrow> int go" where
  "scan_decimal s =
    (let s = dropWhile (\<lambda>c. c = CHR '' '' \<or> c = CHR 0x09) s;
       sign = takeWhile (\<lambda>c. c = CHR ''-'' \<or> c = CHR ''+'') (take 1 s);
       ds = takeWhile (\<lambda>c. digit_val c \<noteq> None) (drop (length sign) s) in
     if ds = [] then Err (ESys ''expected integer'') else atoi (sign @ ds))"

fun find_ppid :: "string list \<Rightarrow> int go" where
  "find_ppid [] = Err (sentinel_err NotExistsError ''PPid not found for PID %d'')"
| "find_ppid (line # lines) =
    (if has_prefix line ''PPid:'' then wrap_err ''parse PPid failed'' (scan_decimal (drop 5 line))
     else find_ppid lines)"

definition read_ppid :: "'o os_ctl \<Rightarrow> int \<Rightarrow> 'o \<Rightarrow> int go" where
  "read_ppid ctl pid os =
    bind_go (wrap_err ''read proc status failed'' (oc_read_status ctl pid os)) (\<lambda>data.
      find_ppid (go_split data [CHR 0x0A]))"

definition exists_proc_pid :: "'o os_ctl \<Rightarrow> int \<Rightarrow> 'o \<Rightarrow> bool go" where
  "exists_proc_pid ctl pid os = wrap_err ''exists proc failed'' (oc_stat ctl pid os)"

definition pm_alive :: "'o os_ctl \<Rightarrow> string \<Rightarrow> 'o proc_manager \<Rightarrow> bool" where
  "pm_alive ctl syncIdent pm =
    (case map_of (pm_procs pm) syncIdent of
      None \<Rightarrow> False
    | Some pid \<Rightarrow>
        (case exists_proc_pid ctl pid (pm_os pm) of
          Ok True \<Rightarrow> (case read_ppid ctl pid (pm_os pm) of Ok ppid \<Rightarrow> ppid = pm_rootPid pm | _ \<Rightarrow> False)
        | _ \<Rightarrow> False))"

definition pm_kill :: "'o os_ctl \<Rightarrow> string \<Rightarrow> ('o proc_manager, unit) goS" where
  "pm_kill ctl syncIdent pm =
    (case map_of (pm_procs pm) syncIdent of
      None \<Rightarrow> (Err (sentinel_err NotExistsError ''process not found: %s''), pm)
    | Some pid \<Rightarrow>
        bindS (\<lambda>pm. (wrap_err ''check process failed'' (exists_proc_pid ctl pid (pm_os pm)), pm)) (\<lambda>exists.
          if \<not> exists then failS (sentinel_err NotExistsError ''process not found: %s'')
          else bindS (\<lambda>pm. (wrap_err ''read process PPID failed'' (read_ppid ctl pid (pm_os pm)), pm)) (\<lambda>ppid.
            if ppid \<noteq> pm_rootPid pm then failS (sentinel_err NotExistsError ''process parent mismatch: %s'')
            else bindS (wrapS ''kill process failed'' (on_os (oc_kill ctl pid))) (\<lambda>_.
              \<lambda>pm. (Ok (), pm\<lparr>pm_procs := AList.delete syncIdent (pm_procs pm)\<rparr>)))) pm)"

section \<open>One round of the master\<close>

fun proc_list_loop :: "(string \<Rightarrow> bool) \<Rightarrow> string list \<Rightarrow> string list \<Rightarrow> string list \<Rightarrow> string list \<times> string list" where
  "proc_list_loop is_alive [] alive down = (alive, down)"
| "proc_list_loop is_alive (s # list) alive down =
    (if is_alive s then proc_list_loop is_alive list (alive @ [s]) down
     else proc_list_loop is_alive list alive (down @ [s]))"

definition master_current_proc_list ::
    "'o os_ctl \<Rightarrow> 'o proc_manager \<Rightarrow> string list \<Rightarrow> string list \<times> string list" where
  "master_current_proc_list ctl pm list = proc_list_loop (\<lambda>s. pm_alive ctl s pm) list [] []"

definition master_down_start :: "'o os_ctl \<Rightarrow> string list \<Rightarrow> ('o proc_manager, unit) goS" where
  "master_down_start ctl down =
    forS down (\<lambda>l. bindS (wrapS ''start %s failed'' (pm_start ctl l)) (\<lambda>pid. retS ()))"

definition master_down_alive_proc :: "'o os_ctl \<Rightarrow> string list \<Rightarrow> ('o proc_manager, unit) goS" where
  "master_down_alive_proc ctl killList = forS killList (\<lambda>l. wrapS ''kill %s failed'' (pm_kill ctl l))"

text \<open>An error in starting or killing is logged and the round goes on; a panic ends it.\<close>

definition logged :: "('s, unit) goS \<Rightarrow> ('s, unit) goS" where
  "logged m s = (case m s of (Err e, s') \<Rightarrow> (Ok (), s') | r \<Rightarrow> r)"

definition master_round ::
    "'o os_ctl \<Rightarrow> (conn_args \<Rightarrow> ('q, rows \<times> string list) goS) \<Rightarrow> process_config \<Rightarrow>
     ('q \<times> 'o proc_manager, unit) goS" where
  "master_round ctl query conf st =
    (case st of (q, pm) \<Rightarrow>
      (case db_list_ident query conf q of
        (Err e, q') \<Rightarrow> (Ok (), (q', pm))
      | (Panic p, q') \<Rightarrow> (Panic p, (q', pm))
      | (Ok list, q') \<Rightarrow>
          (let (alive, down) = master_current_proc_list ctl pm list;
             killList = difference alive (pm_list pm);
             (r, pm') = bindS (logged (master_down_start ctl down))
               (\<lambda>_. logged (master_down_alive_proc ctl killList)) pm in
           (r, (q', pm')))))"

section \<open>Fetching and choosing\<close>

lemma list_ident_loop_eq:
  "list_ident_loop data ret = (if \<forall>row \<in> set data. \<exists>s. row = [GString s]
     then Ok (ret @ map (\<lambda>row. case hd row of GString s \<Rightarrow> s | _ \<Rightarrow> []) data)
     else list_ident_loop data ret)"
proof (induction data arbitrary: ret)
  case Nil
  then show ?case by simp
next
  case (Cons row data)
  then show ?case by (cases "\<exists>s. row = [GString s]") auto
qed

lemma list_ident_loop_bad:
  "\<exists>row \<in> set data. \<not> (\<exists>s. row = [GString s]) \<Longrightarrow> \<exists>e. list_ident_loop data ret = Err e"
proof (induction data arbitrary: ret)
  case (Cons row data)
  show ?case
  proof (cases "\<exists>s. row = [GString s]")
    case True
    with Cons show ?thesis by fastforce
  next
    case False
    then show ?thesis
      by (cases row; cases "tl row"; cases "hd row") auto
  qed
qed simp

lemma proc_list_loop_eq:
  "proc_list_loop P list alive down = (alive @ filter P list, down @ filter (\<lambda>s. \<not> P s) list)"
  by (induction P list alive down rule: proc_list_loop.induct) auto

lemma kill_list_eq:
  "difference (fst (master_current_proc_list ctl pm list)) (pm_list pm) =
    filter (\<lambda>s. \<not> (s \<in> set list \<and> pm_alive ctl s pm)) (pm_list pm)"
  by (auto simp: master_current_proc_list_def proc_list_loop_eq difference_eq intro!: filter_cong)

text \<open>\<^verbatim>\<open>DBListIdent\<close> gives the single string of every row, in order, exactly when
  every row is one string; any other row makes it an error.\<close>

theorem db_list_ident_spec:
  assumes "query \<lparr>a_Query = pc_DbSyncList conf, a_Args = None, a_IsTransaction = False\<rparr> q = (Ok (data, cols), q')"
  shows "(\<forall>ids. db_list_ident query conf q = (Ok ids, q') \<longleftrightarrow> data = map (\<lambda>s. [GString s]) ids) \<and>
    ((\<nexists>ids. data = map (\<lambda>s. [GString s]) ids) \<longrightarrow> (\<exists>e. db_list_ident query conf q = (Err e, q')))"
proof -
  have run: "db_list_ident query conf q = (list_ident_loop data [], q')"
    using assms by (simp add: db_list_ident_def bindS_def wrapS_def)
  show ?thesis
  proof (cases "\<forall>row \<in> set data. \<exists>s. row = [GString s]")
    case True
    define g where "g row = (case hd row of GString s \<Rightarrow> s | _ \<Rightarrow> [])" for row
    have "list_ident_loop data [] = Ok (map g data)"
      using list_ident_loop_eq[of data "[]"] True by (simp add: g_def)
    moreover have "data = map (\<lambda>s. [GString s]) (map g data)"
      using True by (induction data) (auto simp: g_def)
    moreover have "map g (map (\<lambda>s. [GString s]) ids) = ids" for ids by (simp add: g_def comp_def)
    ultimately show ?thesis using run by (metis go.inject(1) prod.inject)
  next
    case False
    then have bad: "\<nexists>ids. data = map (\<lambda>s. [GString s]) ids" by auto
    obtain e where "list_ident_loop data [] = Err e" using list_ident_loop_bad[of data "[]"] False by blast
    then show ?thesis using run bad by simp
  qed
qed

lemma db_list_ident_spec_witness:
  "db_list_ident (\<lambda>_ q. (Ok ([[GString ''a''], [GString ''b'']], []), q)) default_process_config () = (Ok [''a'', ''b''], ())"
proof -
  have "(\<lambda>_ q. (Ok ([[GString ''a''], [GString ''b'']], []), q)) \<lparr>a_Query = pc_DbSyncList default_process_config, a_Args = None, a_IsTransaction = False\<rparr> ()
      = (Ok ([[GString ''a''], [GString ''b'']], [] :: string list), ())" by simp
  from db_list_ident_spec[of "\<lambda>_ q. (Ok ([[GString ''a''], [GString ''b'']], []), q)", OF this] show ?thesis by simp
qed

section \<open>A process table\<close>

text \<open>Entries are kept until the parent waits, which the program never does; \<open>os_pids\<close> are the
  numbers the kernel will hand out.\<close>

record os_proc =
  op_ppid :: int
  op_running :: bool

record os_table =
  os_self :: int
  os_procs :: "(int \<times> os_proc) list"
  os_pids :: "int list"

definition table_status :: "int \<Rightarrow> os_table \<Rightarrow> string go" where
  "table_status pid os =
    (case map_of (os_procs os) pid of
      None \<Rightarrow> Err (ESys ''ENOENT'')
    | Some p \<Rightarrow> Ok (''Name:'' @ [CHR 0x09] @ ''oncecall'' @ [CHR 0x0A] @
        ''PPid:'' @ [CHR 0x09] @ itoa (op_ppid p) @ [CHR 0x0A]))"

definition table_spawn :: "string \<Rightarrow> string list \<Rightarrow> (os_table, int) goS" where
  "table_spawn exe args os =
    (case os_pids os of
      [] \<Rightarrow> (Err (ESys ''EAGAIN''), os)
    | pid # pids \<Rightarrow> (Ok pid, os\<lparr>os_procs := (pid, \<lparr>op_ppid = os_self os, op_running = True\<rparr>) # os_procs os, os_pids := pids\<rparr>))"

definition table_kill :: "int \<Rightarrow> (os_table, unit) goS" where
  "table_kill pid os =
    (case map_of (os_procs os) pid of
      None \<Rightarrow> (Err (ESys ''ESRCH''), os)
    | Some p \<Rightarrow> (Ok (), os\<lparr>os_procs := AList.update pid (p\<lparr>op_running := False\<rparr>) (os_procs os)\<rparr>))"

definition table_ctl :: "os_table os_ctl" where
  "table_ctl = \<lparr>oc_executable = (\<lambda>_. Ok ''oncecall''), oc_spawn = table_spawn, oc_read_status = table_status,
     oc_stat = (\<lambda>pid os. Ok (map_of (os_procs os) pid \<noteq> None)), oc_kill = table_kill\<rparr>"

text \<open>A process ends by itself: it becomes a zombie.\<close>

definition os_exit :: "int \<Rightarrow> os_table \<Rightarrow> os_table" where
  "os_exit pid os = snd (table_kill pid os)"

definition is_child :: "os_table \<Rightarrow> int \<Rightarrow> bool" where
  "is_child os pid \<longleftrightarrow> (\<exists>p. map_of (os_procs os) pid = Some p \<and> op_ppid p = os_self os)"

text \<open>Reading the parent back from the status file.\<close>

lemma split_go_line:
  assumes "CHR 0x0A \<notin> set x"
  shows "split_go [CHR 0x0A] acc (x @ CHR 0x0A # rest) = (rev acc @ x) # split_go [CHR 0x0A] [] rest"
  using assms by (induction x arbitrary: acc) (auto simp: has_prefix_def)

lemma itoa_chars: "c \<in> set (itoa i) \<Longrightarrow> digit_val c \<noteq> None \<or> c = CHR ''-''"
proof -
  have "c \<in> set (nat_dec n) \<Longrightarrow> digit_val c \<noteq> None" for n
  proof (induction n rule: nat_dec.induct)
    case (1 n)
    then show ?case by (subst (asm) (2) nat_dec.simps) (auto split: if_splits)
  qed
  moreover assume "c \<in> set (itoa i)"
  ultimately show ?thesis by (auto simp: itoa_def split: if_splits)
qed

lemma scan_decimal_itoa:
  assumes "0 \<le> i" "in_int64 i"
  shows "scan_decimal (CHR 0x09 # itoa i) = Ok i"
proof -
  have digits: "\<forall>c \<in> set (itoa i). digit_val c \<noteq> None"
  proof -
    have "\<forall>c \<in> set (nat_dec n). digit_val c \<noteq> None" for n
    proof (induction n rule: nat_dec.induct)
      case (1 n)
      then show ?case by (subst nat_dec.simps) auto
    qed
    then show ?thesis using assms(1) by (simp add: itoa_def)
  qed
  obtain d ds where i: "itoa i = digit_char d # ds" "d < 10"
    using hd_nat_dec[of "nat i"] assms(1) by (auto simp: itoa_def)
  have "of_char (digit_char d) = (48 + d :: nat)" using i(2) by (simp add: digit_char_def)
  then have "digit_char d \<noteq> CHR '' ''" "digit_char d \<noteq> CHR 0x09" "digit_char d \<noteq> CHR ''-''" "digit_char d \<noteq> CHR ''+''"
    by auto
  then have "scan_decimal (CHR 0x09 # itoa i) = atoi (takeWhile (\<lambda>c. digit_val c \<noteq> None) (itoa i))"
    using i digits by (simp add: scan_decimal_def Let_def)
  also have "takeWhile (\<lambda>c. digit_val c \<noteq> None) (itoa i) = itoa i"
    using digits by (simp add: takeWhile_eq_all_conv)
  finally show ?thesis using assms(2) by simp
qed

lemma read_ppid_table:
  assumes "map_of (os_procs os) pid = Some p" "0 \<le> op_ppid p" "in_int64 (op_ppid p)"
  shows "read_ppid table_ctl pid os = Ok (op_ppid p)"
proof -
  let ?i = "itoa (op_ppid p)"
  have nl: "CHR 0x0A \<notin> set ?i" using itoa_chars[of "CHR 0x0A" "op_ppid p"] by (auto simp: digit_val_def)
  have "go_split (''Name:'' @ [CHR 0x09] @ ''oncecall'' @ [CHR 0x0A] @ ''PPid:'' @ [CHR 0x09] @ ?i @ [CHR 0x0A]) [CHR 0x0A] =
      [''Name:'' @ [CHR 0x09] @ ''oncecall'', ''PPid:'' @ [CHR 0x09] @ ?i, []]"
    using split_go_line[of "''Name:'' @ [CHR 0x09] @ ''oncecall''" "[]" "''PPid:'' @ [CHR 0x09] @ ?i @ [CHR 0x0A]"]
      split_go_line[of "''PPid:'' @ [CHR 0x09] @ ?i" "[]" "[]"] nl
    by (simp add: go_split_def has_prefix_def)
  then show ?thesis
    using assms by (simp add: read_ppid_def table_ctl_def table_status_def has_prefix_def scan_decimal_itoa)
qed

definition os_wf :: "os_table \<Rightarrow> bool" where
  "os_wf os \<longleftrightarrow> 0 \<le> os_self os \<and> in_int64 (os_self os) \<and> distinct (os_pids os) \<and>
    (\<forall>pid \<in> set (os_pids os). map_of (os_procs os) pid = None)"

definition pm_wf :: "os_table proc_manager \<Rightarrow> bool" where
  "pm_wf pm \<longleftrightarrow> os_wf (pm_os pm) \<and> pm_rootPid pm = os_self (pm_os pm) \<and>
    distinct (pm_list pm) \<and> (\<forall>(ident, pid) \<in> set (pm_procs pm). is_child (pm_os pm) pid)"

lemma pm_wf_tracked: "pm_wf pm \<Longrightarrow> map_of (pm_procs pm) s = Some pid \<Longrightarrow> is_child (pm_os pm) pid"
  by (auto simp: pm_wf_def dest!: map_of_SomeD)

lemma child_ppid:
  assumes "os_wf os" "is_child os pid"
  shows "read_ppid table_ctl pid os = Ok (os_self os)" "oc_stat table_ctl pid os = Ok True"
proof -
  obtain p where p: "map_of (os_procs os) pid = Some p" "op_ppid p = os_self os"
    using assms(2) by (auto simp: is_child_def)
  then show "read_ppid table_ctl pid os = Ok (os_self os)"
    using read_ppid_table[of os pid p] assms(1) by (simp add: os_wf_def)
  show "oc_stat table_ctl pid os = Ok True" using p by (simp add: table_ctl_def)
qed

lemma alive_iff_tracked:
  assumes "pm_wf pm"
  shows "pm_alive table_ctl s pm \<longleftrightarrow> s \<in> set (pm_list pm)"
proof (cases "map_of (pm_procs pm) s")
  case None
  then have "s \<notin> set (pm_list pm)" by (simp add: pm_list_def map_of_eq_None_iff)
  with None show ?thesis by (simp add: pm_alive_def)
next
  case (Some pid)
  have "os_wf (pm_os pm)" "pm_rootPid pm = os_self (pm_os pm)" using assms by (simp_all add: pm_wf_def)
  then show ?thesis
    using Some child_ppid[OF _ pm_wf_tracked[OF assms Some]]
    by (auto simp: pm_alive_def exists_proc_pid_def pm_list_def dest!: map_of_SomeD intro!: image_eqI[of s fst])
qed

text \<open>Processes that end by themselves stay in the table.\<close>

lemma os_exits:
  assumes "os_wf os"
  shows "os_wf (fold os_exit dead os) \<and> os_self (fold os_exit dead os) = os_self os \<and>
    os_pids (fold os_exit dead os) = os_pids os \<and> (is_child os p \<longrightarrow> is_child (fold os_exit dead os) p)"
  using assms
proof (induction dead arbitrary: os)
  case (Cons d dead)
  have "os_wf (os_exit d os) \<and> os_self (os_exit d os) = os_self os \<and> os_pids (os_exit d os) = os_pids os \<and>
      (is_child os p \<longrightarrow> is_child (os_exit d os) p)"
    using Cons.prems by (auto simp: os_exit_def table_kill_def os_wf_def is_child_def update_conv' split: option.splits)
  with Cons.IH[of "os_exit d os"] show ?case by simp
qed simp

lemma pm_wf_exits: "pm_wf pm \<Longrightarrow> pm_wf (pm\<lparr>pm_os := fold os_exit dead (pm_os pm)\<rparr>)"
  using os_exits[of "pm_os pm" dead] by (auto simp: pm_wf_def pm_list_def)

lemma start_ok:
  assumes "pm_wf pm" "os_pids (pm_os pm) = pid # pids"
  shows "\<exists>pm'. pm_start table_ctl s pm = (Ok pid, pm') \<and> pm_wf pm' \<and>
    set (pm_list pm') = insert s (set (pm_list pm)) \<and> os_pids (pm_os pm') = pids"
proof -
  let ?os = "(pm_os pm)\<lparr>os_procs := (pid, \<lparr>op_ppid = os_self (pm_os pm), op_running = True\<rparr>) # os_procs (pm_os pm), os_pids := pids\<rparr>"
  let ?pm = "pm\<lparr>pm_os := ?os, pm_procs := AList.update s pid (pm_procs pm)\<rparr>"
  have run: "pm_start table_ctl s pm = (Ok pid, ?pm)"
    using assms(2) by (simp add: pm_start_def bindS_def on_os_def table_ctl_def table_spawn_def)
  have fresh: "map_of (os_procs (pm_os pm)) pid = None"
    using assms by (simp add: pm_wf_def os_wf_def)
  then have child: "is_child (pm_os pm) q \<Longrightarrow> is_child ?os q" for q by (auto simp: is_child_def)
  have "os_wf ?os" using assms fresh by (auto simp: pm_wf_def os_wf_def)
  moreover have "is_child ?os q" if "(i, q) \<in> set (AList.update s pid (pm_procs pm))" for i q
    using that set_alist_update[of s pid "pm_procs pm"] child assms(1) by (force simp: pm_wf_def is_child_def)
  ultimately have "pm_wf ?pm"
    using assms(1) by (auto simp: pm_wf_def pm_list_def distinct_update)
  moreover have "set (pm_list ?pm) = insert s (set (pm_list pm))"
    by (auto simp: pm_list_def dom_update)
  ultimately show ?thesis using run by auto
qed

lemma kill_ok:
  assumes "pm_wf pm" "s \<in> set (pm_list pm)"
  shows "\<exists>pm'. pm_kill table_ctl s pm = (Ok (), pm') \<and> pm_wf pm' \<and>
    set (pm_list pm') = set (pm_list pm) - {s} \<and> os_pids (pm_os pm') = os_pids (pm_os pm)"
proof -
  obtain pid where pid: "map_of (pm_procs pm) s = Some pid"
    using assms(2) by (cases "map_of (pm_procs pm) s") (auto simp: pm_list_def map_of_eq_None_iff)
  have wf: "os_wf (pm_os pm)" "pm_rootPid pm = os_self (pm_os pm)" using assms(1) by (simp_all add: pm_wf_def)
  have child: "is_child (pm_os pm) pid" by (rule pm_wf_tracked[OF assms(1) pid])
  then obtain p where p: "map_of (os_procs (pm_os pm)) pid = Some p" "op_ppid p = os_self (pm_os pm)"
    by (auto simp: is_child_def)
  let ?os = "(pm_os pm)\<lparr>os_procs := AList.update pid (p\<lparr>op_running := False\<rparr>) (os_procs (pm_os pm))\<rparr>"
  let ?pm = "pm\<lparr>pm_os := ?os, pm_procs := AList.delete s (pm_procs pm)\<rparr>"
  have run: "pm_kill table_ctl s pm = (Ok (), ?pm)"
    using pid child_ppid[OF wf(1) child] wf(2) p
    by (simp add: pm_kill_def bindS_def exists_proc_pid_def wrapS_def on_os_def table_kill_def)
      (simp add: table_ctl_def table_kill_def)
  have keep: "is_child (pm_os pm) q \<Longrightarrow> is_child ?os q" for q
    using p by (auto simp: is_child_def update_conv')
  have "os_wf ?os" using wf(1) p by (auto simp: os_wf_def update_conv')
  moreover have "is_child ?os q" if "(i, q) \<in> set (AList.delete s (pm_procs pm))" for i q
    using that keep assms(1) by (auto simp: pm_wf_def AList.delete_eq)
  ultimately have "pm_wf ?pm"
    using assms(1) by (auto simp: pm_wf_def pm_list_def distinct_delete)
  moreover have "set (pm_list ?pm) = set (pm_list pm) - {s}"
    by (auto simp: pm_list_def delete_keys)
  ultimately show ?thesis using run by auto
qed

lemma start_all_ok:
  "pm_wf pm \<Longrightarrow> length down \<le> length (os_pids (pm_os pm)) \<Longrightarrow>
    \<exists>pm'. master_down_start table_ctl down pm = (Ok (), pm') \<and> pm_wf pm' \<and>
      set (pm_list pm') = set down \<union> set (pm_list pm) \<and>
      os_pids (pm_os pm') = drop (length down) (os_pids (pm_os pm))"
proof (induction down arbitrary: pm)
  case Nil
  then show ?case by (simp add: master_down_start_def)
next
  case (Cons s down)
  then obtain pid pids where pids: "os_pids (pm_os pm) = pid # pids"
    by (cases "os_pids (pm_os pm)") auto
  obtain pm1 where pm1: "pm_start table_ctl s pm = (Ok pid, pm1)" "pm_wf pm1"
      "set (pm_list pm1) = insert s (set (pm_list pm))" "os_pids (pm_os pm1) = pids"
    using start_ok[OF Cons.prems(1) pids] by blast
  obtain pm2 where "master_down_start table_ctl down pm1 = (Ok (), pm2)" "pm_wf pm2"
      "set (pm_list pm2) = set down \<union> set (pm_list pm1)" "os_pids (pm_os pm2) = drop (length down) pids"
    using Cons.IH[OF pm1(2)] Cons.prems(2) pids pm1(4) by auto
  with pm1 pids show ?case by (auto simp: master_down_start_def bindS_def wrapS_def)
qed

lemma kill_all_ok:
  "pm_wf pm \<Longrightarrow> set ks \<subseteq> set (pm_list pm) \<Longrightarrow> distinct ks \<Longrightarrow>
    \<exists>pm'. master_down_alive_proc table_ctl ks pm = (Ok (), pm') \<and> pm_wf pm' \<and>
      set (pm_list pm') = set (pm_list pm) - set ks \<and> os_pids (pm_os pm') = os_pids (pm_os pm)"
proof (induction ks arbitrary: pm)
  case Nil
  then show ?case by (simp add: master_down_alive_proc_def)
next
  case (Cons s ks)
  then obtain pm1 where pm1: "pm_kill table_ctl s pm = (Ok (), pm1)" "pm_wf pm1"
      "set (pm_list pm1) = set (pm_list pm) - {s}" "os_pids (pm_os pm1) = os_pids (pm_os pm)"
    using kill_ok[of pm s] by auto
  obtain pm2 where "master_down_alive_proc table_ctl ks pm1 = (Ok (), pm2)" "pm_wf pm2"
      "set (pm_list pm2) = set (pm_list pm1) - set ks" "os_pids (pm_os pm2) = os_pids (pm_os pm1)"
    using Cons.IH[OF pm1(2)] Cons.prems pm1(3) by auto
  with pm1 show ?case by (auto simp: master_down_alive_proc_def bindS_def wrapS_def)
qed

lemma round_ok:
  assumes "pm_wf pm" "db_list_ident query conf q = (Ok ids, q')"
    and "length ids \<le> length (os_pids (pm_os pm))"
  shows "\<exists>pm'. master_round table_ctl query conf (q, pm) = (Ok (), (q', pm')) \<and> pm_wf pm' \<and>
    set (pm_list pm') = set ids \<and> length (os_pids (pm_os pm)) \<le> length (os_pids (pm_os pm')) + length ids"
proof -
  let ?down = "filter (\<lambda>s. s \<notin> set (pm_list pm)) ids"
  let ?kill = "filter (\<lambda>s. s \<notin> set ids) (pm_list pm)"
  have lists: "master_current_proc_list table_ctl pm ids = (filter (\<lambda>s. s \<in> set (pm_list pm)) ids, ?down)"
    by (simp add: master_current_proc_list_def proc_list_loop_eq alive_iff_tracked[OF assms(1)])
  have kills: "difference (filter (\<lambda>s. s \<in> set (pm_list pm)) ids) (pm_list pm) = ?kill"
    by (auto simp: difference_eq intro!: filter_cong)
  have down: "length ?down \<le> length ids" by (rule length_filter_le)
  then have "length ?down \<le> length (os_pids (pm_os pm))" using assms(3) by linarith
  then obtain pm1 where pm1: "master_down_start table_ctl ?down pm = (Ok (), pm1)" "pm_wf pm1"
      "set (pm_list pm1) = set ?down \<union> set (pm_list pm)" "os_pids (pm_os pm1) = drop (length ?down) (os_pids (pm_os pm))"
    using start_all_ok[OF assms(1), of ?down] by auto
  have "distinct ?kill" using assms(1) by (simp add: pm_wf_def)
  moreover have "set ?kill \<subseteq> set (pm_list pm1)" using pm1(3) by auto
  ultimately obtain pm2 where pm2: "master_down_alive_proc table_ctl ?kill pm1 = (Ok (), pm2)" "pm_wf pm2"
      "set (pm_list pm2) = set (pm_list pm1) - set ?kill" "os_pids (pm_os pm2) = os_pids (pm_os pm1)"
    using kill_all_ok[OF pm1(2), of ?kill] by blast
  have "set (pm_list pm2) = set ids" using pm2(3) pm1(3) by auto
  moreover have "length (os_pids (pm_os pm)) \<le> length (os_pids (pm_os pm2)) + length ids"
    using pm1(4) pm2(4) down by (simp only: length_drop)
  ultimately show ?thesis
    using assms(2) lists kills pm1(1) pm2(1,2)
    by (simp add: master_round_def bindS_def logged_def)
qed

text \<open>On a process table that keeps children until they are waited for, a round whose fetch
  succeeds makes the tracked processes exactly the listed identifiers: missing ones are started,
  unlisted ones are killed, the others are left alone.\<close>

theorem master_round_tracks_list:
  assumes "pm_wf pm" "db_list_ident query conf q = (Ok ids, q')"
    and "length ids \<le> length (os_pids (pm_os pm))"
  shows "\<exists>pm'. master_round table_ctl query conf (q, pm) = (Ok (), (q', pm')) \<and> pm_wf pm' \<and>
    set (pm_list pm') = set ids \<and> (\<forall>s \<in> set ids. pm_alive table_ctl s pm')"
  using round_ok[OF assms] alive_iff_tracked by metis

definition table_pm :: "int list \<Rightarrow> os_table proc_manager" where
  "table_pm pids = new_proc_manager [''oncecall''] 1 \<lparr>os_self = 1, os_procs = [], os_pids = pids\<rparr>"

lemma table_pm_wf: "distinct pids \<Longrightarrow> pm_wf (table_pm pids)"
  by (simp add: table_pm_def new_proc_manager_def pm_wf_def os_wf_def pm_list_def in_int64_def)

definition listing :: "string list \<Rightarrow> conn_args \<Rightarrow> ('q, rows \<times> string list) goS" where
  "listing ids arg q = (Ok (map (\<lambda>s. [GString s]) ids, []), q)"

lemma master_round_tracks_list_witness:
  "\<exists>pm'. master_round table_ctl (listing [''a'', ''b'']) default_process_config ((), table_pm [7, 8]) = (Ok (), ((), pm')) \<and>
    set (pm_list pm') = {''a'', ''b''}"
proof -
  have "db_list_ident (listing [''a'', ''b'']) default_process_config () = (Ok [''a'', ''b''], ())"
    by (simp add: db_list_ident_def listing_def bindS_def wrapS_def)
  moreover have "pm_wf (table_pm [7, 8])" by (rule table_pm_wf) simp
  ultimately show ?thesis
    using master_round_tracks_list[of "table_pm [7, 8]" "listing [''a'', ''b'']" default_process_config "()" "[''a'', ''b'']" "()"]
    by (auto simp: table_pm_def new_proc_manager_def)
qed

text \<open>A child that dies is never noticed: whatever children exit between two rounds, they stay
  zombies of the master, \<^verbatim>\<open>Alive\<close> still holds of their identifiers, and the next round
  with the same list starts and kills nothing.\<close>

theorem master_misses_dead_child:
  assumes "pm_wf pm" "db_list_ident query conf q = (Ok ids, q')" "set ids = set (pm_list pm)"
  shows "master_round table_ctl query conf (q, pm\<lparr>pm_os := fold os_exit dead (pm_os pm)\<rparr>) =
      (Ok (), (q', pm\<lparr>pm_os := fold os_exit dead (pm_os pm)\<rparr>)) \<and>
    (\<forall>s \<in> set ids. pm_alive table_ctl s (pm\<lparr>pm_os := fold os_exit dead (pm_os pm)\<rparr>))"
proof -
  let ?pm = "pm\<lparr>pm_os := fold os_exit dead (pm_os pm)\<rparr>"
  have wf: "pm_wf ?pm"
    by (rule pm_wf_exits[OF assms(1)])
  have list: "set (pm_list ?pm) = set ids" using assms(3) by (simp add: pm_list_def)
  have alive: "\<forall>s \<in> set ids. pm_alive table_ctl s ?pm" using alive_iff_tracked[OF wf] list by blast
  have "filter (\<lambda>s. s \<notin> set (pm_list ?pm)) ids = []" "filter (\<lambda>s. s \<notin> set ids) (pm_list ?pm) = []"
    using list by (auto simp: filter_empty_conv)
  then have "master_round table_ctl query conf (q, ?pm) = (Ok (), (q', ?pm))"
    using assms(2) list
    by (simp add: master_round_def master_current_proc_list_def proc_list_loop_eq alive_iff_tracked[OF wf] difference_eq
        master_down_start_def master_down_alive_proc_def logged_def)
  with alive show ?thesis by blast
qed

lemma master_misses_dead_child_witness:
  "pm_alive table_ctl ''a'' ((table_pm [])\<lparr>pm_procs := [(''a'', 7)],
     pm_os := os_exit 7 \<lparr>os_self = 1, os_procs = [(7, \<lparr>op_ppid = 1, op_running = True\<rparr>)], os_pids = []\<rparr>\<rparr>)"
proof -
  let ?pm = "(table_pm [])\<lparr>pm_procs := [(''a'', 7)],
     pm_os := \<lparr>os_self = 1, os_procs = [(7, \<lparr>op_ppid = 1, op_running = True\<rparr>)], os_pids = []\<rparr>\<rparr>"
  have "pm_wf ?pm"
    by (simp add: table_pm_def new_proc_manager_def pm_wf_def os_wf_def pm_list_def in_int64_def is_child_def)
  moreover have "db_list_ident (listing [''a'']) default_process_config () = (Ok [''a''], ())"
    by (simp add: db_list_ident_def listing_def bindS_def wrapS_def)
  moreover have "set [''a''] = set (pm_list ?pm)" by (simp add: pm_list_def)
  ultimately show ?thesis
    using master_misses_dead_child[of ?pm "listing [''a'']" default_process_config "()" "[''a'']" "()" "[7]"]
    by (simp add: pm_list_def)
qed

section \<open>The master on a connection pool\<close>

context rowless_source begin

lemma rowless_ident_list: "db_list_ident query conf s = (Ok ids, s') \<Longrightarrow> ids = []"
  by (auto simp: db_list_ident_def wrapS_def split: prod.splits if_splits elim!: bindS_cases dest!: no_rows)

end

text \<open>Fed by the connection pool the program really uses, whose queries return no rows, the
  master never starts a process: after any round every tracked process is one that was tracked
  before, and after a round whose query succeeds none is.\<close>

theorem master_never_starts:
  assumes "pm_wf pm"
    and "master_round table_ctl (cp_run_query ops sec sec' :: _ \<Rightarrow> (('w, 'c, 'm) conn_pool, _) goS) conf (q, pm) = (r, (q', pm'))"
  shows "set (pm_list pm') \<subseteq> set (pm_list pm) \<and>
    (\<forall>ids. fst (db_list_ident (cp_run_query ops sec sec') conf q) = Ok ids \<longrightarrow> pm_list pm' = [])"
proof -
  obtain f q1 where f: "db_list_ident (cp_run_query ops sec sec') conf q = (f, q1)" by fastforce
  show ?thesis
  proof (cases f)
    case (Ok ids)
    then have "ids = []" using manage_pool.rowless_ident_list f by blast
    with Ok round_ok[OF assms(1), of "cp_run_query ops sec sec'" conf q ids q1] f assms(2) show ?thesis by auto
  qed (use f assms(2) in \<open>auto simp: master_round_def\<close>)
qed

lemma master_never_starts_witness:
  "pm_list (snd (snd (master_round table_ctl
      (cp_run_query \<lparr>co_execute = \<lambda>c a w. (Ok (), w), co_query = \<lambda>c a w. (Ok ([], []), w)\<rparr> 0 0) default_process_config
      (\<lparr>cp_ident = ''m'', cp_conf = zero_conn_config, cp_env = probe_env 1, cp_pool = new_pool None 0\<rparr>, table_pm [7])))) = []"
proof -
  let ?ops = "\<lparr>co_execute = \<lambda>c a w. (Ok (), w), co_query = \<lambda>c a w. (Ok ([], []), w)\<rparr> :: (nat, nat) conn_ops"
  let ?q = "\<lparr>cp_ident = ''m'', cp_conf = zero_conn_config, cp_env = probe_env 1, cp_pool = new_pool None 0\<rparr>"
  let ?r = "master_round table_ctl (cp_run_query ?ops 0 0) default_process_config (?q, table_pm [7])"
  have "pm_wf (table_pm [7])" by (rule table_pm_wf) simp
  from master_never_starts[OF this, of ?ops 0 0 default_process_config ?q "fst ?r" "fst (snd ?r)" "snd (snd ?r)"]
  show ?thesis by (simp add: table_pm_def new_proc_manager_def pm_list_def)
qed

end
