(* ===== verification/SharedState.thy ===== *)
theory SharedState
  imports Cfg
begin

text \<open>
  \<^verbatim>\<open>cmd/oncecall_sync/state/state.go\<close>: the state the goroutines of a sync process
  share, two typed maps: connection pools by identifier and the run state of each plan's thread.
  A pool is a value \<open>'p\<close> with its operations in \<open>pool_ops\<close>; closing works on the
  world \<open>'w\<close> the pools live in.
\<close>

datatype thread_state = ThreadStateRunning | ThreadStateStop

record ('w, 'p) pool_ops =
  po_config :: "'p \<Rightarrow> conn_config"
  po_close :: "'p \<Rightarrow> ('w, unit) goS"

record ('w, 'p) shared_state =
  ss_connPool :: "(string, 'p) sync_map"
  ss_threadState :: "(thread_key, thread_state) sync_map"
  ss_world :: 'w

definition new_shared_state :: "'w \<Rightarrow> ('w, 'p) shared_state" where
  "new_shared_state w = \<lparr>ss_connPool = new_sync_map, ss_threadState = new_sync_map, ss_world = w\<rparr>"

text \<open>No stored pool or thread state is a nil interface, so a load never fails its assertion.\<close>

definition load_pool :: "string \<Rightarrow> ('w, 'p) shared_state \<Rightarrow> 'p option" where
  "load_pool ident s = (case sm_load (\<lambda>_. False) (ss_connPool s) ident of Ok p \<Rightarrow> p | _ \<Rightarrow> None)"

definition exists_conn_pool :: "string \<Rightarrow> ('w, 'p) shared_state \<Rightarrow> bool" where
  "exists_conn_pool ident s \<longleftrightarrow> load_pool ident s \<noteq> None"

definition get_conn_pool :: "string \<Rightarrow> ('w, 'p) shared_state \<Rightarrow> 'p go" where
  "get_conn_pool ident s =
    (case load_pool ident s of
      None \<Rightarrow> Err (sentinel_err NotExistsError ''%s not exists'')
    | Some conn \<Rightarrow> Ok conn)"

definition get_thread_state :: "thread_key \<Rightarrow> ('w, 'p) shared_state \<Rightarrow> bool \<times> bool" where
  "get_thread_state key s =
    (case sm_load (\<lambda>_. False) (ss_threadState s) key of
      Ok (Some state) \<Rightarrow> (state = ThreadStateRunning, True)
    | _ \<Rightarrow> (False, False))"

definition pop_conn_pool :: "string \<Rightarrow> ('w, 'p) shared_state \<Rightarrow> ('w, 'p) shared_state" where
  "pop_conn_pool ident s = s\<lparr>ss_connPool := sm_delete (ss_connPool s) ident\<rparr>"

text \<open>\<^verbatim>\<open>PushConnPool\<close>: a pool already there is closed, its error ignored.\<close>

definition push_conn_pool :: "('w, 'p) pool_ops \<Rightarrow> string \<Rightarrow> 'p \<Rightarrow> (('w, 'p) shared_state, unit) goS" where
  "push_conn_pool ops ident pool s =
    (case load_pool ident s of
      None \<Rightarrow> (Ok (), s\<lparr>ss_connPool := sm_store (ss_connPool s) ident pool\<rparr>)
    | Some p \<Rightarrow>
        (case po_close ops p (ss_world s) of
          (Panic x, w) \<Rightarrow> (Panic x, s\<lparr>ss_world := w\<rparr>)
        | (_, w) \<Rightarrow> (Ok (), s\<lparr>ss_world := w,
            ss_connPool := sm_store (sm_delete (ss_connPool s) ident) ident pool\<rparr>)))"

definition set_running_thread_state :: "thread_key \<Rightarrow> ('w, 'p) shared_state \<Rightarrow> ('w, 'p) shared_state" where
  "set_running_thread_state key s = s\<lparr>ss_threadState := sm_store (ss_threadState s) key ThreadStateRunning\<rparr>"

definition set_stop_thread_state :: "thread_key \<Rightarrow> ('w, 'p) shared_state \<Rightarrow> ('w, 'p) shared_state" where
  "set_stop_thread_state key s = s\<lparr>ss_threadState := sm_store (ss_threadState s) key ThreadStateStop\<rparr>"

definition delete_thread_state :: "thread_key \<Rightarrow> ('w, 'p) shared_state \<Rightarrow> ('w, 'p) shared_state" where
  "delete_thread_state key s = s\<lparr>ss_threadState := sm_delete (ss_threadState s) key\<rparr>"

section \<open>What is read back\<close>

definition ss_wf :: "('w, 'p) shared_state \<Rightarrow> bool" where
  "ss_wf s \<longleftrightarrow> sm_wf (ss_connPool s) \<and> sm_wf (ss_threadState s)"

lemma load_pool_eq [simp]: "load_pool ident s = map_of (ss_connPool s) ident"
  by (simp add: load_pool_def)

lemma get_conn_pool_Ok_iff [simp]: "get_conn_pool ident s = Ok p \<longleftrightarrow> map_of (ss_connPool s) ident = Some p"
  by (simp add: get_conn_pool_def split: option.splits)

lemma push_conn_pool_result:
  assumes "push_conn_pool ops ident pool s = (r, s')"
  shows "(\<exists>x. r = Panic x \<and> ss_connPool s' = ss_connPool s) \<or>
    (r = Ok () \<and> map_of (ss_connPool s') = (map_of (ss_connPool s))(ident \<mapsto> pool))"
  using assms by (auto simp: push_conn_pool_def fun_eq_iff split: option.splits prod.splits go.splits)

lemma push_conn_pool_wf: "ss_wf s \<Longrightarrow> push_conn_pool ops ident pool s = (r, s') \<Longrightarrow> ss_wf s'"
  by (auto simp: push_conn_pool_def ss_wf_def split: option.splits prod.splits go.splits)

lemma thread_state_reads:
  "get_thread_state k (set_running_thread_state key s) = (if k = key then (True, True) else get_thread_state k s)"
  "get_thread_state k (set_stop_thread_state key s) = (if k = key then (False, True) else get_thread_state k s)"
  "get_thread_state k (delete_thread_state key s) = (if k = key then (False, False) else get_thread_state k s)"
  by (simp_all add: get_thread_state_def set_running_thread_state_def set_stop_thread_state_def delete_thread_state_def)

text \<open>Registering a pool makes it, and no other identifier's, the one that is found; the pool it
  replaces is closed first; popping removes exactly the identifier; the thread states read back as
  last set.\<close>

theorem shared_state_reads_back:
  assumes "push_conn_pool ops ident pool s = (Ok (), s')"
  shows "get_conn_pool ident s' = Ok pool \<and>
    (\<forall>i. i \<noteq> ident \<longrightarrow> get_conn_pool i s' = get_conn_pool i s \<and> get_conn_pool i (pop_conn_pool ident s') = get_conn_pool i s) \<and>
    \<not> exists_conn_pool ident (pop_conn_pool ident s') \<and>
    (\<forall>p. get_conn_pool ident s = Ok p \<longrightarrow> ss_world s' = snd (po_close ops p (ss_world s))) \<and>
    get_thread_state key (set_running_thread_state key s') = (True, True) \<and>
    get_thread_state key (set_stop_thread_state key s') = (False, True) \<and>
    (key' \<noteq> key \<longrightarrow> get_thread_state key' (set_running_thread_state key s') = get_thread_state key' s)"
proof -
  have m: "map_of (ss_connPool s') = (map_of (ss_connPool s))(ident \<mapsto> pool)"
    using push_conn_pool_result[OF assms] by simp
  have t: "ss_threadState s' = ss_threadState s"
    using assms by (auto simp: push_conn_pool_def split: option.splits prod.splits go.splits)
  have w: "map_of (ss_connPool s) ident = Some p \<Longrightarrow> ss_world s' = snd (po_close ops p (ss_world s))" for p
    using assms by (auto simp: push_conn_pool_def split: option.splits prod.splits go.splits)
  show ?thesis
    using m w by (simp add: thread_state_reads exists_conn_pool_def get_conn_pool_def pop_conn_pool_def split: option.split)
      (simp add: get_thread_state_def t)
qed

lemma shared_state_reads_back_witness:
  "get_conn_pool ''a'' (snd (push_conn_pool \<lparr>po_config = (\<lambda>_. zero_conn_config), po_close = (\<lambda>_ w. (Ok (), Suc w))\<rparr>
     ''a'' True (new_shared_state 0))) = Ok True"
proof -
  let ?ops = "\<lparr>po_config = (\<lambda>_. zero_conn_config), po_close = (\<lambda>_ w. (Ok (), Suc w))\<rparr> :: (nat, bool) pool_ops"
  have "push_conn_pool ?ops ''a'' True (new_shared_state 0) = (Ok (), snd (push_conn_pool ?ops ''a'' True (new_shared_state 0)))"
    by (simp add: push_conn_pool_def new_shared_state_def new_sync_map_def)
  from shared_state_reads_back[OF this] show ?thesis by simp
qed

end
