(* ===== verification/Syncd.thy ===== *)
theory Syncd
  imports SharedState ScriptPlan ConnPool
begin

text \<open>
  The sync process: \<^verbatim>\<open>cmd/oncecall_sync/entry/syncd.go\<close>,
  \<^verbatim>\<open>entry/syncd/db_fetcher.go\<close>, \<^verbatim>\<open>private_state.go\<close> and
  \<^verbatim>\<open>proc_sync_linux.go\<close>.  It fetches its own connection, the list of connections and
  its scripts from the management database, keeps one pool per connection and one plan per
  script, and stops when its parent is gone or a fetch fails.

  The management pool is a query function, as in \<open>Master\<close>.  The TOML parser and MD5 are
  parameters of \<^verbatim>\<open>Script\<close>.
\<close>

section \<open>Decoding a row\<close>

text \<open>
  \<^verbatim>\<open>x, ok = data[idx][i].(string)\<close>, then, when it is not, an error whose message takes
  the value's dynamic type: for a nil cell \<^verbatim>\<open>reflect.ValueOf(nil).Type()\<close> panics.
\<close>

definition type_name_err :: "goval \<Rightarrow> string \<Rightarrow> 'a go" where
  "type_name_err v msg = (if v = GNil then Panic (PExplicit ''reflect: call of reflect.Value.Type on zero Value'')
     else Err (sentinel_err ParseError msg))"

definition cell_string :: "goval list \<Rightarrow> int \<Rightarrow> string \<Rightarrow> string go" where
  "cell_string row i msg =
    bind_go (go_index row i) (\<lambda>v. case v of GString s \<Rightarrow> Ok s | _ \<Rightarrow> type_name_err v msg)"

definition cell_int :: "goval list \<Rightarrow> int \<Rightarrow> string \<Rightarrow> int go" where
  "cell_int row i msg =
    bind_go (go_index row i) (\<lambda>v. case v of GInt n \<Rightarrow> Ok (sint n) | _ \<Rightarrow> type_name_err v msg)"

definition parsing_conn_info :: "goval list \<Rightarrow> (string \<times> conn_config) go" where
  "parsing_conn_info row =
    bind_go (cell_string row 0 ''db dbtype row content not matching %s'') (\<lambda>ident.
    bind_go (cell_string row 1 ''db dbtype row content not matching %s'') (\<lambda>dbType.
    bind_go (cell_string row 2 ''db server address row content not matching %s'') (\<lambda>server.
    bind_go (cell_string row 3 ''db dbname row content not matching %s'') (\<lambda>name.
    bind_go (cell_string row 4 ''db userid row content not matching %s'') (\<lambda>uid.
    bind_go (cell_string row 5 ''db password row content not matching %s'') (\<lambda>pw.
    bind_go (cell_int row 6 ''db maxconn row content not matching %s'') (\<lambda>maxConn.
      Ok (ident, zero_conn_config\<lparr>cc_DBType := dbType, cc_Server := server, cc_Name := name, cc_Id := uid,
        cc_Password := pw, cc_MaxConn := maxConn\<rparr>))))))))"

section \<open>The fetcher\<close>

type_synonym 'q query = "conn_args \<Rightarrow> ('q, rows \<times> string list) goS"

definition ident_args :: "string \<Rightarrow> string \<Rightarrow> conn_args" where
  "ident_args q ident = \<lparr>a_Query = q, a_Args = Some [[GString ident]], a_IsTransaction = False\<rparr>"

fun option_loop :: "rows \<Rightarrow> (string \<times> goval) list \<Rightarrow> (string \<times> goval) list go" where
  "option_loop [] ret = Ok ret"
| "option_loop (row # rows) ret =
    (if length row \<noteq> 2 then Err (sentinel_err SentinelCatchError ''db script row length not matching %d'')
     else bind_go (cell_string row 0 ''db key row content not matching %s'') (\<lambda>key.
       option_loop rows (AList.update key (row ! 1) ret)))"

definition db_option :: "'q query \<Rightarrow> process_config \<Rightarrow> string \<Rightarrow> ('q, (string \<times> goval) list) goS" where
  "db_option query conf ident =
    bindS (wrapS ''db option ident failed : %s'' (query (ident_args (q_DbList (pc_Sync conf)) ident)))
      (\<lambda>(data, _). liftS (option_loop data []))"

text \<open>\<^verbatim>\<open>Self\<close> returns \<^verbatim>\<open>ret\<close>, into which only the options were put.\<close>

definition fetch_self :: "'q query \<Rightarrow> process_config \<Rightarrow> string \<Rightarrow> ('q, conn_config) goS" where
  "fetch_self query conf syncIdent =
    bindS (wrapS ''db list ident failed : %s'' (query (ident_args (q_DbList (pc_Sync conf)) syncIdent)))
      (\<lambda>(data, _).
        if length data \<noteq> 1 then failS (sentinel_err SentinelCatchError ''not unique data, ident=%s'')
        else bindS (liftS (wrap_err ''failed data[all:%d, current:%d]'' (parsing_conn_info (data ! 0)))) (\<lambda>(ident, info).
          if ident \<noteq> syncIdent then failS (sentinel_err SentinelCatchError ''%s != %s'')
          else bindS (wrapS ''get failed option'' (db_option query conf ident)) (\<lambda>opt.
            retS (zero_conn_config\<lparr>cc_OptionMap := opt\<rparr>))))"

fun db_list_loop ::
    "'q query \<Rightarrow> process_config \<Rightarrow> rows \<Rightarrow> (string \<times> conn_config) list \<Rightarrow> ('q, (string \<times> conn_config) list) goS" where
  "db_list_loop query conf [] ret = retS ret"
| "db_list_loop query conf (row # rows) ret =
    (if length row \<noteq> 1 then failS (sentinel_err SentinelCatchError ''db ident row length not matching %d'')
     else bindS (liftS (wrap_err ''failed data[all:%d, current:%d]'' (parsing_conn_info row))) (\<lambda>(ident, info).
       bindS (wrapS ''get failed option'' (db_option query conf ident)) (\<lambda>opt.
         db_list_loop query conf rows (AList.update ident (info\<lparr>cc_OptionMap := opt\<rparr>) ret))))"

definition fetch_db_list :: "'q query \<Rightarrow> process_config \<Rightarrow> ('q, (string \<times> conn_config) list) goS" where
  "fetch_db_list query conf =
    bindS (wrapS ''db list ident failed : %s''
        (query \<lparr>a_Query = q_DbList (pc_Sync conf), a_Args = None, a_IsTransaction = False\<rparr>))
      (\<lambda>(data, _). if length data = 0 then retS [] else db_list_loop query conf data [])"

type_synonym script_list = "(string \<times> 8 word list \<times> script_config) list"

fun script_loop ::
    "(string \<Rightarrow> script_config go) \<Rightarrow> (string \<Rightarrow> 8 word list) \<Rightarrow> rows \<Rightarrow> script_list \<Rightarrow> script_list go" where
  "script_loop parse md5 [] ret = Ok ret"
| "script_loop parse md5 (row # rows) ret =
    (if length row \<noteq> 2 then Err (sentinel_err SentinelCatchError ''db script row length not matching %d'')
     else bind_go (cell_string row 0 ''db dbtype row content not matching %s'') (\<lambda>scriptName.
       bind_go (cell_string row 1 ''db dbtype row content not matching %s'') (\<lambda>scriptData.
       bind_go (wrap_err ''db script row content : %s'' (toml_parse parse scriptData)) (\<lambda>conf.
         script_loop parse md5 rows (AList.update scriptName (md5 scriptData, conf) ret)))))"

definition fetch_script ::
    "(string \<Rightarrow> script_config go) \<Rightarrow> (string \<Rightarrow> 8 word list) \<Rightarrow> 'q query \<Rightarrow> process_config \<Rightarrow> string \<Rightarrow>
     ('q, script_list) goS" where
  "fetch_script parse md5 query conf syncIdent =
    bindS (wrapS ''script ident failed : %s'' (query (ident_args (q_Script (pc_Sync conf)) syncIdent)))
      (\<lambda>(data, _). if length data = 0 then retS [] else liftS (script_loop parse md5 data []))"

section \<open>Resetting the pools\<close>

text \<open>The loop over the fetched list; \<open>newPool\<close> is \<^verbatim>\<open>connpool.NewConnPool\<close>.\<close>

definition reset_one_pool ::
    "('w, 'p) pool_ops \<Rightarrow> (string \<Rightarrow> conn_config \<Rightarrow> 'p go) \<Rightarrow> string \<times> conn_config \<Rightarrow> (('w, 'p) shared_state, unit) goS" where
  "reset_one_pool ops newPool ki s =
    (case ki of (ident, info) \<Rightarrow>
      bindS (liftS (wrap_err ''get failed conn pool'' (get_conn_pool ident s))) (\<lambda>p.
        if cc_Server (po_config ops p) = cc_Server info \<and> cc_Name (po_config ops p) = cc_Name info then retS ()
        else bindS (liftS (wrap_err ''new conn pool failed'' (newPool ident info))) (\<lambda>newP.
          push_conn_pool ops ident newP)) s)"

definition syncd_reset_pools ::
    "('w, 'p) pool_ops \<Rightarrow> (string \<Rightarrow> conn_config \<Rightarrow> 'p go) \<Rightarrow> (string \<times> conn_config) list \<Rightarrow>
     (('w, 'p) shared_state, unit) goS" where
  "syncd_reset_pools ops newPool list = forS list (reset_one_pool ops newPool)"

definition syncd_reset_db_list ::
    "('w, 'p) pool_ops \<Rightarrow> (string \<Rightarrow> conn_config \<Rightarrow> 'p go) \<Rightarrow> 'q query \<Rightarrow> process_config \<Rightarrow>
     ('q \<times> ('w, 'p) shared_state, unit) goS" where
  "syncd_reset_db_list ops newPool query conf qs =
    (case qs of (q, s) \<Rightarrow>
      (case wrapS ''get failed db list'' (fetch_db_list query conf) q of
        (Ok list, q') \<Rightarrow> (case syncd_reset_pools ops newPool list s of (r, s') \<Rightarrow> (r, (q', s')))
      | (Err e, q') \<Rightarrow> (Err e, (q', s))
      | (Panic x, q') \<Rightarrow> (Panic x, (q', s))))"

section \<open>Resetting the plans\<close>

record plan_data =
  pd_Hash :: "8 word list"
  pd_Plan :: script_config
  pd_State :: plan_state

type_synonym plan_map = "(string, plan_data) sync_map"

definition drop_missing :: "string list \<Rightarrow> plan_map \<Rightarrow> plan_map" where
  "drop_missing ks m = sm_range (\<lambda>key _ d. (True, if key \<notin> set ks then sm_delete d key else d)) m m"

definition new_plan_data :: "string \<Rightarrow> string \<Rightarrow> 8 word list \<Rightarrow> script_config \<Rightarrow> plan_data go" where
  "new_plan_data syncIdent k hash conf =
    (case sc_Option conf of
      None \<Rightarrow> Panic PNilDeref
    | Some opt \<Rightarrow>
        bind_go (new_plan_state (new_ident_key syncIdent k) (int (length (sc_Read conf)))
            (so_PlanColsBufAlloc opt) (so_PlanRowBufCap opt) (so_PlanRowBufIdleTime opt)) (\<lambda>st.
          Ok \<lparr>pd_Hash = hash, pd_Plan = conf, pd_State = st\<rparr>))"

text \<open>\<open>zero\<close> is the zero \<^verbatim>\<open>ScriptConfig\<close> a missing key of \<^verbatim>\<open>scriptList\<close> reads as.\<close>

definition zero_script :: "8 word list \<times> script_config" where
  "zero_script = (replicate 16 0, \<lparr>sc_IntervalSec = 0, sc_Init = None, sc_Option = None, sc_VmLang = None,
     sc_Read = [], sc_Sync = \<lparr>sy_Bind = None, sy_Tran = False, sy_Query = []\<rparr>\<rparr>)"

definition reset_one_plan :: "string \<Rightarrow> script_list \<Rightarrow> string \<Rightarrow> (plan_map, unit) goS" where
  "reset_one_plan syncIdent scripts k m =
    (let (hash, conf) = (case map_of scripts k of None \<Rightarrow> zero_script | Some d \<Rightarrow> d) in
     case map_of m k of
       Some already \<Rightarrow>
         if pd_Hash already = hash then (Ok (), m)
         else (let m = sm_delete m k in
           case new_plan_data syncIdent k hash conf of
             Ok d \<Rightarrow> (Ok (), sm_store m k d) | Err e \<Rightarrow> (Err e, m) | Panic x \<Rightarrow> (Panic x, m))
     | None \<Rightarrow>
         (case new_plan_data syncIdent k hash conf of
           Ok d \<Rightarrow> (Ok (), sm_store m k d) | Err e \<Rightarrow> (Err e, m) | Panic x \<Rightarrow> (Panic x, m)))"

definition syncd_reset_script_plan :: "string \<Rightarrow> string list \<Rightarrow> script_list \<Rightarrow> (plan_map, unit) goS" where
  "syncd_reset_script_plan syncIdent ks scripts =
    (\<lambda>m. forS ks (reset_one_plan syncIdent scripts) (drop_missing ks m))"

text \<open>\<^verbatim>\<open>slices.Collect(maps.Keys(scriptList))\<close> in the order of the list.\<close>

definition syncd_reset_script ::
    "(string \<Rightarrow> script_config go) \<Rightarrow> (string \<Rightarrow> 8 word list) \<Rightarrow> 'q query \<Rightarrow> process_config \<Rightarrow> string \<Rightarrow>
     ('q \<times> plan_map, unit) goS" where
  "syncd_reset_script parse md5 query conf syncIdent qm =
    (case qm of (q, m) \<Rightarrow>
      (case wrapS ''get failed script list'' (fetch_script parse md5 query conf syncIdent) q of
        (Ok scripts, q') \<Rightarrow>
          (case syncd_reset_script_plan syncIdent (map fst scripts) scripts m of (r, m') \<Rightarrow> (r, (q', m')))
      | (Err e, q') \<Rightarrow> (Err e, (q', m))
      | (Panic x, q') \<Rightarrow> (Panic x, (q', m))))"

section \<open>The entry of the sync process\<close>

text \<open>\<^verbatim>\<open>IsParentRunning\<close>, given the parent's pid and what reading its stat file gave.\<close>

fun last_index :: "string \<Rightarrow> char \<Rightarrow> int" where
  "last_index s c = (if c \<in> set s then int (length s) - 1 - int (length (takeWhile (\<lambda>x. x \<noteq> c) (rev s))) else -1)"

definition is_parent_running :: "int \<Rightarrow> string go \<Rightarrow> bool" where
  "is_parent_running ppid dat =
    (if ppid \<le> 0 then False
     else (case dat of
        Ok stat \<Rightarrow>
          (let idx = last_index stat (CHR '')'') in
           if idx < 0 \<or> int (length stat) \<le> idx + 2 then False
           else stat ! nat (idx + 2) \<noteq> CHR ''Z'' \<and> stat ! nat (idx + 2) \<noteq> CHR ''X'')
      | _ \<Rightarrow> False))"

text \<open>What one sync process owns, and one turn of its loop: \<open>True\<close> when it goes on, \<open>False\<close>
  when it logged an error and left the loop.\<close>

record ('q, 'w, 'p) syncd_state =
  sd_query :: 'q
  sd_shared :: "('w, 'p) shared_state"
  sd_plans :: plan_map

definition syncd_round ::
    "('w, 'p) pool_ops \<Rightarrow> (string \<Rightarrow> conn_config \<Rightarrow> 'p go) \<Rightarrow> (string \<Rightarrow> script_config go) \<Rightarrow>
     (string \<Rightarrow> 8 word list) \<Rightarrow> 'q query \<Rightarrow> process_config \<Rightarrow> string \<Rightarrow> bool \<Rightarrow>
     (('q, 'w, 'p) syncd_state, bool) goS" where
  "syncd_round ops newPool parse md5 query conf syncIdent parentUp d =
    (if \<not> parentUp then (Ok False, d)
     else (case syncd_reset_db_list ops newPool query conf (sd_query d, sd_shared d) of
        (Err e, (q, s)) \<Rightarrow> (Ok False, d\<lparr>sd_query := q, sd_shared := s\<rparr>)
      | (Panic x, (q, s)) \<Rightarrow> (Panic x, d\<lparr>sd_query := q, sd_shared := s\<rparr>)
      | (Ok _, (q, s)) \<Rightarrow>
          (case syncd_reset_script parse md5 query conf syncIdent (q, sd_plans d) of
            (Err e, (q, m)) \<Rightarrow> (Ok False, d\<lparr>sd_query := q, sd_shared := s, sd_plans := m\<rparr>)
          | (Panic x, (q, m)) \<Rightarrow> (Panic x, d\<lparr>sd_query := q, sd_shared := s, sd_plans := m\<rparr>)
          | (Ok _, (q, m)) \<Rightarrow> (Ok True, d\<lparr>sd_query := q, sd_shared := s, sd_plans := m\<rparr>))))"

text \<open>Before the loop: its own connection information and pool; \<open>None\<close> when it returns at once.\<close>

definition syncd_start ::
    "(string \<Rightarrow> conn_config \<Rightarrow> 'p go) \<Rightarrow> 'q query \<Rightarrow> process_config \<Rightarrow> string \<Rightarrow> ('q, 'p option) goS" where
  "syncd_start newPool query conf syncIdent q =
    (case fetch_self query conf syncIdent q of
      (Err e, q') \<Rightarrow> (Ok None, q')
    | (Panic x, q') \<Rightarrow> (Panic x, q')
    | (Ok info, q') \<Rightarrow>
        (case newPool syncIdent info of
          Ok p \<Rightarrow> (Ok (Some p), q')
        | Err e \<Rightarrow> (Ok None, q')
        | Panic x \<Rightarrow> (Panic x, q')))"

section \<open>Fetching\<close>

lemma db_list_loop_long: "data \<noteq> [] \<Longrightarrow> db_list_loop query conf data ret q \<noteq> (Ok l, q')"
proof -
  assume "data \<noteq> []"
  then obtain row rest where data: "data = row # rest" by (cases data) auto
  have "parsing_conn_info row \<noteq> Ok x" if "length row = 1" for x
    using that by (cases row) (auto simp: parsing_conn_info_def cell_string_def bind_go_Ok_iff go_index_Ok_iff)
  then show ?thesis
    by (cases "parsing_conn_info row") (auto simp: data bindS_def liftS_def)
qed

lemma fetch_db_list_empty: "fetch_db_list query conf q = (Ok list, q') \<Longrightarrow> list = []"
  using db_list_loop_long[of _ query conf "[]"]
  by (auto simp: fetch_db_list_def split: if_splits elim!: bindS_cases)

text \<open>\<^verbatim>\<open>DBList\<close> can only return an empty list.  It refuses rows that do not have exactly
  one cell and then reads seven cells of them: a one-cell row whose cell is a string is an index
  panic.\<close>

theorem fetch_db_list_never_lists:
  assumes "query \<lparr>a_Query = q_DbList (pc_Sync conf), a_Args = None, a_IsTransaction = False\<rparr> q = (Ok (data, cols), q')"
  shows "(\<forall>list. fst (fetch_db_list query conf q) = Ok list \<longrightarrow> list = [] \<and> data = []) \<and>
    (\<forall>s rest. data = [GString s] # rest \<longrightarrow> fetch_db_list query conf q = (Panic PIndex, q'))"
proof (intro conjI allI impI)
  fix list
  assume "fst (fetch_db_list query conf q) = Ok list"
  then have l: "fetch_db_list query conf q = (Ok list, snd (fetch_db_list query conf q))" by (simp add: prod_eq_iff)
  have "data = []"
    using l assms db_list_loop_long[of data query conf "[]" q' list]
    by (auto simp: fetch_db_list_def wrapS_def split: if_splits elim!: bindS_cases)
  then show "list = []" "data = []" using fetch_db_list_empty[OF l] by auto
next
  fix s rest
  assume "data = [GString s] # rest"
  then show "fetch_db_list query conf q = (Panic PIndex, q')"
    using assms by (simp add: fetch_db_list_def bindS_def wrapS_def parsing_conn_info_def cell_string_def go_index_def)
qed

lemma fetch_db_list_never_lists_witness:
  "fetch_db_list (\<lambda>_ q. (Ok ([[GString ''a'']], []), q)) default_process_config () = (Panic PIndex, ())"
  using fetch_db_list_never_lists[of "\<lambda>_ q. (Ok ([[GString ''a'']], []), q)" default_process_config "()" "[[GString ''a'']]" "[]" "()"]
  by simp

lemma fetch_self_result: "fetch_self query conf syncIdent q = (Ok info, q') \<Longrightarrow>
    info = zero_conn_config\<lparr>cc_OptionMap := cc_OptionMap info\<rparr>"
  by (auto simp: fetch_self_def split: if_splits elim!: bindS_cases)

text \<open>When \<^verbatim>\<open>Self\<close> succeeds, the connection information it read is lost: every field of
  what it returns but the options is empty, so the sync process connects to the default driver
  with no server, name or user.\<close>

theorem fetch_self_drops_info:
  assumes "fetch_self query conf syncIdent q = (Ok info, q')"
  shows "cc_DBType info = [] \<and> cc_Server info = [] \<and> cc_Name info = [] \<and> cc_Id info = [] \<and>
    cc_Password info = [] \<and> cc_MaxConn info = 0 \<and> generator_of (cc_DBType info) = StdGen"
  by (subst (1 2 3 4 5 6 7) fetch_self_result[OF assms]) (simp add: zero_conn_config_def generator_of_def)

definition self_row :: "goval list" where
  "self_row = [GString ''me'', GString ''mysql'', GString ''db:3306'', GString ''n'', GString ''u'', GString ''p'', GInt 3]"

text \<open>A database that answers the first query with the row and the second with no options.\<close>

definition self_query :: "nat query" where
  "self_query arg n = (Ok (if n = 0 then [self_row] else [], []), Suc n)"

lemma fetch_self_drops_info_witness:
  "\<exists>info. fetch_self self_query default_process_config ''me'' 0 = (Ok info, 2) \<and> cc_Server info = []"
proof -
  have "fetch_self self_query default_process_config ''me'' 0 = (Ok zero_conn_config, 2)"
    by (simp add: fetch_self_def self_query_def self_row_def bindS_def wrapS_def parsing_conn_info_def cell_string_def
        cell_int_def go_index_def db_option_def zero_conn_config_def)
  from this fetch_self_drops_info[OF this] show ?thesis by blast
qed

section \<open>Pools\<close>

lemma reset_pools_missing:
  assumes "\<exists>ki \<in> set list. map_of (ss_connPool s) (fst ki) = None"
    and "\<And>ki p. ki \<in> set list \<Longrightarrow> map_of (ss_connPool s) (fst ki) \<noteq> Some p"
  shows "syncd_reset_pools ops newPool list s = (Err (EWrap (Some (sentinel_err NotExistsError ''%s not exists'')) ''get failed conn pool''), s)"
proof -
  obtain ki rest where list: "list = ki # rest" using assms(1) by (cases list) auto
  have "map_of (ss_connPool s) (fst ki) = None" using assms(2)[of ki] list by (cases "map_of (ss_connPool s) (fst ki)") auto
  then show ?thesis
    by (cases ki) (simp add: syncd_reset_pools_def list bindS_def reset_one_pool_def get_conn_pool_def)
qed

text \<open>A listed connection gets a pool only if it already has one: in a process that starts with
  no pool (as every sync process does) resetting to any non-empty list fails with "not exists",
  registers nothing, and ends the process's loop; the empty list changes nothing.\<close>

theorem reset_pools_never_creates:
  shows "syncd_reset_pools ops newPool list (new_shared_state w) =
    (if list = [] then Ok () else Err (EWrap (Some (sentinel_err NotExistsError ''%s not exists'')) ''get failed conn pool''),
     new_shared_state w)"
proof (cases "list = []")
  case True
  then show ?thesis by (simp add: syncd_reset_pools_def)
next
  case False
  then have "\<exists>ki \<in> set list. map_of (ss_connPool (new_shared_state w)) (fst ki) = None"
    by (cases list) (auto simp: new_shared_state_def new_sync_map_def)
  from reset_pools_missing[OF this, of ops newPool] False show ?thesis
    by (simp add: new_shared_state_def new_sync_map_def)
qed

section \<open>Plans\<close>

lemma drop_missing_eq:
  "sm_wf m \<Longrightarrow> sm_wf (drop_missing ks m) \<and> map_of (drop_missing ks m) = map_of m |` set ks"
proof -
  have fold: "sm_range (\<lambda>key _ d. (True, if key \<notin> set ks then sm_delete d key else d)) xs d =
      foldl sm_delete d (filter (\<lambda>k. k \<notin> set ks) (map fst xs))" for xs d
    by (induction xs arbitrary: d) auto
  assume wf: "sm_wf m"
  have "map_of m |` (- set (filter (\<lambda>k. k \<notin> set ks) (map fst m))) = map_of m |` set ks"
    by (auto simp: restrict_map_def fun_eq_iff map_of_eq_None_iff)
  then show ?thesis
    using sync.lookup_del_all[OF wf, of "filter (\<lambda>k. k \<notin> set ks) (map fst m)"] by (simp add: drop_missing_def fold)
qed

text \<open>A plan as it is made new: nothing run, nothing buffered.\<close>

definition fresh_plan :: "string \<Rightarrow> string \<Rightarrow> 8 word list \<Rightarrow> script_config \<Rightarrow> plan_data \<Rightarrow> bool" where
  "fresh_plan syncIdent k hash conf d \<longleftrightarrow> pd_Hash d = hash \<and> pd_Plan d = conf \<and> ps_seq (pd_State d) = 0 \<and>
    \<not> ps_isInit (pd_State d) \<and> ps_syncIdent (pd_State d) = new_ident_key syncIdent k \<and>
    pb_wf (ps_buf (pd_State d)) \<and> length (pb_m (ps_buf (pd_State d))) = length (sc_Read conf)"

lemma new_plan_data_ok:
  assumes "sc_Option conf = Some opt"
  shows "\<exists>d. new_plan_data syncIdent k hash conf = Ok d \<and> fresh_plan syncIdent k hash conf d"
proof -
  obtain b where b: "new_plan_param_buffer (int (length (sc_Read conf))) (so_PlanColsBufAlloc opt) (so_PlanRowBufCap opt)
      (so_PlanRowBufIdleTime opt) = Ok b"
    by (simp add: new_plan_param_buffer_def go_make_def)
  from new_plan_param_buffer_wf[OF b] b assms show ?thesis
    by (simp add: new_plan_data_def new_plan_state_def fresh_plan_def)
qed

text \<open>What one key is after the reset: kept when its hash is unchanged, made new otherwise.\<close>

definition plan_updated :: "string \<Rightarrow> script_list \<Rightarrow> plan_data option \<Rightarrow> string \<Rightarrow> plan_data option \<Rightarrow> bool" where
  "plan_updated syncIdent scripts old k new \<longleftrightarrow>
    (\<exists>hash conf d. map_of scripts k = Some (hash, conf) \<and> new = Some d \<and>
      (case old of
        Some o' \<Rightarrow> if pd_Hash o' = hash then d = o' else fresh_plan syncIdent k hash conf d
      | None \<Rightarrow> fresh_plan syncIdent k hash conf d))"

lemma plan_updatedD:
  assumes "plan_updated syncIdent scripts old k new" "map_of scripts k = Some (hash, conf)"
  shows "\<exists>o'. old = Some o' \<and> pd_Hash o' = hash \<Longrightarrow> new = old"
    and "\<nexists>o'. old = Some o' \<and> pd_Hash o' = hash \<Longrightarrow> \<exists>d. new = Some d \<and> fresh_plan syncIdent k hash conf d"
  using assms by (auto simp: plan_updated_def split: option.splits if_splits)

lemma reset_one_plan_ok:
  assumes "sm_wf m" "map_of scripts k = Some (hash, conf)" "sc_Option conf \<noteq> None"
  shows "\<exists>m'. reset_one_plan syncIdent scripts k m = (Ok (), m') \<and> sm_wf m' \<and>
    plan_updated syncIdent scripts (map_of m k) k (map_of m' k) \<and> (\<forall>j. j \<noteq> k \<longrightarrow> map_of m' j = map_of m j)"
proof -
  obtain opt where "sc_Option conf = Some opt" using assms(3) by auto
  then obtain d where d: "new_plan_data syncIdent k hash conf = Ok d" "fresh_plan syncIdent k hash conf d"
    using new_plan_data_ok by blast
  show ?thesis
    using assms(1,2) d by (cases "map_of m k") (auto simp: reset_one_plan_def plan_updated_def Let_def)
qed

lemma reset_plans_ok:
  assumes "sm_wf m" "distinct ks"
    and "\<And>k. k \<in> set ks \<Longrightarrow> \<exists>hash conf. map_of scripts k = Some (hash, conf) \<and> sc_Option conf \<noteq> None"
  shows "\<exists>m'. forS ks (reset_one_plan syncIdent scripts) m = (Ok (), m') \<and> sm_wf m' \<and>
    (\<forall>k \<in> set ks. plan_updated syncIdent scripts (map_of m k) k (map_of m' k)) \<and>
    (\<forall>j. j \<notin> set ks \<longrightarrow> map_of m' j = map_of m j)"
  using assms
proof (induction ks arbitrary: m)
  case Nil
  then show ?case by simp
next
  case (Cons k ks)
  obtain hash conf where hc: "map_of scripts k = Some (hash, conf)" "sc_Option conf \<noteq> None"
    using Cons.prems(3) by (meson list.set_intros(1))
  obtain m1 where m1: "reset_one_plan syncIdent scripts k m = (Ok (), m1)" "sm_wf m1"
      "plan_updated syncIdent scripts (map_of m k) k (map_of m1 k)" "\<forall>j. j \<noteq> k \<longrightarrow> map_of m1 j = map_of m j"
    using reset_one_plan_ok[OF Cons.prems(1) hc] by blast
  obtain m2 where m2: "forS ks (reset_one_plan syncIdent scripts) m1 = (Ok (), m2)" "sm_wf m2"
      "\<forall>k \<in> set ks. plan_updated syncIdent scripts (map_of m1 k) k (map_of m2 k)"
      "\<forall>j. j \<notin> set ks \<longrightarrow> map_of m2 j = map_of m1 j"
    using Cons.IH[OF m1(2)] Cons.prems(2,3) by force
  have "plan_updated syncIdent scripts (map_of m j) j (map_of m2 j)" if "j \<in> set ks" for j
    using m2(3) that m1(4) Cons.prems(2) by (metis distinct.simps(2))
  then show ?case
    using m1 m2 Cons.prems(2) by (intro exI[of _ m2]) auto
qed

text \<open>C12: Resetting the plans to a list of scripts that all have an \<^verbatim>\<open>[option]\<close> table leaves
  exactly one plan per script: a plan whose script's hash is unchanged keeps its state, every other
  one is new, and the plans of scripts no longer listed are gone.\<close>

theorem reset_script_plan_spec:
  assumes "sm_wf m" "distinct (map fst scripts)"
    and "\<And>k hash conf. (k, hash, conf) \<in> set scripts \<Longrightarrow> sc_Option conf \<noteq> None"
  shows "\<exists>m'. syncd_reset_script_plan syncIdent (map fst scripts) scripts m = (Ok (), m') \<and> sm_wf m' \<and>
    dom (map_of m') = fst ` set scripts \<and>
    (\<forall>k hash conf. (k, hash, conf) \<in> set scripts \<longrightarrow>
      (\<forall>old. map_of m k = Some old \<and> pd_Hash old = hash \<longrightarrow> map_of m' k = Some old) \<and>
      ((\<nexists>old. map_of m k = Some old \<and> pd_Hash old = hash) \<longrightarrow>
        (\<exists>d. map_of m' k = Some d \<and> fresh_plan syncIdent k hash conf d)))"
proof -
  let ?ks = "map fst scripts"
  note dm = drop_missing_eq[OF assms(1), of ?ks]
  have ex: "\<exists>hash conf. map_of scripts k = Some (hash, conf) \<and> sc_Option conf \<noteq> None" if k: "k \<in> set ?ks" for k
  proof -
    obtain hash conf where "(k, hash, conf) \<in> set scripts" using k by auto
    then show ?thesis using assms(2,3) map_of_is_SomeI by fastforce
  qed
  obtain m' where m': "forS ?ks (reset_one_plan syncIdent scripts) (drop_missing ?ks m) = (Ok (), m')" "sm_wf m'"
      "\<forall>k \<in> set ?ks. plan_updated syncIdent scripts (map_of (drop_missing ?ks m) k) k (map_of m' k)"
      "\<forall>j. j \<notin> set ?ks \<longrightarrow> map_of m' j = map_of (drop_missing ?ks m) j"
    using reset_plans_ok[of "drop_missing ?ks m" ?ks scripts syncIdent] dm assms(2) ex by blast
  have upd: "plan_updated syncIdent scripts (map_of m k) k (map_of m' k)" if "(k, hash, conf) \<in> set scripts" for k hash conf
  proof -
    have k: "k \<in> set ?ks" using that by force
    then have "map_of (drop_missing ?ks m) k = map_of m k" using dm by simp
    with m'(3) k show ?thesis by metis
  qed
  have "dom (map_of m') = fst ` set scripts"
  proof
    show "dom (map_of m') \<subseteq> fst ` set scripts"
      using m'(4) dm by (auto simp: restrict_map_def dom_def)
    show "fst ` set scripts \<subseteq> dom (map_of m')"
      using upd by (force simp: plan_updated_def)
  qed
  moreover have "map_of scripts k = Some (hash, conf)" if "(k, hash, conf) \<in> set scripts" for k hash conf
    using that assms(2) by (simp add: map_of_is_SomeI)
  ultimately show ?thesis
    using m'(1,2) plan_updatedD[OF upd]
    by (intro exI[of _ m'] conjI allI impI) (simp_all add: syncd_reset_script_plan_def)
qed

definition probe_script :: script_config where
  "probe_script = (probe_config None None)\<lparr>sc_Option := Some \<lparr>so_PlanRowBufCap = 4, so_PlanColsBufAlloc = 2, so_PlanRowBufIdleTime = 60\<rparr>\<rparr>"

lemma reset_script_plan_spec_witness:
  "\<exists>m'. syncd_reset_script_plan ''me'' [''s''] [(''s'', [1], probe_script)] [] = (Ok (), m') \<and> dom (map_of m') = {''s''}"
  using reset_script_plan_spec[of "[]" "[(''s'', [1], probe_script)]" "''me''"]
  by (auto simp: sm_wf_def probe_script_def)

section \<open>On a connection pool\<close>

context rowless_source begin

lemma rowless_self: "fst (fetch_self query conf syncIdent s) \<noteq> Ok info"
proof
  assume "fst (fetch_self query conf syncIdent s) = Ok info"
  then have "fetch_self query conf syncIdent s = (Ok info, snd (fetch_self query conf syncIdent s))"
    by (simp add: prod_eq_iff)
  then show False
    by (auto simp: fetch_self_def wrapS_def split: prod.splits if_splits elim!: bindS_cases dest!: no_rows)
qed

lemma rowless_script: "fetch_script parse md5 query conf syncIdent s = (Ok l, s') \<Longrightarrow> l = []"
  by (auto simp: fetch_script_def wrapS_def split: prod.splits if_splits elim!: bindS_cases dest!: no_rows)

end

text \<open>Fed by the connection pool the program really uses, a sync process never gets its own
  connection information: it stops before its loop (or panics in the driver).\<close>

theorem syncd_never_starts:
  "fst (syncd_start newPool (cp_run_query ops sec sec' :: _ \<Rightarrow> (('w, 'c, 'm) conn_pool, _) goS) conf syncIdent q) \<in>
    {Ok None} \<union> range Panic"
proof -
  obtain r q' where r: "fetch_self (cp_run_query ops sec sec' :: _ \<Rightarrow> (('w, 'c, 'm) conn_pool, _) goS) conf syncIdent q = (r, q')"
    by fastforce
  then have "\<forall>info. r \<noteq> Ok info"
    using manage_pool.rowless_self[of ops sec sec' conf syncIdent q] by (metis fst_conv)
  with r show ?thesis by (cases r) (auto simp: syncd_start_def)
qed

end
