(* ===== verification/Background.thy ===== *)
theory Background
  imports SharedState
begin

text \<open>
  \<^verbatim>\<open>syncdBackground\<close> of \<^verbatim>\<open>cmd/oncecall_sync/entry/syncd.go\<close>: the goroutine
  that starts the plans, the goroutines it starts, and the loop of \<^verbatim>\<open>SyncdEntry\<close> that
  replaces entries of the plan map meanwhile, interleaved step by step.  Each step makes one access
  to what they share: the plan map, and the thread states of \<open>SharedState\<close>.

  A plan's state is a pointer the copies of a map entry share; plan states are numbered in the order
  they are made.  What a run does is in \<open>ScriptPlan\<close>; here it is the time between
  \<^verbatim>\<open>SetRunningThreadState\<close> and \<^verbatim>\<open>SetStopThreadState\<close>.
\<close>

section \<open>The goroutines\<close>

datatype run_pc = Spawned | Running | Ended

record goroutine =
  gr_key :: string
  gr_state :: nat
  gr_pc :: run_pc

record ('w, 'p) background =
  bg_plans :: "(string, nat) sync_map"
  bg_nextState :: nat
  bg_shared :: "('w, 'p) shared_state"
  bg_visiting :: "(string \<times> nat) option"
  bg_visited :: "string list"
  bg_threads :: "goroutine list"

text \<open>A \<^verbatim>\<open>Range\<close> visits a key at most once, with the entry it finds at that moment.\<close>

datatype bg_act =
    NextRange
  | Visit string
  | CheckState
  | Begin nat
  | Finish nat
  | StorePlan string
  | DeletePlan string

definition bg_start :: "'w \<Rightarrow> ('w, 'p) background" where
  "bg_start w = \<lparr>bg_plans = new_sync_map, bg_nextState = 0, bg_shared = new_shared_state w,
     bg_visiting = None, bg_visited = [], bg_threads = []\<rparr>"

definition set_pc :: "nat \<Rightarrow> run_pc \<Rightarrow> goroutine list \<Rightarrow> goroutine list" where
  "set_pc t p ts = ts[t := (ts ! t)\<lparr>gr_pc := p\<rparr>]"

text \<open>\<open>ident\<close> is \<^verbatim>\<open>config.SyncIdent\<close>; \<open>None\<close> when the step is not possible.\<close>

fun bg_step :: "string \<Rightarrow> bg_act \<Rightarrow> ('w, 'p) background \<Rightarrow> ('w, 'p) background option" where
  "bg_step ident NextRange s =
    (if bg_visiting s = None then Some (s\<lparr>bg_visited := []\<rparr>) else None)"
| "bg_step ident (Visit k) s =
    (case map_of (bg_plans s) k of
      None \<Rightarrow> None
    | Some i \<Rightarrow>
        if bg_visiting s = None \<and> k \<notin> set (bg_visited s)
        then Some (s\<lparr>bg_visiting := Some (k, i), bg_visited := k # bg_visited s\<rparr>) else None)"
| "bg_step ident CheckState s =
    (case bg_visiting s of
      None \<Rightarrow> None
    | Some (k, i) \<Rightarrow>
        (case get_thread_state (new_ident_key ident k) (bg_shared s) of (isRun, exists) \<Rightarrow>
          if exists \<and> isRun then Some (s\<lparr>bg_visiting := None\<rparr>)
          else Some (s\<lparr>bg_visiting := None,
            bg_threads := bg_threads s @ [\<lparr>gr_key = k, gr_state = i, gr_pc = Spawned\<rparr>]\<rparr>)))"
| "bg_step ident (Begin t) s =
    (if t < length (bg_threads s) \<and> gr_pc (bg_threads s ! t) = Spawned
     then Some (s\<lparr>bg_threads := set_pc t Running (bg_threads s),
       bg_shared := set_running_thread_state (new_ident_key ident (gr_key (bg_threads s ! t))) (bg_shared s)\<rparr>)
     else None)"
| "bg_step ident (Finish t) s =
    (if t < length (bg_threads s) \<and> gr_pc (bg_threads s ! t) = Running
     then Some (s\<lparr>bg_threads := set_pc t Ended (bg_threads s),
       bg_shared := set_stop_thread_state (new_ident_key ident (gr_key (bg_threads s ! t))) (bg_shared s)\<rparr>)
     else None)"
| "bg_step ident (StorePlan k) s =
    Some (s\<lparr>bg_plans := sm_store (bg_plans s) k (bg_nextState s), bg_nextState := Suc (bg_nextState s)\<rparr>)"
| "bg_step ident (DeletePlan k) s = Some (s\<lparr>bg_plans := sm_delete (bg_plans s) k\<rparr>)"

fun bg_run :: "string \<Rightarrow> bg_act list \<Rightarrow> ('w, 'p) background \<Rightarrow> ('w, 'p) background option" where
  "bg_run ident [] s = Some s"
| "bg_run ident (a # acts) s = Option.bind (bg_step ident a s) (bg_run ident acts)"

text \<open>Reachable by steps that the condition \<open>P\<close> on the schedule allows.\<close>

inductive bg_reach ::
    "string \<Rightarrow> (bg_act \<Rightarrow> ('w, 'p) background \<Rightarrow> bool) \<Rightarrow> ('w, 'p) background \<Rightarrow> ('w, 'p) background \<Rightarrow> bool"
  for ident P s0 where
  bg_reach_start: "bg_reach ident P s0 s0"
| bg_reach_step: "bg_reach ident P s0 s \<Longrightarrow> P a s \<Longrightarrow> bg_step ident a s = Some s' \<Longrightarrow> bg_reach ident P s0 s'"

lemma bg_reach_run:
  "bg_reach ident P s0 s \<Longrightarrow> bg_run ident acts s = Some s' \<Longrightarrow> (\<And>a u. a \<in> set acts \<Longrightarrow> P a u) \<Longrightarrow> bg_reach ident P s0 s'"
proof (induction acts arbitrary: s)
  case (Cons a acts)
  then obtain u where u: "bg_step ident a s = Some u" "bg_run ident acts u = Some s'"
    by (auto simp: bind_eq_Some_conv)
  then have "bg_reach ident P s0 u" using bg_reach_step Cons.prems(1,3) by (metis list.set_intros(1))
  with Cons u(2) show ?case by simp
qed simp

section \<open>One run per script\<close>

text \<open>The goroutines of a script that have not ended.\<close>

definition active :: "string \<Rightarrow> goroutine list \<Rightarrow> goroutine list" where
  "active k ts = filter (\<lambda>g. gr_key g = k \<and> gr_pc g \<noteq> Ended) ts"

definition all_begun :: "goroutine list \<Rightarrow> bool" where
  "all_begun ts \<longleftrightarrow> (\<forall>g \<in> set ts. gr_pc g \<noteq> Spawned)"

text \<open>A schedule on which a started goroutine gets to its first line before the next visit.\<close>

definition prompt :: "bg_act \<Rightarrow> ('w, 'p) background \<Rightarrow> bool" where
  "prompt a s \<longleftrightarrow> (case a of Visit k \<Rightarrow> all_begun (bg_threads s) | _ \<Rightarrow> True)"

definition bg_inv :: "string \<Rightarrow> ('w, 'p) background \<Rightarrow> bool" where
  "bg_inv ident s \<longleftrightarrow>
    (\<forall>k. length (active k (bg_threads s)) \<le> 1) \<and>
    (\<forall>k. get_thread_state (new_ident_key ident k) (bg_shared s) = (True, True) \<longleftrightarrow>
      (\<exists>g \<in> set (bg_threads s). gr_key g = k \<and> gr_pc g = Running)) \<and>
    (bg_visiting s \<noteq> None \<longrightarrow> all_begun (bg_threads s))"

lemma active_simps [simp]:
  "active k [] = []"
  "active k (g # ts) = (if gr_key g = k \<and> gr_pc g \<noteq> Ended then [g] else []) @ active k ts"
  "active k (ts @ us) = active k ts @ active k us"
  by (simp_all add: active_def)

lemma all_begun_simps [simp]:
  "all_begun []" "all_begun (g # ts) \<longleftrightarrow> gr_pc g \<noteq> Spawned \<and> all_begun ts"
  "all_begun (ts @ us) \<longleftrightarrow> all_begun ts \<and> all_begun us"
  by (auto simp: all_begun_def)

lemma active_Nil_iff: "active k ts = [] \<longleftrightarrow> (\<forall>g \<in> set ts. gr_key g = k \<longrightarrow> gr_pc g = Ended)"
  by (auto simp: active_def filter_empty_conv)

lemma ident_key_eq [simp]: "new_ident_key d k = new_ident_key d k' \<longleftrightarrow> k = k'"
  by (simp add: new_ident_key_def)

lemma split_set_pc:
  assumes "t < length ts"
  obtains ps g qs where "ts = ps @ g # qs" "length ps = t" "ts ! t = g" "set_pc t p ts = ps @ g\<lparr>gr_pc := p\<rparr> # qs"
proof -
  have "ts = take t ts @ ts ! t # drop (Suc t) ts" "length (take t ts) = t"
    using assms by (simp_all add: id_take_nth_drop[symmetric])
  moreover from this have "set_pc t p ts = take t ts @ (ts ! t)\<lparr>gr_pc := p\<rparr> # drop (Suc t) ts"
    using assms by (simp add: set_pc_def upd_conv_take_nth_drop)
  ultimately show ?thesis using that by blast
qed

lemma set_pc_inv:
  assumes "bg_inv ident s" "t < length (bg_threads s)" "gr_pc (bg_threads s ! t) \<noteq> Ended" "p \<noteq> Spawned"
    and sh: "\<And>k. get_thread_state (new_ident_key ident k) sh =
      (if k = gr_key (bg_threads s ! t) then (p = Running, True)
       else get_thread_state (new_ident_key ident k) (bg_shared s))"
  shows "bg_inv ident (s\<lparr>bg_threads := set_pc t p (bg_threads s), bg_shared := sh\<rparr>)"
proof -
  obtain ps g qs where g: "bg_threads s = ps @ g # qs" "bg_threads s ! t = g"
      "set_pc t p (bg_threads s) = ps @ g\<lparr>gr_pc := p\<rparr> # qs"
    using split_set_pc[OF assms(2)] by metis
  have le: "length (active k (ps @ g # qs)) \<le> 1" for k using assms(1) g(1) by (simp add: bg_inv_def)
  have one: "length (active k (ps @ g\<lparr>gr_pc := p\<rparr> # qs)) \<le> 1" for k
    using le[of k] assms(3) g(2) by (simp split: if_splits)
  have "active (gr_key g) ps = []" "active (gr_key g) qs = []" using le[of "gr_key g"] assms(3) g(2) by auto
  then have others: "h \<in> set ps \<union> set qs \<Longrightarrow> gr_key h = gr_key g \<Longrightarrow> gr_pc h = Ended" for h
    by (auto simp: active_Nil_iff)
  have st: "get_thread_state (new_ident_key ident k) sh = (True, True) \<longleftrightarrow>
      (\<exists>h \<in> set (ps @ g\<lparr>gr_pc := p\<rparr> # qs). gr_key h = k \<and> gr_pc h = Running)" for k
  proof (cases "k = gr_key g")
    case True
    then show ?thesis using sh[of k] g(2) others by auto
  next
    case False
    have "get_thread_state (new_ident_key ident k) (bg_shared s) = (True, True) \<longleftrightarrow>
        (\<exists>h \<in> set (ps @ g # qs). gr_key h = k \<and> gr_pc h = Running)"
      using assms(1) g(1) by (simp add: bg_inv_def)
    then show ?thesis using sh[of k] g(2) False by auto
  qed
  have "bg_visiting s \<noteq> None \<Longrightarrow> all_begun (ps @ g\<lparr>gr_pc := p\<rparr> # qs)"
    using assms(1,4) g(1) by (auto simp: bg_inv_def)
  with one st show ?thesis by (simp add: bg_inv_def g(3))
qed

lemma check_none_active:
  assumes "bg_inv ident s" "bg_visiting s = Some (k, i)"
    and "get_thread_state (new_ident_key ident k) (bg_shared s) \<noteq> (True, True)"
  shows "active k (bg_threads s) = []"
proof -
  have "gr_pc g = Ended" if "g \<in> set (bg_threads s)" "gr_key g = k" for g
    using assms that by (cases "gr_pc g") (auto simp: bg_inv_def all_begun_def)
  then show ?thesis by (simp add: active_Nil_iff)
qed

lemma check_state_result:
  assumes "bg_visiting s = Some (k, i)"
  shows "bg_step ident CheckState s = Some (s\<lparr>bg_visiting := None,
    bg_threads := bg_threads s @
      (if get_thread_state (new_ident_key ident k) (bg_shared s) = (True, True) then []
       else [\<lparr>gr_key = k, gr_state = i, gr_pc = Spawned\<rparr>])\<rparr>)"
  using assms by (cases "get_thread_state (new_ident_key ident k) (bg_shared s)") simp

lemma bg_step_inv:
  assumes "bg_step ident a s = Some s'" "prompt a s" "bg_inv ident s"
  shows "bg_inv ident s'"
proof (cases a)
  case (Begin t)
  then show ?thesis
    using assms(1) set_pc_inv[OF assms(3), of t Running "set_running_thread_state (new_ident_key ident (gr_key (bg_threads s ! t))) (bg_shared s)"]
    by (simp add: thread_state_reads split: if_splits)
next
  case (Finish t)
  then show ?thesis
    using assms(1) set_pc_inv[OF assms(3), of t Ended "set_stop_thread_state (new_ident_key ident (gr_key (bg_threads s ! t))) (bg_shared s)"]
    by (simp add: thread_state_reads split: if_splits)
next
  case CheckState
  then obtain k i where v: "bg_visiting s = Some (k, i)" using assms(1) by (auto split: option.splits)
  let ?run = "get_thread_state (new_ident_key ident k) (bg_shared s) = (True, True)"
  have "active k (bg_threads s) = []" if "\<not> ?run" using check_none_active[OF assms(3) v that] .
  moreover have "s' = s\<lparr>bg_visiting := None, bg_threads := bg_threads s @
      (if ?run then [] else [\<lparr>gr_key = k, gr_state = i, gr_pc = Spawned\<rparr>])\<rparr>"
    using assms(1) CheckState check_state_result[OF v, of ident] by (simp del: bg_step.simps)
  ultimately show ?thesis
    using assms(3) by (cases ?run) (simp_all add: bg_inv_def)
next
  case (Visit k)
  then show ?thesis using assms by (auto simp: bg_inv_def prompt_def split: option.splits if_splits)
qed (use assms in \<open>auto simp: bg_inv_def split: if_splits\<close>)

lemma thread_state_start [simp]: "get_thread_state key (new_shared_state w) = (False, False)"
  by (simp add: get_thread_state_def new_shared_state_def new_sync_map_def)

lemma bg_inv_start: "bg_inv ident (bg_start w)"
  by (simp add: bg_inv_def bg_start_def)

lemma bg_reach_inv: "bg_reach ident prompt (bg_start w) s \<Longrightarrow> bg_inv ident s"
  by (induction rule: bg_reach.induct) (auto intro: bg_inv_start bg_step_inv)

text \<open>C13: When every started goroutine gets to its first line before the next visit, a script never
  has two goroutines, however the plans are replaced and removed meanwhile; its thread state says
  "running" exactly while one is inside the plan; and a visit always leaves it with exactly one.\<close>

theorem one_run_per_script:
  assumes "bg_reach ident prompt (bg_start w) s"
  shows "length (active k (bg_threads s)) \<le> 1 \<and>
    (get_thread_state (new_ident_key ident k) (bg_shared s) = (True, True) \<longleftrightarrow>
      (\<exists>g. active k (bg_threads s) = [g] \<and> gr_pc g = Running)) \<and>
    (\<forall>i. bg_visiting s = Some (k, i) \<longrightarrow>
      (\<exists>s'. bg_step ident CheckState s = Some s' \<and> length (active k (bg_threads s')) = 1))"
proof (intro conjI allI impI)
  have inv: "bg_inv ident s" by (rule bg_reach_inv[OF assms])
  then show le: "length (active k (bg_threads s)) \<le> 1" by (simp add: bg_inv_def)
  have mem: "g \<in> set (active k (bg_threads s)) \<longleftrightarrow> g \<in> set (bg_threads s) \<and> gr_key g = k \<and> gr_pc g \<noteq> Ended" for g
    by (auto simp: active_def)
  have "(\<exists>g \<in> set (bg_threads s). gr_key g = k \<and> gr_pc g = Running) \<longleftrightarrow>
      (\<exists>g \<in> set (active k (bg_threads s)). gr_pc g = Running)"
    unfolding Bex_def mem by auto
  also have "\<dots> \<longleftrightarrow> (\<exists>g. active k (bg_threads s) = [g] \<and> gr_pc g = Running)"
    using le by (cases "active k (bg_threads s)") auto
  finally show "get_thread_state (new_ident_key ident k) (bg_shared s) = (True, True) \<longleftrightarrow>
      (\<exists>g. active k (bg_threads s) = [g] \<and> gr_pc g = Running)"
    using inv by (simp add: bg_inv_def)
  then have "get_thread_state (new_ident_key ident k) (bg_shared s) = (True, True) \<Longrightarrow> length (active k (bg_threads s)) = 1"
    by auto
  moreover fix i
  assume v: "bg_visiting s = Some (k, i)"
  ultimately show "\<exists>s'. bg_step ident CheckState s = Some s' \<and> length (active k (bg_threads s')) = 1"
    using check_none_active[OF inv v] by (simp add: check_state_result[OF v] del: bg_step.simps)
qed

text \<open>One script, visited, started and running.\<close>

lemma one_run_per_script_witness:
  "\<exists>s :: (nat, bool) background. bg_reach ''db'' prompt (bg_start 0) s \<and> length (active ''a'' (bg_threads s)) = 1"
proof -
  let ?s0 = "bg_start 0 :: (nat, bool) background"
  obtain s where s: "bg_run ''db'' [StorePlan ''a'', Visit ''a''] ?s0 = Some s" "bg_visiting s = Some (''a'', 0)"
    by (simp add: bg_start_def new_sync_map_def)
  have start: "bg_reach ''db'' prompt ?s0 ?s0" by (rule bg_reach_start)
  have one: "bg_reach ''db'' prompt ?s0 (?s0\<lparr>bg_plans := sm_store (bg_plans ?s0) ''a'' 0, bg_nextState := 1\<rparr>)"
    by (rule bg_reach_step[OF start, of "StorePlan ''a''"]) (simp_all add: prompt_def bg_start_def)
  have r: "bg_reach ''db'' prompt ?s0 s"
    by (rule bg_reach_step[OF one, of "Visit ''a''"])
      (use s in \<open>simp_all add: prompt_def bg_start_def new_sync_map_def\<close>)
  from one_run_per_script[OF this] s(2)
  obtain s' where s': "bg_step ''db'' CheckState s = Some s'" "length (active ''a'' (bg_threads s')) = 1" by blast
  have "bg_reach ''db'' prompt ?s0 s'" by (rule bg_reach_step[OF r _ s'(1)]) (simp add: prompt_def)
  with s'(2) show ?thesis by blast
qed

text \<open>C18: The check and the mark are not one step: when a started goroutine is delayed past the next
  visit, the script is started again, and two goroutines run it at once on the same plan state.
  The first to end marks it stopped, and a third is started beside the second.\<close>

theorem script_runs_twice:
  "(\<exists>s :: ('w, 'p) background. bg_reach ident (\<lambda>_ _. True) (bg_start w) s \<and>
      bg_threads s = replicate 2 \<lparr>gr_key = k, gr_state = 0, gr_pc = Running\<rparr>) \<and>
   (\<exists>s :: ('w, 'p) background. bg_reach ident (\<lambda>_ _. True) (bg_start w) s \<and>
      map gr_pc (active k (bg_threads s)) = [Running, Running] \<and> length (bg_threads s) = 3)"
proof -
  let ?two = "[StorePlan k, Visit k, CheckState, NextRange, Visit k, CheckState, Begin 0, Begin 1]"
  let ?three = "?two @ [Finish 0, NextRange, Visit k, CheckState, Begin 2]"
  have run: "bg_reach ident (\<lambda>_ _. True) (bg_start w) s" if "bg_run ident acts (bg_start w) = Some s"
    for acts and s :: "('w, 'p) background"
    by (rule bg_reach_run[OF bg_reach_start that]) simp
  obtain s2 :: "('w, 'p) background" where s2: "bg_run ident ?two (bg_start w) = Some s2"
      "bg_threads s2 = replicate 2 \<lparr>gr_key = k, gr_state = 0, gr_pc = Running\<rparr>"
    by (simp add: bg_start_def thread_state_reads set_pc_def numeral_2_eq_2 new_sync_map_def)
  obtain s3 :: "('w, 'p) background" where s3: "bg_run ident ?three (bg_start w) = Some s3"
      "map gr_pc (active k (bg_threads s3)) = [Running, Running] \<and> length (bg_threads s3) = 3"
    by (simp add: bg_start_def thread_state_reads set_pc_def numeral_2_eq_2 numeral_3_eq_3 new_sync_map_def)
  show ?thesis
    by (rule conjI; rule exI, rule conjI, rule run, (rule s2 s3)+)
qed

end
