(* ===== verification/RotateWriter.thy ===== *)
theory RotateWriter
  imports Gostd
begin

text \<open>
  \<^verbatim>\<open>utils/log_file.go\<close>: a log file that is renamed away when it would grow past its limit.
  The file system is a map from names to contents; which renames and openings it refuses is part
  of its state, so that every error path of the code is a branch.  A handle is the file's name
  while it is open; it is closed before the file is renamed.
\<close>

section \<open>Files\<close>

record fs =
  fs_files :: "string \<rightharpoonup> string"
  fs_renames :: "string \<Rightarrow> string \<Rightarrow> bool"
  fs_opens :: "string \<Rightarrow> bool"

definition put_file :: "string \<Rightarrow> string option \<Rightarrow> fs \<Rightarrow> fs" where
  "put_file name c fs = fs\<lparr>fs_files := (fs_files fs)(name := c)\<rparr>"

definition rename_file :: "string \<Rightarrow> string \<Rightarrow> (fs, unit) goS" where
  "rename_file src dst fs =
    (if fs_files fs src = None \<or> \<not> fs_renames fs src dst then (Err (ESys ''rename''), fs)
     else (Ok (), put_file dst (fs_files fs src) (put_file src None fs)))"

record rotate_writer =
  rw_filename :: string
  rw_maxSize :: int
  rw_maxBackups :: int
  rw_open :: "bool option"
  rw_size :: int

text \<open>\<^verbatim>\<open>rw_open\<close>: nil, or whether the file the writer holds is still open.\<close>

type_synonym rw_state = "rotate_writer \<times> fs"

definition new_rotate_writer :: "string \<Rightarrow> int \<Rightarrow> int \<Rightarrow> (fs, rotate_writer) goS" where
  "new_rotate_writer filename maxSize maxBackups fs =
    (if \<not> fs_opens fs filename then (Err (ESys ''open''), fs)
     else let c = (case fs_files fs filename of None \<Rightarrow> [] | Some c \<Rightarrow> c) in
       (Ok \<lparr>rw_filename = filename, rw_maxSize = maxSize, rw_maxBackups = maxBackups,
            rw_open = Some True, rw_size = int (length c)\<rparr>, put_file filename (Some c) fs))"

definition backup_name :: "string \<Rightarrow> int \<Rightarrow> string" where
  "backup_name filename i = filename @ ''.'' @ itoa i"

text \<open>\<^verbatim>\<open>for i := maxBackups - 1; i >= 1; i--\<close>\<close>

function shift_loop :: "string \<Rightarrow> int \<Rightarrow> (fs, unit) goS" where
  "shift_loop filename i fs =
    (if i < 1 then (Ok (), fs)
     else if fs_files fs (backup_name filename i) \<noteq> None then
       bindS (rename_file (backup_name filename i) (backup_name filename (i + 1)))
         (\<lambda>_. shift_loop filename (i - 1)) fs
     else shift_loop filename (i - 1) fs)"
  by pat_completeness auto
termination by (relation "measure (\<lambda>(f, i, fs). nat i)") auto

declare shift_loop.simps [simp del]

definition close_file :: "(rw_state, unit) goS" where
  "close_file ws =
    (case ws of (w, fs) \<Rightarrow>
      (case rw_open w of
        None \<Rightarrow> (Ok (), ws)
      | Some True \<Rightarrow> (Ok (), (w\<lparr>rw_open := Some False\<rparr>, fs))
      | Some False \<Rightarrow> (Err (ESys ''file already closed''), ws)))"

definition on_fs :: "(fs, 'a) goS \<Rightarrow> (rw_state, 'a) goS" where
  "on_fs m ws = (case ws of (w, fs) \<Rightarrow> (case m fs of (r, fs') \<Rightarrow> (r, (w, fs'))))"

definition rotate_files :: "string \<Rightarrow> int \<Rightarrow> (fs, unit) goS" where
  "rotate_files filename maxBackups fs =
    bindS (shift_loop filename (maxBackups - 1)) (\<lambda>_ fs.
      if fs_files fs filename \<noteq> None then rename_file filename (backup_name filename 1) fs else (Ok (), fs))
      (put_file (backup_name filename maxBackups) None fs)"

definition rw_rotate :: "(rw_state, unit) goS" where
  "rw_rotate ws =
    bindS close_file (\<lambda>_ ws.
      bindS (on_fs (rotate_files (rw_filename (fst ws)) (rw_maxBackups (fst ws)))) (\<lambda>_ (w, fs).
        if \<not> fs_opens fs (rw_filename w) then (Err (ESys ''open''), (w, fs))
        else (Ok (), (w\<lparr>rw_open := Some True, rw_size := 0\<rparr>, put_file (rw_filename w) (Some []) fs))) ws) ws"

definition append_file :: "string \<Rightarrow> (rw_state, int) goS" where
  "append_file p ws =
    (case ws of (w, fs) \<Rightarrow>
      (case rw_open w of
        Some True \<Rightarrow>
          (Ok (int (length p)),
           (w\<lparr>rw_size := rw_size w + int (length p)\<rparr>,
            put_file (rw_filename w) (Some ((case fs_files fs (rw_filename w) of None \<Rightarrow> [] | Some c \<Rightarrow> c) @ p)) fs))
      | Some False \<Rightarrow> (Err (ESys ''file already closed''), ws)
      | None \<Rightarrow> (Err (ESys ''invalid argument''), ws)))"

definition rw_write :: "string \<Rightarrow> (rw_state, int) goS" where
  "rw_write p ws =
    bindS (\<lambda>ws. if rw_maxSize (fst ws) < rw_size (fst ws) + int (length p) then rw_rotate ws else (Ok (), ws))
      (\<lambda>_. append_file p) ws"

definition rw_close :: "(rw_state, unit) goS" where
  "rw_close = close_file"

section \<open>Shifting the backups\<close>

lemma nat_dec_inj: "nat_dec m = nat_dec n \<longleftrightarrow> m = n"
  by (metis dec_value_nat_dec option.inject)

lemma backup_name_inj [simp]: "0 \<le> i \<Longrightarrow> 0 \<le> j \<Longrightarrow> backup_name f i = backup_name f j \<longleftrightarrow> i = j"
  by (auto simp: backup_name_def itoa_def nat_dec_inj)

lemma backup_name_neq [simp]: "backup_name f i \<noteq> f" "f \<noteq> backup_name f i"
  by (auto simp: backup_name_def)

definition renames_ok :: "fs \<Rightarrow> bool" where
  "renames_ok fs \<longleftrightarrow> (\<forall>a b. fs_renames fs a b)"

lemma put_file_sel [simp]:
  "fs_files (put_file n c fs) = (fs_files fs)(n := c)" "fs_renames (put_file n c fs) = fs_renames fs"
  "fs_opens (put_file n c fs) = fs_opens fs"
  by (simp_all add: put_file_def)

text \<open>After the loop from \<open>i\<close> down: backup \<open>j + 1\<close> is the old backup \<open>j\<close>, backup 1 is free.\<close>

lemma shift_loop_ok:
  assumes "renames_ok fs" "fs_files fs (backup_name f (i + 1)) = None" "0 \<le> i"
  shows "\<exists>fs'. shift_loop f i fs = (Ok (), fs') \<and> renames_ok fs' \<and> fs_opens fs' = fs_opens fs \<and>
    (\<forall>j. 1 \<le> j \<and> j \<le> i \<longrightarrow> fs_files fs' (backup_name f (j + 1)) = fs_files fs (backup_name f j)) \<and>
    fs_files fs' (backup_name f 1) = None \<and>
    (\<forall>n. (\<forall>j. 1 \<le> j \<and> j \<le> i + 1 \<longrightarrow> n \<noteq> backup_name f j) \<longrightarrow> fs_files fs' n = fs_files fs n)"
  using assms
proof (induction f i fs rule: shift_loop.induct)
  case (1 f i fs)
  show ?case
  proof (cases "i < 1")
    case True
    then have "i = 0" using 1(5) by simp
    with 1(3,4) show ?thesis by (subst shift_loop.simps) auto
  next
    case False
    let ?fs1 = "if fs_files fs (backup_name f i) = None then fs
      else put_file (backup_name f (i + 1)) (fs_files fs (backup_name f i)) (put_file (backup_name f i) None fs)"
    have step: "shift_loop f i fs = shift_loop f (i - 1) ?fs1"
      using False 1(3) by (subst shift_loop.simps) (auto simp: rename_file_def renames_ok_def bindS_def)
    have pre: "renames_ok ?fs1" "fs_files ?fs1 (backup_name f (i - 1 + 1)) = None" "0 \<le> i - 1"
      using 1(3,5) False by (auto simp: renames_ok_def)
    have IH: "\<exists>fs'. shift_loop f (i - 1) ?fs1 = (Ok (), fs') \<and> renames_ok fs' \<and> fs_opens fs' = fs_opens ?fs1 \<and>
        (\<forall>j. 1 \<le> j \<and> j \<le> i - 1 \<longrightarrow> fs_files fs' (backup_name f (j + 1)) = fs_files ?fs1 (backup_name f j)) \<and>
        fs_files fs' (backup_name f 1) = None \<and>
        (\<forall>n. (\<forall>j. 1 \<le> j \<and> j \<le> i - 1 + 1 \<longrightarrow> n \<noteq> backup_name f j) \<longrightarrow> fs_files fs' n = fs_files ?fs1 n)"
    proof (cases "fs_files fs (backup_name f i) = None")
      case True
      then show ?thesis using 1(2)[OF False] pre by simp
    next
      case ex: False
      then obtain c where c: "fs_files fs (backup_name f i) = Some c" by auto
      then have "rename_file (backup_name f i) (backup_name f (i + 1)) fs = (Ok (), ?fs1)"
        using 1(3) by (simp add: rename_file_def renames_ok_def)
      then show ?thesis using 1(1)[OF False ex, of ?fs1] pre c by simp
    qed
    then obtain fs' where fs': "shift_loop f (i - 1) ?fs1 = (Ok (), fs')" "renames_ok fs'" "fs_opens fs' = fs_opens ?fs1"
        "\<forall>j. 1 \<le> j \<and> j \<le> i - 1 \<longrightarrow> fs_files fs' (backup_name f (j + 1)) = fs_files ?fs1 (backup_name f j)"
        "fs_files fs' (backup_name f 1) = None"
        "\<forall>n. (\<forall>j. 1 \<le> j \<and> j \<le> i - 1 + 1 \<longrightarrow> n \<noteq> backup_name f j) \<longrightarrow> fs_files fs' n = fs_files ?fs1 n"
      by blast
    have old: "fs_files ?fs1 (backup_name f j) = fs_files fs (backup_name f j)" if "1 \<le> j" "j \<le> i - 1" for j
      using that by auto
    have top: "fs_files fs' (backup_name f (i + 1)) = fs_files fs (backup_name f i)"
      using fs'(6)[rule_format, of "backup_name f (i + 1)"] False 1(4) by auto
    have "\<forall>j. 1 \<le> j \<and> j \<le> i \<longrightarrow> fs_files fs' (backup_name f (j + 1)) = fs_files fs (backup_name f j)"
    proof (intro allI impI)
      fix j
      assume j: "1 \<le> j \<and> j \<le> i"
      show "fs_files fs' (backup_name f (j + 1)) = fs_files fs (backup_name f j)"
      proof (cases "j = i")
        case False
        then have "j \<le> i - 1" using j by simp
        then show ?thesis using fs'(4) old j by metis
      qed (use top in simp)
    qed
    moreover have "fs_files fs' n = fs_files fs n" if n: "\<forall>j. 1 \<le> j \<and> j \<le> i + 1 \<longrightarrow> n \<noteq> backup_name f j" for n
    proof -
      have "n \<noteq> backup_name f i" "n \<noteq> backup_name f (i + 1)" using n False by auto
      then show ?thesis using fs'(6)[rule_format, of n] n by auto
    qed
    ultimately show ?thesis
      using step fs'(1,2,3,5) by (intro exI[of _ fs']) (auto split: if_splits)
  qed
qed

section \<open>Rotation\<close>

definition writer_at :: "string \<Rightarrow> int \<Rightarrow> int \<Rightarrow> int \<Rightarrow> rotate_writer" where
  "writer_at f mx backups sz =
    \<lparr>rw_filename = f, rw_maxSize = mx, rw_maxBackups = backups, rw_open = Some True, rw_size = sz\<rparr>"

lemma rotate_files_ok:
  assumes "renames_ok fs" "1 \<le> backups"
  shows "\<exists>fs'. rotate_files f backups fs = (Ok (), fs') \<and> fs_opens fs' = fs_opens fs \<and>
    fs_files fs' (backup_name f 1) = fs_files fs f \<and>
    (\<forall>j. 1 \<le> j \<and> j < backups \<longrightarrow> fs_files fs' (backup_name f (j + 1)) = fs_files fs (backup_name f j)) \<and>
    fs_files fs' f = None \<and>
    (\<forall>n. n \<noteq> f \<and> (\<forall>j. 1 \<le> j \<and> j \<le> backups \<longrightarrow> n \<noteq> backup_name f j) \<longrightarrow> fs_files fs' n = fs_files fs n)"
proof -
  let ?fs0 = "put_file (backup_name f backups) None fs"
  obtain fs1 where fs1: "shift_loop f (backups - 1) ?fs0 = (Ok (), fs1)" "renames_ok fs1" "fs_opens fs1 = fs_opens ?fs0"
      "\<forall>j. 1 \<le> j \<and> j \<le> backups - 1 \<longrightarrow> fs_files fs1 (backup_name f (j + 1)) = fs_files ?fs0 (backup_name f j)"
      "fs_files fs1 (backup_name f 1) = None"
      "\<forall>n. (\<forall>j. 1 \<le> j \<and> j \<le> backups - 1 + 1 \<longrightarrow> n \<noteq> backup_name f j) \<longrightarrow> fs_files fs1 n = fs_files ?fs0 n"
    using shift_loop_ok[of ?fs0 f "backups - 1"] assms by (auto simp: renames_ok_def)
  have cur: "fs_files fs1 f = fs_files fs f" using fs1(6)[rule_format, of f] by simp
  have moved: "fs_files fs1 (backup_name f (j + 1)) = fs_files fs (backup_name f j)" if "1 \<le> j" "j < backups" for j
    using fs1(4) that by auto
  have other: "fs_files fs1 n = fs_files fs n" if "\<forall>j. 1 \<le> j \<and> j \<le> backups \<longrightarrow> n \<noteq> backup_name f j" for n
    using fs1(6)[rule_format, of n] that assms(2) by auto
  show ?thesis
  proof (cases "fs_files fs f")
    case None
    then show ?thesis
      using fs1(1,3,5) cur moved other assms(2) by (intro exI[of _ fs1]) (auto simp: rotate_files_def)
  next
    case (Some c)
    let ?fs2 = "put_file (backup_name f 1) (Some c) (put_file f None fs1)"
    have "rotate_files f backups fs = (Ok (), ?fs2)"
      using fs1(1,2) cur Some by (simp add: rotate_files_def rename_file_def renames_ok_def)
    then show ?thesis
      using fs1(3) cur moved other assms(2) Some
      by (intro exI[of _ ?fs2]) auto
  qed
qed

text \<open>C16: A write that would pass the limit rotates first: the current file becomes backup 1, each
  backup moves up by one, the oldest is gone, nothing else changes, and the new file holds exactly
  what was written.  A write within the limit appends and touches no backup.\<close>

theorem rotate_on_write:
  assumes "renames_ok fs" "fs_opens fs f" "1 \<le> backups" "fs_files fs f = Some c"
  shows "(sz + int (length p) \<le> mx \<longrightarrow>
      rw_write p (writer_at f mx backups sz, fs) =
        (Ok (int (length p)), (writer_at f mx backups (sz + int (length p)), put_file f (Some (c @ p)) fs))) \<and>
    (mx < sz + int (length p) \<longrightarrow>
      (\<exists>fs'. rw_write p (writer_at f mx backups sz, fs) =
          (Ok (int (length p)), (writer_at f mx backups (int (length p)), fs')) \<and>
        fs_files fs' f = Some p \<and> fs_files fs' (backup_name f 1) = Some c \<and>
        (\<forall>j. 1 \<le> j \<and> j < backups \<longrightarrow> fs_files fs' (backup_name f (j + 1)) = fs_files fs (backup_name f j)) \<and>
        (\<forall>n. n \<noteq> f \<and> (\<forall>j. 1 \<le> j \<and> j \<le> backups \<longrightarrow> n \<noteq> backup_name f j) \<longrightarrow> fs_files fs' n = fs_files fs n)))"
proof (intro conjI impI)
  assume "sz + int (length p) \<le> mx"
  then show "rw_write p (writer_at f mx backups sz, fs) =
        (Ok (int (length p)), (writer_at f mx backups (sz + int (length p)), put_file f (Some (c @ p)) fs))"
    using assms(4) by (simp add: rw_write_def writer_at_def append_file_def bindS_def)
next
  obtain fs1 where fs1: "rotate_files f backups fs = (Ok (), fs1)" "fs_opens fs1 = fs_opens fs"
      "fs_files fs1 (backup_name f 1) = fs_files fs f"
      "\<forall>j. 1 \<le> j \<and> j < backups \<longrightarrow> fs_files fs1 (backup_name f (j + 1)) = fs_files fs (backup_name f j)"
      "\<forall>n. n \<noteq> f \<and> (\<forall>j. 1 \<le> j \<and> j \<le> backups \<longrightarrow> n \<noteq> backup_name f j) \<longrightarrow> fs_files fs1 n = fs_files fs n"
    using rotate_files_ok[OF assms(1,3), of f] by blast
  assume big: "mx < sz + int (length p)"
  let ?fs2 = "put_file f (Some p) (put_file f (Some []) fs1)"
  have "rw_write p (writer_at f mx backups sz, fs) =
      (Ok (int (length p)), (writer_at f mx backups (int (length p)), ?fs2))"
    using big fs1(1,2) assms(2)
    by (simp add: rw_write_def rw_rotate_def writer_at_def bindS_def close_file_def on_fs_def append_file_def put_file_def)
  then show "\<exists>fs'. rw_write p (writer_at f mx backups sz, fs) =
          (Ok (int (length p)), (writer_at f mx backups (int (length p)), fs')) \<and>
        fs_files fs' f = Some p \<and> fs_files fs' (backup_name f 1) = Some c \<and>
        (\<forall>j. 1 \<le> j \<and> j < backups \<longrightarrow> fs_files fs' (backup_name f (j + 1)) = fs_files fs (backup_name f j)) \<and>
        (\<forall>n. n \<noteq> f \<and> (\<forall>j. 1 \<le> j \<and> j \<le> backups \<longrightarrow> n \<noteq> backup_name f j) \<longrightarrow> fs_files fs' n = fs_files fs n)"
    using fs1(3-5) assms(4) by (intro exI[of _ ?fs2]) auto
qed

definition probe_fs :: "(string \<Rightarrow> string \<Rightarrow> bool) \<Rightarrow> fs" where
  "probe_fs renames = \<lparr>fs_files = [''log'' \<mapsto> ''abc''], fs_renames = renames, fs_opens = (\<lambda>_. True)\<rparr>"

lemma rotate_on_write_witness:
  "\<exists>fs'. rw_write ''de'' (writer_at ''log'' 4 3 3, probe_fs (\<lambda>_ _. True)) = (Ok 2, (writer_at ''log'' 4 3 2, fs')) \<and>
    fs_files fs' ''log'' = Some ''de'' \<and> fs_files fs' (backup_name ''log'' 1) = Some ''abc''"
  using rotate_on_write[of "probe_fs (\<lambda>_ _. True)" "''log''" 3 "''abc''" 3 "''de''" 4]
  by (auto simp: probe_fs_def renames_ok_def)

text \<open>A rotation that fails ends the log for good.  It leaves the writer holding a closed file;
  from then on every write fails, however often it is tried and whatever the file system would
  allow by then.\<close>

theorem failed_rotation_is_final:
  assumes "rw_rotate (w, fs) = (Err e, ws)" "rw_open w = Some True"
  shows "foldl (\<lambda>s p. snd (rw_write p s)) ws ps = ws \<and>
    fst (rw_write p (foldl (\<lambda>s p. snd (rw_write p s)) ws ps)) = Err (ESys ''file already closed'')"
proof -
  have closed: "rw_open (fst ws) = Some False"
    using assms
    by (auto simp: rw_rotate_def close_file_def on_fs_def split: if_splits prod.splits elim!: bindS_cases)
  have stuck: "rw_write p ws = (Err (ESys ''file already closed''), ws)" for p
    using closed by (cases ws)
      (auto simp: rw_write_def rw_rotate_def close_file_def append_file_def bindS_def)
  have "foldl (\<lambda>s p. snd (rw_write p s)) ws ps = ws"
    by (induction ps) (simp_all add: stuck)
  then show ?thesis by (simp add: stuck)
qed

lemma failed_rotation_is_final_witness:
  "\<exists>e ws. rw_rotate (writer_at ''log'' 4 3 3, probe_fs (\<lambda>_ _. False)) = (Err e, ws) \<and> (\<exists>e'. fst (rw_write ''x'' ws) = Err e')"
proof -
  let ?w = "writer_at ''log'' 4 3 3" and ?fs = "probe_fs (\<lambda>_ _. False)"
  have "shift_loop ''log'' 2 fs = (Ok (), fs)" if "fs_files fs (backup_name ''log'' 2) = None" "fs_files fs (backup_name ''log'' 1) = None" for fs
    using that by (simp add: shift_loop.simps[of _ 2] shift_loop.simps[of _ 1] shift_loop.simps[of _ 0])
  then obtain ws where r: "rw_rotate (?w, ?fs) = (Err (ESys ''rename''), ws)"
    by (simp add: rw_rotate_def close_file_def writer_at_def bindS_def on_fs_def rotate_files_def rename_file_def probe_fs_def)
  have "rw_open ?w = Some True" by (simp add: writer_at_def)
  from failed_rotation_is_final[OF r this, of "[]" "''x''"] r show ?thesis by simp
qed

end
