(* ===== verification/Startup.thy ===== *)
theory Startup
  imports Master
begin

text \<open>
  How a process starts: \<^verbatim>\<open>cmd/oncecall_sync/global/init.go\<close> (flags, configuration,
  loggers, the management pool), \<^verbatim>\<open>utils/parse.go\<close> and
  \<^verbatim>\<open>cmd/oncecall_sync/main.go\<close>.  The flag parser is the part of Go's package
  \<^verbatim>\<open>flag\<close> the three flags use.  Reading and parsing files, starting the loggers and
  making the management pool are the record \<open>boot_env\<close>.
\<close>

section \<open>Flags\<close>

record flags =
  fl_cfgPath :: string
  fl_cpu :: int
  fl_syncIdent :: string

definition default_flags :: "int \<Rightarrow> flags" where
  "default_flags numCpu = \<lparr>fl_cfgPath = ''../cfg/oncecall.query.toml'', fl_cpu = numCpu div 2, fl_syncIdent = ''''\<rparr>"

text \<open>One argument: \<open>None\<close> when it is not a flag (parsing stops), otherwise its name and the
  value after an equals sign; \<open>Some None\<close> is a syntax error.\<close>

definition flag_name :: "string \<Rightarrow> (string \<times> string option) option option" where
  "flag_name s =
    (if length s < 2 \<or> hd s \<noteq> CHR ''-'' then None
     else if s = ''--'' then None
     else let name = drop (if s ! 1 = CHR ''-'' then 2 else 1) s in
       if name = [] \<or> hd name = CHR ''-'' \<or> hd name = CHR ''='' then Some None
       else let n = hd name # takeWhile (\<lambda>c. c \<noteq> CHR ''='') (tl name) in
         Some (Some (n, if n = name then None else Some (drop (Suc (length n)) name))))"

definition set_flag :: "(string \<Rightarrow> int option) \<Rightarrow> string \<Rightarrow> string \<Rightarrow> flags \<Rightarrow> flags option" where
  "set_flag parseInt name v f =
    (if name = ''cfgPath'' then Some (f\<lparr>fl_cfgPath := v\<rparr>)
     else if name = ''cpu'' then map_option (\<lambda>n. f\<lparr>fl_cpu := n\<rparr>) (parseInt v)
     else if name = ''syncIdent'' then Some (f\<lparr>fl_syncIdent := v\<rparr>)
     else None)"

text \<open>\<^verbatim>\<open>flag.Parse\<close>: \<open>None\<close> is an error, on which the process exits.\<close>

fun parse_flags :: "(string \<Rightarrow> int option) \<Rightarrow> string list \<Rightarrow> flags \<Rightarrow> flags option" where
  "parse_flags parseInt [] f = Some f"
| "parse_flags parseInt [s] f =
    (case flag_name s of
      None \<Rightarrow> Some f
    | Some None \<Rightarrow> None
    | Some (Some (n, None)) \<Rightarrow> None
    | Some (Some (n, Some v)) \<Rightarrow> set_flag parseInt n v f)"
| "parse_flags parseInt (s # s' # args) f =
    (case flag_name s of
      None \<Rightarrow> Some f
    | Some None \<Rightarrow> None
    | Some (Some (n, None)) \<Rightarrow> Option.bind (set_flag parseInt n s' f) (parse_flags parseInt args)
    | Some (Some (n, Some v)) \<Rightarrow> Option.bind (set_flag parseInt n v f) (parse_flags parseInt (s' # args)))"

section \<open>Sizes\<close>

definition unit_multiplier :: "char \<Rightarrow> int option" where
  "unit_multiplier c =
    (if c = CHR ''K'' then Some 1024 else if c = CHR ''M'' then Some (1024 * 1024)
     else if c = CHR ''G'' then Some (1024 * 1024 * 1024)
     else if c = CHR ''T'' then Some (1024 * 1024 * 1024 * 1024) else None)"

text \<open>\<open>scaled s n\<close> is \<^verbatim>\<open>int64(value * float64(n))\<close> for the \<^verbatim>\<open>ParseFloat\<close> of
  \<open>s\<close>.\<close>

definition parse_memory_size :: "(string \<Rightarrow> int \<Rightarrow> int go) \<Rightarrow> string \<Rightarrow> int go" where
  "parse_memory_size scaled s0 =
    (let s = trim_space (to_upper s0) in
     if length s = 0 then Err (EFmt ''empty size'')
     else let lst = last s in
       if digit_val lst \<noteq> None then atoi s
       else (case unit_multiplier lst of
          None \<Rightarrow> Err (EFmt ''unknown unit: %c'')
        | Some m \<Rightarrow> scaled (butlast s) m))"

section \<open>Initialisation\<close>

record file_logger =
  fl_dir :: string
  fl_name :: string
  fl_level :: string
  fl_maxSize :: int
  fl_backUp :: int

record loggers =
  lg_Conn :: "file_logger option"
  lg_Script :: "file_logger option"
  lg_Manage :: "file_logger option"
  lg_Query :: "file_logger option"
  lg_Gen :: "file_logger option"
  lg_Proc :: "file_logger option"

definition no_loggers :: loggers where
  "no_loggers = \<lparr>lg_Conn = None, lg_Script = None, lg_Manage = None, lg_Query = None, lg_Gen = None, lg_Proc = None\<rparr>"

record boot_env =
  be_args :: "string list"
  be_numCpu :: int
  be_parseInt :: "string \<Rightarrow> int option"
  be_readFile :: "string \<Rightarrow> string go"
  be_parse :: "process_config \<Rightarrow> string \<Rightarrow> process_config go"
  be_scaled :: "string \<Rightarrow> int \<Rightarrow> int go"
  be_baseName :: "string go"
  be_pid :: int
  be_initLogger :: "file_logger \<Rightarrow> panic option"
  be_newPool :: "conn_config \<Rightarrow> unit go"

text \<open>The package variables of \<^verbatim>\<open>global/config\<close>: the file is read over the defaults.\<close>

definition config_Config :: process_config where
  "config_Config = default_process_config"

text \<open>\<^verbatim>\<open>panic("Init :" + err.Error())\<close>\<close>

definition init_panic :: "'a go \<Rightarrow> 'a go" where
  "init_panic r = (case r of Err e \<Rightarrow> Panic (PExplicit ''Init'') | _ \<Rightarrow> r)"

definition make_loggers :: "boot_env \<Rightarrow> flags \<Rightarrow> process_config \<Rightarrow> loggers go" where
  "make_loggers env f conf =
    (case pc_LogFile conf of
      None \<Rightarrow> Ok no_loggers
    | Some lf \<Rightarrow>
        bind_go (init_panic (parse_memory_size (be_scaled env) (lf_MaxSize lf))) (\<lambda>sz.
        bind_go (init_panic (be_baseName env)) (\<lambda>exe.
          let base = (if fl_syncIdent f = '''' then exe @ ''.'' @ itoa (be_pid env)
              else exe @ ''.'' @ fl_syncIdent f @ ''.'' @ itoa (be_pid env));
            mk = (\<lambda>suffix. Some \<lparr>fl_dir = lf_Dir lf, fl_name = base @ suffix, fl_level = pc_LogLevel conf,
              fl_maxSize = sz, fl_backUp = lf_Rotate lf\<rparr>) in
          Ok (no_loggers\<lparr>lg_Script := mk ''.script'', lg_Conn := mk ''.conn'', lg_Manage := mk ''.manage'',
            lg_Query := mk ''.query'', lg_Gen := mk ''.gen''\<rparr>))))"

text \<open>A method call on an interface variable that holds nil panics; otherwise the first call
  opens the logger's files, and panics when it cannot (\<^verbatim>\<open>Info\<close> has no error result).\<close>

definition log_info :: "boot_env \<Rightarrow> file_logger option \<Rightarrow> unit go" where
  "log_info env l = (case l of None \<Rightarrow> Panic PNilDeref | Some x \<Rightarrow> (case be_initLogger env x of None \<Rightarrow> Ok () | Some p \<Rightarrow> Panic p))"

datatype 'a started = Exit | Started "'a go"

definition global_init :: "boot_env \<Rightarrow> (flags \<times> process_config \<times> loggers) started" where
  "global_init env =
    (case parse_flags (be_parseInt env) (be_args env) (default_flags (be_numCpu env)) of
      None \<Rightarrow> Exit
    | Some f \<Rightarrow> Started (
        bind_go (init_panic (be_readFile env (fl_cfgPath f))) (\<lambda>dat.
        bind_go (init_panic (toml_parse (be_parse env config_Config) dat)) (\<lambda>conf.
        bind_go (make_loggers env f conf) (\<lambda>lg.
        bind_go (log_info env (lg_Manage lg)) (\<lambda>_.
        bind_go (log_info env (lg_Conn lg)) (\<lambda>_.
        bind_go (log_info env (lg_Script lg)) (\<lambda>_.
        bind_go (log_info env (lg_Query lg)) (\<lambda>_.
        bind_go (log_info env (lg_Gen lg)) (\<lambda>_.
        bind_go (init_panic (be_newPool env (pc_ManageDB conf))) (\<lambda>_. Ok (f, conf, lg))))))))))))"

section \<open>main\<close>

text \<open>\<^verbatim>\<open>main\<close> logs, then starts one of the two entries, by the package variable
  \<^verbatim>\<open>config.SyncIdent\<close>.  No code assigns that variable: the flag is the variable
  \<^verbatim>\<open>syncIdent\<close> of the package \<^verbatim>\<open>global\<close>.\<close>

datatype entry = MasterProcess | SyncdProcess

definition config_sync_ident :: "flags \<Rightarrow> string" where
  "config_sync_ident f = ''''"

definition main_start :: "boot_env \<Rightarrow> entry started" where
  "main_start env =
    (case global_init env of
      Exit \<Rightarrow> Exit
    | Started r \<Rightarrow> Started (bind_go r (\<lambda>(f, conf, lg).
        bind_go (log_info env (lg_Proc lg)) (\<lambda>_.
          Ok (if config_sync_ident f = '''' then MasterProcess else SyncdProcess)))))"

section \<open>What becomes of a start\<close>

lemma make_loggers_Proc: "make_loggers env f conf = Ok lg \<Longrightarrow> lg_Proc lg = None"
  by (auto simp: make_loggers_def no_loggers_def bind_go_Ok_iff Let_def split: option.splits)

lemma global_init_Proc: "global_init env = Started (Ok (f, conf, lg)) \<Longrightarrow> lg_Proc lg = None"
  by (auto simp: global_init_def bind_go_Ok_iff make_loggers_Proc split: option.splits)

text \<open>No step of the initialisation ends in an error: each either succeeds or panics.\<close>

lemma init_panic_not_Err: "init_panic r \<noteq> Err e" "log_info env l \<noteq> Err e"
  by (auto simp: init_panic_def log_info_def split: go.split option.split)

lemma make_loggers_not_Err: "make_loggers env f conf \<noteq> Err e"
  by (auto simp: make_loggers_def bind_go_Err_iff init_panic_not_Err Let_def split: option.splits)

lemma global_init_not_Err: "global_init env \<noteq> Started (Err e)"
  by (auto simp: global_init_def bind_go_Err_iff init_panic_not_Err make_loggers_not_Err split: option.splits)

text \<open>C37: No process gets as far as one of its entries, whatever the flags, the configuration and
  the system: a start ends as its initialisation ends (an exit on the flags or a panic), and when
  the initialisation succeeds \<^verbatim>\<open>main\<close>'s first line panics, because no code sets the
  process logger it calls.\<close>

theorem main_never_runs:
  "main_start env =
    (case global_init env of
      Exit \<Rightarrow> Exit
    | Started (Ok _) \<Rightarrow> Started (Panic PNilDeref)
    | Started (Err e) \<Rightarrow> Started (Err e)
    | Started (Panic p) \<Rightarrow> Started (Panic p)) \<and>
    (main_start env = Exit \<or> (\<exists>p. main_start env = Started (Panic p)))"
proof (cases "global_init env")
  case (Started r)
  then show ?thesis
    using global_init_Proc[of env] global_init_not_Err[of env] by (cases r) (auto simp: main_start_def log_info_def)
qed (simp add: main_start_def)

text \<open>A system on which the initialisation succeeds, with the default configuration.\<close>

definition boot_ok :: boot_env where
  "boot_ok = \<lparr>be_args = [''-cfgPath=q.toml''], be_numCpu = 8, be_parseInt = (\<lambda>_. None),
    be_readFile = (\<lambda>p. if p = ''q.toml'' then Ok ''text'' else Err (EFmt ''no such file'')),
    be_parse = (\<lambda>c _. Ok c),
    be_scaled = (\<lambda>s n. Ok (100 * n)), be_baseName = Ok ''oncecall'', be_pid = 7,
    be_initLogger = (\<lambda>_. None), be_newPool = (\<lambda>_. Ok ())\<rparr>"

lemma main_never_runs_witness:
  "(case global_init boot_ok of
      Started (Ok (f, _, lg)) \<Rightarrow> fl_cfgPath f = ''q.toml'' \<and> lg_Proc lg = None
    | _ \<Rightarrow> False) \<and>
    main_start boot_ok = Started (Panic PNilDeref)"
proof -
  have "case global_init boot_ok of
      Started (Ok (f, _, lg)) \<Rightarrow> fl_cfgPath f = ''q.toml'' \<and> lg_Proc lg = None
    | _ \<Rightarrow> False"
    by code_simp
  then show ?thesis
    using main_never_runs[of boot_ok] by (auto split: started.splits go.splits)
qed

section \<open>A child's command line\<close>

text \<open>A child process is started with \<^verbatim>\<open>--syncIdent\<close> followed by the master's whole
  argument list, whose first element is the program's path: its flag parser takes the identifier
  and stops at the path, so the child never sees the flags the master was given and reads the
  default configuration file.\<close>

theorem child_ignores_flags:
  assumes "pm_rootFlagStr pm = prog # args" "prog = [] \<or> hd prog \<noteq> CHR ''-''"
  shows "parse_flags parseInt (fork_param pm ident) (default_flags n) =
    Some ((default_flags n)\<lparr>fl_syncIdent := ident\<rparr>)"
proof -
  have "flag_name (''--syncIdent='' @ ident) = Some (Some (''syncIdent'', Some ident))"
    by (simp add: flag_name_def)
  moreover have "flag_name prog = None" using assms(2) by (auto simp: flag_name_def)
  ultimately show ?thesis
    using assms(1) by (cases args) (simp_all add: fork_param_def set_flag_def)
qed

lemma child_ignores_flags_witness:
  "parse_flags (\<lambda>_. None) (fork_param (new_proc_manager [''./oncecall'', ''-cfgPath=/etc/o.toml''] 1 ()) ''db1'') (default_flags 4) =
    Some ((default_flags 4)\<lparr>fl_syncIdent := ''db1''\<rparr>)"
  by (rule child_ignores_flags[of _ "''./oncecall''" "[''-cfgPath=/etc/o.toml'']"]) (simp_all add: new_proc_manager_def)

end
