(* ===== verification/OdbcFfi.thy ===== *)
theory OdbcFfi
  imports Cfg "HOL-Library.Multiset"
begin

text \<open>
  \<^verbatim>\<open>connpool/internal/ffi/odbc.go\<close>: the binding to the ODBC library.  The library is the
  record \<open>odbc_api\<close> of the C functions the code calls, on a world \<open>'w\<close>; every function may return
  any code.  Beside the world the state keeps a ledger of what the code has allocated and not yet
  released (handles, C strings, value buffers), of the handles that the library has refused to free,
  and two flags: for a use or a release of something that is not in the ledger, and for a read past
  the end of a buffer.
\<close>

section \<open>The library\<close>

datatype rc = SQL_SUCCESS | SQL_SUCCESS_WITH_INFO | SQL_NO_DATA | SQL_OTHER int

definition rc_ok :: "rc \<Rightarrow> bool" where
  "rc_ok rc = (rc = SQL_SUCCESS \<or> rc = SQL_SUCCESS_WITH_INFO)"

datatype resource = HNil | HEnv nat | HDbc nat | HStmt nat | CMem nat

text \<open>How a parameter is bound: C type, SQL type, column size, scale, buffer length and indicator.\<close>

datatype sql_type =
  SQL_VARCHAR | SQL_BIGINT | SQL_REAL | SQL_DOUBLE | SQL_BIT | SQL_TINYINT | SQL_SMALLINT | SQL_INTEGER
| SQL_FLOAT | SQL_DECIMAL | SQL_NUMERIC | SQL_OTHER_TYPE int

datatype c_type = SQL_C_CHAR | SQL_C_SBIGINT | SQL_C_FLOAT | SQL_C_DOUBLE | SQL_C_BIT | SQL_C_SLONG

record binding =
  bn_ctype :: c_type
  bn_stype :: sql_type
  bn_size :: "64 word"
  bn_scale :: "16 word"
  bn_length :: "64 word"
  bn_ind :: "64 word"

text \<open>\<^verbatim>\<open>SQL_NULL_DATA\<close> is -1.\<close>

definition sql_null_data :: "64 word" where
  "sql_null_data = - 1"

record 'w odbc_api =
  oa_alloc :: "resource \<Rightarrow> 'w \<Rightarrow> rc \<times> 'w"
  oa_free :: "resource \<Rightarrow> 'w \<Rightarrow> rc \<times> 'w"
  oa_malloc :: "'w \<Rightarrow> bool \<times> 'w"
  oa_set_version :: "resource \<Rightarrow> 'w \<Rightarrow> rc \<times> 'w"
  oa_connect :: "resource \<Rightarrow> string \<Rightarrow> 16 word \<Rightarrow> 'w \<Rightarrow> rc \<times> 'w"
  oa_disconnect :: "resource \<Rightarrow> 'w \<Rightarrow> rc \<times> 'w"
  oa_autocommit :: "resource \<Rightarrow> bool \<Rightarrow> 'w \<Rightarrow> rc \<times> 'w"
  oa_end_tran :: "resource \<Rightarrow> bool \<Rightarrow> 'w \<Rightarrow> rc \<times> 'w"
  oa_exec_direct :: "resource \<Rightarrow> string \<Rightarrow> 32 word \<Rightarrow> 'w \<Rightarrow> rc \<times> 'w"
  oa_prepare :: "resource \<Rightarrow> string \<Rightarrow> 32 word \<Rightarrow> 'w \<Rightarrow> rc \<times> 'w"
  oa_bind :: "resource \<Rightarrow> 16 word \<Rightarrow> binding \<Rightarrow> goval \<Rightarrow> 'w \<Rightarrow> rc \<times> 'w"
  oa_execute :: "resource \<Rightarrow> 'w \<Rightarrow> rc \<times> 'w"
  oa_num_cols :: "resource \<Rightarrow> 'w \<Rightarrow> (rc \<times> 16 word) \<times> 'w"
  oa_describe :: "resource \<Rightarrow> int \<Rightarrow> nat \<Rightarrow> 'w \<Rightarrow> (rc \<times> string \<times> 16 word \<times> sql_type) \<times> 'w"
  oa_fetch :: "resource \<Rightarrow> 'w \<Rightarrow> rc \<times> 'w"
  oa_get_int :: "resource \<Rightarrow> int \<Rightarrow> c_type \<Rightarrow> 'w \<Rightarrow> (rc \<times> 64 word \<times> 64 word) \<times> 'w"
  oa_get_text :: "resource \<Rightarrow> int \<Rightarrow> 'w \<Rightarrow> (rc \<times> string \<times> 64 word) \<times> 'w"
  oa_diag :: "resource \<Rightarrow> 'w \<Rightarrow> (rc \<times> 16 word) \<times> 'w"

text \<open>The state: the world; what is allocated, with the handles the library has refused to free; those
  handles; the number of the next resource; the flags.\<close>

record 'w ffi =
  ff_world :: 'w
  ff_live :: "resource list"
  ff_lost :: "resource list"
  ff_next :: nat
  ff_fault :: bool
  ff_over :: bool

definition on_lib :: "('w \<Rightarrow> 'a \<times> 'w) \<Rightarrow> ('w ffi, 'a) goS" where
  "on_lib m s = (case m (ff_world s) of (a, w) \<Rightarrow> (Ok a, s\<lparr>ff_world := w\<rparr>))"

text \<open>A call that is given a handle.\<close>

definition with_handle :: "resource \<Rightarrow> ('w \<Rightarrow> 'a \<times> 'w) \<Rightarrow> ('w ffi, 'a) goS" where
  "with_handle h m s = on_lib m (s\<lparr>ff_fault := (ff_fault s \<or> h \<notin> set (ff_live s))\<rparr>)"

definition release :: "resource \<Rightarrow> 'w ffi \<Rightarrow> 'w ffi" where
  "release h s = s\<lparr>ff_live := remove1 h (ff_live s), ff_fault := (ff_fault s \<or> h \<notin> set (ff_live s))\<rparr>"

definition refuse :: "resource \<Rightarrow> 'w ffi \<Rightarrow> 'w ffi" where
  "refuse h s = s\<lparr>ff_lost := h # ff_lost s, ff_fault := (ff_fault s \<or> h \<notin> set (ff_live s))\<rparr>"

text \<open>\<^verbatim>\<open>SQLAllocHandle\<close>: a new handle when the code is good; \<^verbatim>\<open>SQLFreeHandle\<close>, after which
  the handle is still valid when the code is an error; \<^verbatim>\<open>C.free\<close>.\<close>

definition alloc_handle :: "'w odbc_api \<Rightarrow> (nat \<Rightarrow> resource) \<Rightarrow> ('w ffi, resource option \<times> rc) goS" where
  "alloc_handle api mk s =
    (let h = mk (ff_next s) in
     case oa_alloc api h (ff_world s) of (rc, w) \<Rightarrow>
       if rc_ok rc then (Ok (Some h, rc), s\<lparr>ff_world := w, ff_live := h # ff_live s, ff_next := Suc (ff_next s)\<rparr>)
       else (Ok (None, rc), s\<lparr>ff_world := w\<rparr>))"

definition free_handle :: "'w odbc_api \<Rightarrow> resource \<Rightarrow> ('w ffi, rc) goS" where
  "free_handle api h s =
    (case oa_free api h (ff_world s) of (rc, w) \<Rightarrow>
      (Ok rc, (if rc_ok rc then release h else refuse h) (s\<lparr>ff_world := w\<rparr>)))"

text \<open>\<^verbatim>\<open>C.malloc\<close> and its like; \<^verbatim>\<open>C.CString\<close> does not return without memory.\<close>

definition c_malloc :: "'w odbc_api \<Rightarrow> ('w ffi, resource option) goS" where
  "c_malloc api s =
    (case oa_malloc api (ff_world s) of (got, w) \<Rightarrow>
      if got then (Ok (Some (CMem (ff_next s))),
        s\<lparr>ff_world := w, ff_live := CMem (ff_next s) # ff_live s, ff_next := Suc (ff_next s)\<rparr>)
      else (Ok None, s\<lparr>ff_world := w\<rparr>))"

definition c_string :: "('w ffi, resource) goS" where
  "c_string s = (Ok (CMem (ff_next s)),
    s\<lparr>ff_live := CMem (ff_next s) # ff_live s, ff_next := Suc (ff_next s)\<rparr>)"

definition c_free :: "resource \<Rightarrow> ('w ffi, unit) goS" where
  "c_free h s = (Ok (), release h s)"

text \<open>A body with a deferred call, which runs whatever the body's result.\<close>

definition defer_call :: "('s, 'b) goS \<Rightarrow> ('s, 'a) goS \<Rightarrow> ('s, 'a) goS" where
  "defer_call d m s = (case m s of (r, s1) \<Rightarrow> (case d s1 of (Panic p, s2) \<Rightarrow> (Panic p, s2) | (_, s2) \<Rightarrow> (r, s2)))"

text \<open>\<^verbatim>\<open>C.GoStringN\<close> of a buffer of 1024 bytes: it reads as many bytes as the library says there
  are, a signed 16-bit number, also when that is more than the buffer has; a negative number ends the
  process.\<close>

definition go_string_n :: "16 word \<Rightarrow> ('w ffi, unit) goS" where
  "go_string_n n s =
    (if sint n < 0 then (Panic (PExplicit ''negative length''), s)
     else (Ok (), s\<lparr>ff_over := (ff_over s \<or> 1024 < sint n)\<rparr>))"

text \<open>\<^verbatim>\<open>diag\<close>: the error of the last call on a handle.\<close>

definition diag :: "'w odbc_api \<Rightarrow> resource \<Rightarrow> string \<Rightarrow> ('w ffi, 'a) goS" where
  "diag api h op =
    bindS (with_handle h (oa_diag api h)) (\<lambda>(rc, n).
      if \<not> rc_ok rc then failS (bare_err ''%s failed'')
      else bindS (go_string_n n) (\<lambda>_. failS (bare_err ''%s: SQLSTATE=%s native=%d message=%s'')))"

section \<open>Opening and closing\<close>

text \<open>\<^verbatim>\<open>err := diag(...); SQLFreeHandle(...) ...; return nil, err\<close>\<close>

definition fail_then :: "('s, 'a) goS \<Rightarrow> ('s, unit) goS \<Rightarrow> ('s, 'a) goS" where
  "fail_then d frees s = (case d s of (Err e, s1) \<Rightarrow> bindS frees (\<lambda>_. failS e) s1 | r \<Rightarrow> r)"

definition free_all :: "'w odbc_api \<Rightarrow> resource list \<Rightarrow> ('w ffi, unit) goS" where
  "free_all api hs = forS hs (\<lambda>h. bindS (free_handle api h) (\<lambda>_. retS ()))"

definition open_odbc :: "'w odbc_api \<Rightarrow> string \<Rightarrow> ('w ffi, resource \<times> resource) goS" where
  "open_odbc api connectionString =
    bindS (alloc_handle api HEnv) (\<lambda>(env, _). case env of
      None \<Rightarrow> failS (bare_err ''SQLAllocHandle ENV failed: %d'')
    | Some env \<Rightarrow>
      bindS (with_handle env (oa_set_version api env)) (\<lambda>rc.
        if \<not> rc_ok rc then fail_then (diag api env ''SQLSetEnvAttr'') (free_all api [env])
        else bindS (alloc_handle api HDbc) (\<lambda>(dbc, _). case dbc of
          None \<Rightarrow> fail_then (diag api env ''SQLAllocHandle DBC'') (free_all api [env])
        | Some dbc \<Rightarrow>
          bindS c_string (\<lambda>cs. defer_call (c_free cs) (
            bindS (with_handle dbc (oa_connect api dbc connectionString (word_of_int (int (length connectionString))))) (\<lambda>rc.
              if \<not> rc_ok rc then fail_then (diag api dbc ''SQLDriverConnect'') (free_all api [dbc, env])
              else retS (env, dbc)))))))"

definition catch_err :: "('s, 'a) goS \<Rightarrow> ('s, gerror option) goS" where
  "catch_err m s = (case m s of (Ok _, s') \<Rightarrow> (Ok None, s') | (Err e, s') \<Rightarrow> (Ok (Some e), s') | (Panic p, s') \<Rightarrow> (Panic p, s'))"

definition close_odbc :: "'w odbc_api \<Rightarrow> resource \<Rightarrow> resource \<Rightarrow> ('w ffi, unit) goS" where
  "close_odbc api env dbc =
    bindS (with_handle dbc (oa_disconnect api dbc)) (\<lambda>rc.
    bindS (if rc_ok rc then retS None else catch_err (diag api dbc ''SQLDisconnect'' :: ('w ffi, unit) goS)) (\<lambda>first.
    bindS (free_handle api dbc) (\<lambda>rc.
    let first = (if \<not> rc_ok rc \<and> first = None then Some (bare_err ''SQLFreeHandle DBC failed: %d'') else first) in
    bindS (free_handle api env) (\<lambda>rc.
    let first = (if \<not> rc_ok rc \<and> first = None then Some (bare_err ''SQLFreeHandle ENV failed: %d'') else first) in
    case first of None \<Rightarrow> retS () | Some e \<Rightarrow> failS e))))"

text \<open>The object: its two handles, which are nil after \<^verbatim>\<open>Close\<close>, and its flag.\<close>

record odbc_obj =
  ob_env :: resource
  ob_dbc :: resource
  ob_closed :: bool

definition new_odbc_obj :: "resource \<times> resource \<Rightarrow> odbc_obj" where
  "new_odbc_obj h = \<lparr>ob_env = fst h, ob_dbc = snd h, ob_closed = False\<rparr>"

definition close_obj :: "'w odbc_api \<Rightarrow> odbc_obj \<Rightarrow> 'w ffi \<Rightarrow> (unit go \<times> odbc_obj) \<times> 'w ffi" where
  "close_obj api ob s =
    (if ob_closed ob then ((Ok (), ob), s)
     else (case close_odbc api (ob_env ob) (ob_dbc ob) s of
        (Panic p, s') \<Rightarrow> ((Panic p, ob\<lparr>ob_closed := True\<rparr>), s')
      | (r, s') \<Rightarrow> ((r, \<lparr>ob_env = HNil, ob_dbc = HNil, ob_closed = True\<rparr>), s')))"

definition set_autocommit :: "'w odbc_api \<Rightarrow> resource \<Rightarrow> bool \<Rightarrow> ('w ffi, unit) goS" where
  "set_autocommit api dbc enabled =
    bindS (with_handle dbc (oa_autocommit api dbc enabled)) (\<lambda>rc.
      if \<not> rc_ok rc then diag api dbc ''SQLSetConnectAttr'' else retS ())"

definition end_transaction :: "'w odbc_api \<Rightarrow> resource \<Rightarrow> bool \<Rightarrow> ('w ffi, unit) goS" where
  "end_transaction api dbc commit =
    bindS (with_handle dbc (oa_end_tran api dbc commit)) (\<lambda>rc.
      if \<not> rc_ok rc then diag api dbc ''SQLEndTran'' else retS ())"

section \<open>Parameters\<close>

fun binding_of :: "goval \<Rightarrow> binding option" where
  "binding_of GNil = Some \<lparr>bn_ctype = SQL_C_CHAR, bn_stype = SQL_VARCHAR, bn_size = 1, bn_scale = 0, bn_length = 0, bn_ind = sql_null_data\<rparr>"
| "binding_of (GString v) = Some \<lparr>bn_ctype = SQL_C_CHAR, bn_stype = SQL_VARCHAR, bn_size = word_of_nat (max 1 (length v)),
     bn_scale = 0, bn_length = word_of_nat (length v), bn_ind = word_of_nat (length v)\<rparr>"
| "binding_of (GInt v) = Some \<lparr>bn_ctype = SQL_C_SBIGINT, bn_stype = SQL_BIGINT, bn_size = 19, bn_scale = 0, bn_length = 8, bn_ind = 8\<rparr>"
| "binding_of (GInt64 v) = Some \<lparr>bn_ctype = SQL_C_SBIGINT, bn_stype = SQL_BIGINT, bn_size = 19, bn_scale = 0, bn_length = 8, bn_ind = 8\<rparr>"
| "binding_of (GFloat32 v) = Some \<lparr>bn_ctype = SQL_C_FLOAT, bn_stype = SQL_REAL, bn_size = 7, bn_scale = 6, bn_length = 4, bn_ind = 4\<rparr>"
| "binding_of (GFloat64 v) = Some \<lparr>bn_ctype = SQL_C_DOUBLE, bn_stype = SQL_DOUBLE, bn_size = 15, bn_scale = 8, bn_length = 8, bn_ind = 8\<rparr>"
| "binding_of (GBool v) = Some \<lparr>bn_ctype = SQL_C_BIT, bn_stype = SQL_BIT, bn_size = 1, bn_scale = 0, bn_length = 1, bn_ind = 1\<rparr>"
| "binding_of v = None"

text \<open>\<^verbatim>\<open>free\<close> of a bound value; memory of a string comes from \<^verbatim>\<open>C.CBytes\<close>,
  which, like \<^verbatim>\<open>C.CString\<close>, does not return without.\<close>

definition free_bound :: "resource \<times> resource \<Rightarrow> ('w ffi, unit) goS" where
  "free_bound b = bindS (c_free (fst b)) (\<lambda>_. c_free (snd b))"

definition value_memory :: "'w odbc_api \<Rightarrow> goval \<Rightarrow> ('w ffi, resource option) goS" where
  "value_memory api v = (case v of GString _ \<Rightarrow> bindS c_string (\<lambda>p. retS (Some p)) | _ \<Rightarrow> c_malloc api)"

definition bind_param :: "'w odbc_api \<Rightarrow> resource \<Rightarrow> nat \<Rightarrow> goval \<Rightarrow> ('w ffi, resource \<times> resource) goS" where
  "bind_param api stmt index v =
    bindS (c_malloc api) (\<lambda>ind. case ind of
      None \<Rightarrow> failS (bare_err ''allocate parameter indicator failed'')
    | Some ind \<Rightarrow> (case binding_of v of
        None \<Rightarrow> bindS (c_free ind) (\<lambda>_. failS (bare_err ''unsupported parameter type %T''))
      | Some bn \<Rightarrow>
          bindS (value_memory api v) (\<lambda>ptr. case ptr of
            None \<Rightarrow> bindS (c_free ind) (\<lambda>_. failS (bare_err ''allocate parameter value failed''))
          | Some ptr \<Rightarrow>
              bindS (with_handle stmt (oa_bind api stmt (word_of_nat index) bn v)) (\<lambda>rc.
                if \<not> rc_ok rc then fail_then (diag api stmt ''SQLBindParameter'') (free_bound (ptr, ind))
                else retS (ptr, ind)))))"

text \<open>The loop over the parameters; it also gives the values bound so far, which the deferred
  function of \<^verbatim>\<open>Execute\<close> and \<^verbatim>\<open>Query\<close> frees.\<close>

fun bind_loop ::
    "'w odbc_api \<Rightarrow> resource \<Rightarrow> nat \<Rightarrow> goval list \<Rightarrow> (resource \<times> resource) list \<Rightarrow> 'w ffi \<Rightarrow>
     (unit go \<times> (resource \<times> resource) list) \<times> 'w ffi" where
  "bind_loop api stmt i [] bound s = ((Ok (), bound), s)"
| "bind_loop api stmt i (v # vs) bound s =
    (case bind_param api stmt (i + 1) v s of
      (Ok b, s') \<Rightarrow> bind_loop api stmt (i + 1) vs (bound @ [b]) s'
    | (Err e, s') \<Rightarrow> ((Err e, bound), s')
    | (Panic p, s') \<Rightarrow> ((Panic p, bound), s'))"

definition with_bound :: "'w odbc_api \<Rightarrow> resource \<Rightarrow> goval list \<Rightarrow> ('w ffi, 'a) goS \<Rightarrow> ('w ffi, 'a) goS" where
  "with_bound api stmt params m s =
    (case bind_loop api stmt 0 params [] s of ((r, bound), s1) \<Rightarrow>
      defer_call (forS bound free_bound) (bindS (liftS r) (\<lambda>_. m)) s1)"

definition new_statement :: "'w odbc_api \<Rightarrow> resource \<Rightarrow> ('w ffi, resource) goS" where
  "new_statement api dbc =
    bindS (alloc_handle api HStmt) (\<lambda>(stmt, _). case stmt of
      None \<Rightarrow> diag api dbc ''SQLAllocHandle STMT''
    | Some stmt \<Rightarrow> retS stmt)"

text \<open>What \<^verbatim>\<open>Execute\<close> and \<^verbatim>\<open>Query\<close> share: a statement and the text of the query, then
  the execution; \<open>m\<close> is what comes after it.\<close>

definition run_statement ::
    "'w odbc_api \<Rightarrow> resource \<Rightarrow> string \<Rightarrow> goval list \<Rightarrow> (resource \<Rightarrow> ('w ffi, 'a) goS) \<Rightarrow> ('w ffi, 'a) goS" where
  "run_statement api dbc query params m =
    bindS (new_statement api dbc) (\<lambda>stmt. defer_call (bindS (free_handle api stmt) (\<lambda>_. retS ())) (
      bindS c_string (\<lambda>cs. defer_call (c_free cs) (
        if params = [] then
          bindS (with_handle stmt (oa_exec_direct api stmt query (word_of_nat (length query)))) (\<lambda>rc.
            if \<not> rc_ok rc then diag api stmt ''SQLExecDirect'' else m stmt)
        else
          bindS (with_handle stmt (oa_prepare api stmt query (word_of_nat (length query)))) (\<lambda>rc.
            if \<not> rc_ok rc then diag api stmt ''SQLPrepare''
            else with_bound api stmt params (
              bindS (with_handle stmt (oa_execute api stmt)) (\<lambda>rc.
                if \<not> rc_ok rc then diag api stmt ''SQLExecute'' else m stmt)))))))"

definition ffi_execute :: "'w odbc_api \<Rightarrow> resource \<Rightarrow> string \<Rightarrow> goval list \<Rightarrow> ('w ffi, unit) goS" where
  "ffi_execute api dbc query params = run_statement api dbc query params (\<lambda>stmt. retS ())"

section \<open>Reading a result\<close>

text \<open>A loop that may not end is a function into an option; \<open>looped\<close> makes it an operation whose
  value is \<open>None\<close> when it does not return.\<close>

type_synonym ('s, 'a) loopS = "'s \<Rightarrow> ('a go \<times> 's) option"

definition looped :: "('s, 'a) loopS \<Rightarrow> ('s, 'a option) goS" where
  "looped m s = (case m s of None \<Rightarrow> (Ok None, s) | Some (r, s') \<Rightarrow> (bind_go r (\<lambda>a. Ok (Some a)), s'))"

definition bindL :: "('s, 'a) loopS \<Rightarrow> ('a \<Rightarrow> ('s, 'b) loopS) \<Rightarrow> ('s, 'b) loopS" where
  "bindL m f s =
    (case m s of
      None \<Rightarrow> None
    | Some (Ok a, s') \<Rightarrow> f a s'
    | Some (Err e, s') \<Rightarrow> Some (Err e, s')
    | Some (Panic p, s') \<Rightarrow> Some (Panic p, s'))"

definition goL :: "('s, 'a) goS \<Rightarrow> ('s, 'a) loopS" where
  "goL m s = Some (m s)"

text \<open>\<^verbatim>\<open>columnNames\<close>; the name is what stands in the memory from the buffer of 1024 bytes on.\<close>

fun names_loop :: "'w odbc_api \<Rightarrow> resource \<Rightarrow> nat \<Rightarrow> nat \<Rightarrow> string list \<Rightarrow> ('w ffi, string list) goS" where
  "names_loop api stmt 0 i names = retS names"
| "names_loop api stmt (Suc k) i names =
    bindS (with_handle stmt (oa_describe api stmt (int i) 1024)) (\<lambda>(rc, name, n, typ).
      if \<not> rc_ok rc then diag api stmt ''SQLDescribeCol''
      else bindS (go_string_n n) (\<lambda>_.
        names_loop api stmt k (i + 1) (names @ [take (nat (sint n)) name])))"

definition column_names :: "'w odbc_api \<Rightarrow> resource \<Rightarrow> ('w ffi, string list) goS" where
  "column_names api stmt =
    bindS (with_handle stmt (oa_num_cols api stmt)) (\<lambda>(rc, count).
      if \<not> rc_ok rc then diag api stmt ''SQLNumResultCols''
      else bindS (liftS (if sint count < 0 then Panic PMakeSlice else Ok ())) (\<lambda>_.
        names_loop api stmt (nat (sint count)) 1 []))"

text \<open>The text of a column, in pieces of at most 4095 bytes; each piece ends at its first zero byte.\<close>

definition piece :: "string \<Rightarrow> string" where
  "piece buf = takeWhile (\<lambda>c. c \<noteq> CHR 0x00) (take 4095 buf)"

definition read_piece :: "'w odbc_api \<Rightarrow> resource \<Rightarrow> int \<Rightarrow> ('w ffi, rc \<times> string \<times> 64 word) goS" where
  "read_piece api stmt col =
    bindS (c_malloc api) (\<lambda>buf. case buf of
      None \<Rightarrow> failS (bare_err ''allocate result buffer failed'')
    | Some buf \<Rightarrow>
        bindS (with_handle stmt (oa_get_text api stmt col)) (\<lambda>(rc, bytes, ind).
        bindS (c_free buf) (\<lambda>_. retS (rc, piece bytes, ind))))"

partial_function (option) read_text ::
    "'w odbc_api \<Rightarrow> resource \<Rightarrow> int \<Rightarrow> string \<Rightarrow> 'w ffi \<Rightarrow> (goval go \<times> 'w ffi) option" where
  "read_text api stmt col out s =
    (case read_piece api stmt col s of
      (Ok (rc, tx, ind), s1) \<Rightarrow>
        if rc = SQL_NO_DATA then Some (Ok (GString out), s1)
        else if ind = sql_null_data then Some (Ok GNil, s1)
        else if \<not> rc_ok rc then Some (diag api stmt ''SQLGetData'' s1)
        else if rc = SQL_SUCCESS then Some (Ok (GString (out @ tx)), s1)
        else read_text api stmt col (out @ tx) s1
    | (Err e, s1) \<Rightarrow> Some (Err e, s1)
    | (Panic p, s1) \<Rightarrow> Some (Panic p, s1))"

text \<open>A column of a fixed size, by its SQL type.\<close>

definition fixed_type :: "sql_type \<Rightarrow> (c_type \<times> (64 word \<Rightarrow> goval)) option" where
  "fixed_type typ =
    (if typ \<in> {SQL_TINYINT, SQL_SMALLINT, SQL_INTEGER} then Some (SQL_C_SLONG, \<lambda>v. GInt (scast (ucast v :: 32 word)))
     else if typ = SQL_BIGINT then Some (SQL_C_SBIGINT, GInt64)
     else if typ = SQL_REAL then Some (SQL_C_FLOAT, \<lambda>v. GFloat32 (ucast v))
     else if typ \<in> {SQL_FLOAT, SQL_DOUBLE, SQL_DECIMAL, SQL_NUMERIC} then Some (SQL_C_DOUBLE, GFloat64)
     else None)"

definition read_column :: "'w odbc_api \<Rightarrow> resource \<Rightarrow> int \<Rightarrow> ('w ffi, goval) loopS" where
  "read_column api stmt col =
    bindL (goL (with_handle stmt (oa_describe api stmt col 2))) (\<lambda>(rc, _, _, typ).
      if \<not> rc_ok rc then goL (diag api stmt ''SQLDescribeCol'')
      else (case fixed_type typ of
        Some (ct, conv) \<Rightarrow>
          bindL (goL (with_handle stmt (oa_get_int api stmt col ct))) (\<lambda>(rc, v, ind).
            if \<not> rc_ok rc then goL (diag api stmt ''SQLGetData'')
            else goL (retS (if ind = sql_null_data then GNil else conv v)))
      | None \<Rightarrow> read_text api stmt col []))"

fun read_row :: "'w odbc_api \<Rightarrow> resource \<Rightarrow> nat \<Rightarrow> nat \<Rightarrow> goval list \<Rightarrow> ('w ffi, goval list) loopS" where
  "read_row api stmt 0 i row = goL (retS row)"
| "read_row api stmt (Suc k) i row =
    bindL (read_column api stmt (int i)) (\<lambda>v. read_row api stmt k (i + 1) (row @ [v]))"

partial_function (option) fetch_loop ::
    "'w odbc_api \<Rightarrow> resource \<Rightarrow> nat \<Rightarrow> rows \<Rightarrow> 'w ffi \<Rightarrow> (rows go \<times> 'w ffi) option" where
  "fetch_loop api stmt n rows s =
    (case with_handle stmt (oa_fetch api stmt) s of
      (Ok rc, s1) \<Rightarrow>
        if rc = SQL_NO_DATA then Some (Ok rows, s1)
        else if \<not> rc_ok rc then Some (diag api stmt ''SQLFetch'' s1)
        else Option.bind (read_row api stmt n 1 [] s1) (\<lambda>(r, s2).
          case r of
            Ok row \<Rightarrow> fetch_loop api stmt n (rows @ [row]) s2
          | Err e \<Rightarrow> Some (Err e, s2)
          | Panic p \<Rightarrow> Some (Panic p, s2))
    | (Err e, s1) \<Rightarrow> Some (Err e, s1)
    | (Panic p, s1) \<Rightarrow> Some (Panic p, s1))"

text \<open>An operation whose value may be \<open>None\<close> because it does not return, as a loop again: what it did
  to the state in that case is dropped with its value.\<close>

definition returned :: "('s, 'a option) goS \<Rightarrow> ('s, 'a) loopS" where
  "returned m s =
    (case m s of
      (Ok None, s') \<Rightarrow> None
    | (Ok (Some a), s') \<Rightarrow> Some (Ok a, s')
    | (Err e, s') \<Rightarrow> Some (Err e, s')
    | (Panic p, s') \<Rightarrow> Some (Panic p, s'))"

text \<open>\<open>None\<close> when fetching does not end.\<close>

definition ffi_query ::
    "'w odbc_api \<Rightarrow> resource \<Rightarrow> string \<Rightarrow> goval list \<Rightarrow> ('w ffi, rows \<times> string list) loopS" where
  "ffi_query api dbc query params =
    returned (run_statement api dbc query params (\<lambda>stmt.
      bindS (column_names api stmt) (\<lambda>names.
      bindS (looped (fetch_loop api stmt (length names) [])) (\<lambda>rows.
        retS (map_option (\<lambda>rows. (rows, names)) rows)))))"

section \<open>The ledger\<close>

text \<open>What no answer of the library may be, because it ends the process: a negative length of a message
  or of a column's name, a negative number of columns.\<close>

definition nonneg_lengths :: "'w odbc_api \<Rightarrow> bool" where
  "nonneg_lengths api \<longleftrightarrow>
    (\<forall>h w rc n w'. oa_diag api h w = ((rc, n), w') \<longrightarrow> rc_ok rc \<longrightarrow> 0 \<le> sint n) \<and>
    (\<forall>h w rc n w'. oa_num_cols api h w = ((rc, n), w') \<longrightarrow> rc_ok rc \<longrightarrow> 0 \<le> sint n) \<and>
    (\<forall>h i k w rc name n typ w'. oa_describe api h i k w = ((rc, name, n, typ), w') \<longrightarrow> rc_ok rc \<longrightarrow> 0 \<le> sint n)"

text \<open>The library does not always free the handle.\<close>

definition refused :: "'w odbc_api \<Rightarrow> resource \<Rightarrow> bool" where
  "refused api h \<longleftrightarrow> (\<exists>w. \<not> rc_ok (fst (oa_free api h w)))"

text \<open>
  \<open>ledger api M s\<close>: allocated are exactly the resources \<open>M\<close>, which the code holds, and the handles that
  the library has refused to free; and the code has never used or released one that was not
  allocated.  \<open>holds api M m Q E\<close>: from a ledger \<open>M\<close>, \<open>m\<close> ends with \<open>Q a\<close> when it returns \<open>a\<close>, with \<open>E\<close>
  when it returns an error, and does not panic unless the library gives a negative length.
\<close>

definition ledger :: "'w odbc_api \<Rightarrow> resource multiset \<Rightarrow> 'w ffi \<Rightarrow> bool" where
  "ledger api M s \<longleftrightarrow>
    mset (ff_live s) = M + mset (ff_lost s) \<and> (\<forall>h \<in> set (ff_lost s). refused api h) \<and> \<not> ff_fault s"

definition holds ::
    "'w odbc_api \<Rightarrow> resource multiset \<Rightarrow> ('w ffi, 'a) goS \<Rightarrow> ('a \<Rightarrow> resource multiset) \<Rightarrow> resource multiset \<Rightarrow> bool" where
  "holds api M m Q E \<longleftrightarrow> (\<forall>s r s'. ledger api M s \<longrightarrow> m s = (r, s') \<longrightarrow>
    (case r of Ok a \<Rightarrow> ledger api (Q a) s' | Err e \<Rightarrow> ledger api E s' | Panic p \<Rightarrow> \<not> nonneg_lengths api))"

named_theorems odbc_ledger \<open>what the operations do to the ledger\<close>

lemma holdsD: "holds api M m Q E \<Longrightarrow> ledger api M s \<Longrightarrow> m s = (r, s') \<Longrightarrow>
    (case r of Ok a \<Rightarrow> ledger api (Q a) s' | Err e \<Rightarrow> ledger api E s' | Panic p \<Rightarrow> \<not> nonneg_lengths api)"
  by (simp add: holds_def)

lemma holds_bind:
  assumes "holds api M m Q E" "\<And>a. holds api (Q a) (f a) R E"
  shows "holds api M (bindS m f) R E"
  unfolding holds_def
proof (intro allI impI)
  fix s r s'
  assume s: "ledger api M s" and "bindS m f s = (r, s')"
  from this(2) show "case r of Ok a \<Rightarrow> ledger api (R a) s' | Err e \<Rightarrow> ledger api E s' | Panic p \<Rightarrow> \<not> nonneg_lengths api"
  proof (cases rule: bindS_cases)
    case (ok a t)
    with holdsD[OF assms(1) s] have "ledger api (Q a) t" by fastforce
    with ok(2) assms(2) show ?thesis by (auto simp: holds_def)
  next
    case (err e)
    with holdsD[OF assms(1) s] show ?thesis by fastforce
  next
    case (panic p)
    with holdsD[OF assms(1) s] show ?thesis by fastforce
  qed
qed

lemma holds_pure [odbc_ledger]:
  "Q a = M \<Longrightarrow> holds api M (retS a) Q E" "M = E \<Longrightarrow> holds api M (failS e) Q E"
  by (auto simp: holds_def)

lemma holds_lift: "(\<And>a. r = Ok a \<Longrightarrow> Q a = M) \<Longrightarrow> M = E \<Longrightarrow> \<not> is_panic r \<Longrightarrow> holds api M (liftS r) Q E"
  by (cases r) (auto simp: holds_def)

lemma ledger_mem: "ledger api M s \<Longrightarrow> h \<in># M \<Longrightarrow> h \<in> set (ff_live s)"
  unfolding ledger_def by (metis set_mset_mset union_iff)

lemma ledger_world [simp]:
  "ledger api M (s\<lparr>ff_world := w\<rparr>) = ledger api M s" "ledger api M (s\<lparr>ff_over := b\<rparr>) = ledger api M s"
  by (simp_all add: ledger_def)

lemma holds_handle [odbc_ledger]: "h \<in># M \<Longrightarrow> (\<And>a. Q a = M) \<Longrightarrow> holds api M (with_handle h m) Q E"
  using ledger_mem by (fastforce simp: holds_def ledger_def with_handle_def on_lib_def split: prod.splits)

lemma ledger_release: "ledger api M s \<Longrightarrow> h \<in># M \<Longrightarrow> ledger api (M - {#h#}) (release h s)"
  using ledger_mem by (fastforce simp: ledger_def release_def)

lemma ledger_refuse: "ledger api M s \<Longrightarrow> h \<in># M \<Longrightarrow> refused api h \<Longrightarrow> ledger api (M - {#h#}) (refuse h s)"
  using ledger_mem by (fastforce simp: ledger_def refuse_def)

lemma holds_free [odbc_ledger]:
  "h \<in># M \<Longrightarrow> (\<And>a. Q a = M - {#h#}) \<Longrightarrow> holds api M (free_handle api h) Q E"
  "h \<in># M \<Longrightarrow> (\<And>a. Q' a = M - {#h#}) \<Longrightarrow> holds api M (c_free h) Q' E"
proof -
  have "refused api h" if "oa_free api h w = (rc, w')" "\<not> rc_ok rc" for rc w w'
    unfolding refused_def using that by (metis fst_conv)
  then show "h \<in># M \<Longrightarrow> (\<And>a. Q a = M - {#h#}) \<Longrightarrow> holds api M (free_handle api h) Q E"
    by (auto simp: holds_def free_handle_def intro!: ledger_release ledger_refuse split: prod.splits)
qed (auto simp: holds_def c_free_def intro!: ledger_release)

lemma holds_alloc [odbc_ledger]:
  "holds api M (alloc_handle api mk) (\<lambda>(h, rc). case h of None \<Rightarrow> M | Some h \<Rightarrow> add_mset h M) E"
  "holds api M (c_malloc api) (\<lambda>h. case h of None \<Rightarrow> M | Some h \<Rightarrow> add_mset h M) E"
  "holds api M c_string (\<lambda>h. add_mset h M) E"
  by (auto simp: holds_def ledger_def alloc_handle_def c_malloc_def c_string_def Let_def split: prod.splits)

text \<open>A length that the library has given.\<close>

lemma holds_go_string: "(sint n < 0 \<Longrightarrow> \<not> nonneg_lengths api) \<Longrightarrow> (\<And>a. Q a = M) \<Longrightarrow> holds api M (go_string_n n) Q E"
  by (auto simp: holds_def go_string_n_def)

text \<open>A call on a handle that the code holds, and what is done with its answer.\<close>

lemma holds_answer:
  assumes "h \<in># M" "\<And>a w w'. m w = (a, w') \<Longrightarrow> holds api M (f a) Q E"
  shows "holds api M (bindS (with_handle h m) f) Q E"
  unfolding holds_def
proof (intro allI impI)
  fix s r s'
  assume s: "ledger api M s" and run: "bindS (with_handle h m) f s = (r, s')"
  obtain a w where a: "m (ff_world s) = (a, w)" by fastforce
  have "holds api M (with_handle h m) (\<lambda>_. M) M" using assms(1) by (intro odbc_ledger) simp_all
  with s a have "ledger api M (snd (with_handle h m s))"
    by (auto simp: holds_def with_handle_def on_lib_def)
  moreover have "f a (snd (with_handle h m s)) = (r, s')"
    using run a by (simp add: bindS_def with_handle_def on_lib_def)
  ultimately show "case r of Ok a \<Rightarrow> ledger api (Q a) s' | Err e \<Rightarrow> ledger api E s' | Panic p \<Rightarrow> \<not> nonneg_lengths api"
    using holdsD[OF assms(2)[OF a]] by blast
qed

lemma holds_diag [odbc_ledger]:
  assumes "h \<in># M" "M = E"
  shows "holds api M (diag api h op) Q E"
  unfolding diag_def
proof (rule holds_answer[OF assms(1)])
  fix a w w'
  assume d: "oa_diag api h w = (a, w')"
  obtain rc n where a: "a = (rc, n)" by fastforce
  have neg: "\<not> nonneg_lengths api" if "rc_ok rc" "sint n < 0"
    using d a that unfolding nonneg_lengths_def by (meson not_less)
  have "holds api M (bindS (go_string_n n) (\<lambda>_. failS e)) Q E" if "rc_ok rc" for e
    by (rule holds_bind[OF holds_go_string[where Q = "\<lambda>_. M"]]) (use neg that assms(2) in \<open>simp_all add: odbc_ledger\<close>)
  then show "holds api M (case a of (rc, n) \<Rightarrow> if \<not> rc_ok rc then failS (bare_err ''%s failed'')
      else bindS (go_string_n n) (\<lambda>_. failS (bare_err ''%s: SQLSTATE=%s native=%d message=%s''))) Q E"
    using a assms(2) by (simp add: odbc_ledger)
qed

text \<open>A deferred release gives back what the body had too much, on success and on error.\<close>

lemma holds_defer:
  assumes "holds api M m (\<lambda>a. Q a + D) (E + D)" "\<And>N. holds api (N + D) d (\<lambda>_. N) N"
  shows "holds api M (defer_call d m) Q E"
  unfolding holds_def
proof (intro allI impI)
  fix s r s'
  assume s: "ledger api M s" and run: "defer_call d m s = (r, s')"
  obtain x t where m: "m s = (x, t)" by fastforce
  obtain y u where d: "d t = (y, u)" by fastforce
  from run m d have r: "(case y of Panic p \<Rightarrow> r = Panic p | _ \<Rightarrow> r = x \<and> s' = u)"
    by (auto simp: defer_call_def split: go.splits)
  from holdsD[OF assms(1) s m] show "case r of Ok a \<Rightarrow> ledger api (Q a) s' | Err e \<Rightarrow> ledger api E s' | Panic p \<Rightarrow> \<not> nonneg_lengths api"
  proof (cases x)
    case (Ok a)
    with holdsD[OF assms(1) s m] have "ledger api (Q a + D) t" by simp
    from holdsD[OF assms(2) this d] r Ok show ?thesis by (cases y) auto
  next
    case (Err e)
    with holdsD[OF assms(1) s m] have "ledger api (E + D) t" by simp
    from holdsD[OF assms(2) this d] r Err show ?thesis by (cases y) auto
  next
    case (Panic p)
    with holdsD[OF assms(1) s m] r show ?thesis by (cases y) auto
  qed
qed

lemma holds_fail_then:
  assumes "holds api M d Q F" "holds api F fr (\<lambda>_. E) E"
  shows "holds api M (fail_then d fr) Q E"
  unfolding holds_def
proof (intro allI impI)
  fix s r s'
  assume s: "ledger api M s" and run: "fail_then d fr s = (r, s')"
  obtain x t where d: "d s = (x, t)" by fastforce
  show "case r of Ok a \<Rightarrow> ledger api (Q a) s' | Err e \<Rightarrow> ledger api E s' | Panic p \<Rightarrow> \<not> nonneg_lengths api"
  proof (cases x)
    case (Err e)
    with holdsD[OF assms(1) s d] have t: "ledger api F t" by simp
    have "holds api F (bindS fr (\<lambda>_. failS e)) Q E" by (rule holds_bind[OF assms(2)]) (simp add: odbc_ledger)
    from holdsD[OF this t] run d Err show ?thesis by (simp add: fail_then_def)
  qed (use holdsD[OF assms(1) s d] run d in \<open>auto simp: fail_then_def\<close>)
qed

text \<open>Operations that leave the ledger as it is: \<open>neutral h m\<close> for one that is given the handle
  \<open>h\<close>.\<close>

definition neutral :: "'w odbc_api \<Rightarrow> resource \<Rightarrow> ('w ffi, 'a) goS \<Rightarrow> bool" where
  "neutral api h m \<longleftrightarrow> (\<forall>M. h \<in># M \<longrightarrow> holds api M m (\<lambda>_. M) M)"

lemma neutralI: "(\<And>M. h \<in># M \<Longrightarrow> holds api M m (\<lambda>_. M) M) \<Longrightarrow> neutral api h m"
  by (simp add: neutral_def)

lemma neutralD: "neutral api h m \<Longrightarrow> h \<in># M \<Longrightarrow> holds api M m (\<lambda>_. M) M"
  by (simp add: neutral_def)

lemma neutral_bind [odbc_ledger]: "neutral api h m \<Longrightarrow> (\<And>a. neutral api h (f a)) \<Longrightarrow> neutral api h (bindS m f)"
  by (auto simp: neutral_def intro: holds_bind)

lemma neutral_pure [odbc_ledger]: "neutral api h (retS a)" "neutral api h (failS e)"
  "neutral api h (with_handle h m)" "neutral api h (diag api h op)"
  by (auto simp: neutral_def intro: odbc_ledger)

lemma neutral_lift: "\<not> is_panic r \<Longrightarrow> neutral api h (liftS r)"
  by (auto simp: neutral_def intro: holds_lift)

lemma neutral_answer: "(\<And>a w w'. m w = (a, w') \<Longrightarrow> neutral api h (f a)) \<Longrightarrow> neutral api h (bindS (with_handle h m) f)"
  by (auto simp: neutral_def intro!: holds_answer)

lemma neutral_split [odbc_ledger]:
  "(b \<Longrightarrow> neutral api h m) \<Longrightarrow> (\<not> b \<Longrightarrow> neutral api h m') \<Longrightarrow> neutral api h (if b then m else m')"
  by simp

lemma holds_free_bound [odbc_ledger]:
  "holds api (N + {#fst b, snd b#}) (free_bound b) (\<lambda>_. N) N"
  unfolding free_bound_def
  by (rule holds_bind[where Q = "\<lambda>_. N + {#snd b#}"]) (auto intro: odbc_ledger)

fun held :: "(resource \<times> resource) list \<Rightarrow> resource multiset" where
  "held [] = {#}"
| "held (b # bs) = {#fst b, snd b#} + held bs"

lemma held_append: "held (bs @ [b]) = held bs + {#fst b, snd b#}"
  by (induction bs) auto

lemma holds_free_bound': "holds api (add_mset (fst b) (add_mset (snd b) N)) (free_bound b) (\<lambda>_. N) E"
  unfolding free_bound_def
  by (rule holds_bind[where Q = "\<lambda>_. N + {#snd b#}"]) (auto intro: odbc_ledger)

lemma holds_free_all_bound: "holds api (N + held bs) (forS bs free_bound) (\<lambda>_. N) N"
proof (induction bs)
  case Nil
  show ?case by (simp add: holds_def)
qed (auto intro!: holds_bind[OF holds_free_bound'])

lemma holds_value_memory:
  "holds api M (value_memory api v) (\<lambda>h. case h of None \<Rightarrow> M | Some h \<Rightarrow> add_mset h M) E"
  unfolding value_memory_def
  by (auto split: goval.split intro!: odbc_ledger holds_bind[where Q = "\<lambda>h. add_mset h M" and f = "\<lambda>p. retS (Some p)"])

lemma holds_bind_param:
  assumes "stmt \<in># M"
  shows "holds api M (bind_param api stmt i v) (\<lambda>b. M + {#fst b, snd b#}) M"
  unfolding bind_param_def
proof (rule holds_bind[OF holds_alloc(2)], goal_cases)
  case (1 ind)
  show ?case
  proof (cases ind)
    case (Some p)
    show ?thesis
    proof (cases "binding_of v")
      case None
      with Some show ?thesis
        by (auto intro!: odbc_ledger holds_bind[where Q = "\<lambda>_. M"])
    next
      case bn: (Some bn)
      have "holds api (M + {#q, p#}) (bindS (with_handle stmt (oa_bind api stmt (word_of_nat i) bn v)) (\<lambda>rc.
          if \<not> rc_ok rc then fail_then (diag api stmt ''SQLBindParameter'') (free_bound (q, p)) else retS (q, p)))
        (\<lambda>b. M + {#fst b, snd b#}) M" for q
        using assms holds_free_bound[of api M "(q, p)"]
        by (intro holds_bind[where Q = "\<lambda>_. M + {#q, p#}"])
          (auto intro!: odbc_ledger holds_fail_then[where F = "M + {#q, p#}"])
      then have "holds api (add_mset p M) (bindS (value_memory api v) (\<lambda>ptr. case ptr of
            None \<Rightarrow> bindS (c_free p) (\<lambda>_. failS (bare_err ''allocate parameter value failed''))
          | Some ptr \<Rightarrow>
              bindS (with_handle stmt (oa_bind api stmt (word_of_nat i) bn v)) (\<lambda>rc.
                if \<not> rc_ok rc then fail_then (diag api stmt ''SQLBindParameter'') (free_bound (ptr, p))
                else retS (ptr, p)))) (\<lambda>b. M + {#fst b, snd b#}) M"
        by (intro holds_bind[OF holds_value_memory])
          (auto split: option.split intro!: odbc_ledger holds_bind[where Q = "\<lambda>_. M" and m = "c_free p"])
      with Some bn show ?thesis by simp
    qed
  qed (simp add: odbc_ledger)
qed

lemma bind_loop_ledger:
  assumes "stmt \<in># M" "ledger api (M + held bound) s" "bind_loop api stmt i vs bound s = ((r, bound'), s')"
  shows "if is_panic r then \<not> nonneg_lengths api else ledger api (M + held bound') s'"
  using assms
proof (induction vs arbitrary: i bound s)
  case (Cons v vs)
  obtain x t where x: "bind_param api stmt (i + 1) v s = (x, t)" by fastforce
  have "holds api (M + held bound) (bind_param api stmt (i + 1) v)
      (\<lambda>b. (M + held bound) + {#fst b, snd b#}) (M + held bound)"
    using Cons.prems(1) by (intro holds_bind_param) simp
  note post = holdsD[OF this Cons.prems(2) x]
  show ?case
  proof (cases x)
    case (Ok b)
    with post have "ledger api (M + held (bound @ [b])) t"
      by (simp add: held_append ac_simps)
    with Ok x Cons.prems show ?thesis by (intro Cons.IH[of "bound @ [b]" t "i + 1"]) simp_all
  qed (use post x Cons.prems in auto)
qed auto

lemma holds_with_bound:
  assumes "neutral api stmt m" "stmt \<in># M"
  shows "holds api M (with_bound api stmt params m) (\<lambda>_. M) M"
  unfolding holds_def
proof (intro allI impI)
  fix s r s'
  assume s: "ledger api M s" and run: "with_bound api stmt params m s = (r, s')"
  obtain x bound t where b: "bind_loop api stmt 0 params [] s = ((x, bound), t)" by (metis surj_pair)
  from run b have r: "defer_call (forS bound free_bound) (bindS (liftS x) (\<lambda>_. m)) t = (r, s')"
    by (simp add: with_bound_def)
  show "case r of Ok a \<Rightarrow> ledger api M s' | Err e \<Rightarrow> ledger api M s' | Panic p \<Rightarrow> \<not> nonneg_lengths api"
  proof (cases "is_panic x")
    case True
    then obtain q where q: "x = Panic q" by (auto simp: is_panic_iff)
    have "\<not> nonneg_lengths api"
      using bind_loop_ledger[of stmt M api "[]" s, OF _ _ b] assms(2) s True by simp
    with r q show ?thesis by (auto simp: defer_call_def bindS_def split: go.splits prod.splits)
  next
    case False
    have t: "ledger api (M + held bound) t"
      using bind_loop_ledger[of stmt M api "[]" s, OF _ _ b] False assms(2) s by simp
    have "neutral api stmt (bindS (liftS x) (\<lambda>_. m))"
      using assms(1) False by (intro odbc_ledger neutral_lift)
    with assms(2) have "holds api (M + held bound) (bindS (liftS x) (\<lambda>_. m)) (\<lambda>_. M + held bound) (M + held bound)"
      by (auto intro: neutralD)
    from holdsD[OF holds_defer[OF this holds_free_all_bound] t r] show ?thesis .
  qed
qed

lemma holds_new_statement:
  "dbc \<in># M \<Longrightarrow> holds api M (new_statement api dbc) (\<lambda>h. add_mset h M) M"
  unfolding new_statement_def
  by (rule holds_bind[OF holds_alloc(1)]) (auto split: option.split intro!: odbc_ledger)

lemma holds_run_statement:
  assumes m: "\<And>stmt. neutral api stmt (m stmt)" and dbc: "dbc \<in># M"
  shows "holds api M (run_statement api dbc query params m) (\<lambda>_. M) M"
  unfolding run_statement_def
proof (rule holds_bind[OF holds_new_statement[OF dbc]], rule holds_defer)
  fix stmt :: resource
  let ?M = "add_mset stmt M"
  have frees: "holds api (N + {#h#}) (bindS (free_handle api h) (\<lambda>_. retS ())) (\<lambda>_. N) N"
    "holds api (N + {#h#}) (c_free h) (\<lambda>_. N) N" for N h
    by (auto intro!: odbc_ledger holds_bind[where Q = "\<lambda>_. N"])
  show "holds api (N + {#stmt#}) (bindS (free_handle api stmt) (\<lambda>_. retS ())) (\<lambda>_. N) N" for N
    by (rule frees)
  let ?run = "if params = [] then
          bindS (with_handle stmt (oa_exec_direct api stmt query (word_of_nat (length query)))) (\<lambda>rc.
            if \<not> rc_ok rc then diag api stmt ''SQLExecDirect'' else m stmt)
        else
          bindS (with_handle stmt (oa_prepare api stmt query (word_of_nat (length query)))) (\<lambda>rc.
            if \<not> rc_ok rc then diag api stmt ''SQLPrepare''
            else with_bound api stmt params (
              bindS (with_handle stmt (oa_execute api stmt)) (\<lambda>rc.
                if \<not> rc_ok rc then diag api stmt ''SQLExecute'' else m stmt)))"
  have "neutral api stmt ?run"
    by (intro odbc_ledger m neutralI[where h = stmt and m = "with_bound api stmt params m'" for m'] holds_with_bound)
  then have "holds api (add_mset cs ?M) ?run (\<lambda>_. add_mset cs ?M) (add_mset cs ?M)" for cs
    by (auto intro: neutralD)
  then show "holds api ?M (bindS c_string (\<lambda>cs. defer_call (c_free cs) ?run)) (\<lambda>_. M + {#stmt#}) (M + {#stmt#})"
    by (intro holds_bind[OF holds_alloc(3)] holds_defer[OF _ frees(2)]) simp
qed

lemma neutral_cases [odbc_ledger]:
  "(\<And>a b. neutral api h (f a b)) \<Longrightarrow> neutral api h (case p of (a, b) \<Rightarrow> f a b)"
  "neutral api h n \<Longrightarrow> (\<And>a. neutral api h (g a)) \<Longrightarrow> neutral api h (case q of None \<Rightarrow> n | Some a \<Rightarrow> g a)"
  by (simp_all split: prod.split option.split)

text \<open>The same for loops.\<close>

definition kept :: "'w odbc_api \<Rightarrow> resource multiset \<Rightarrow> 'a go \<Rightarrow> 'w ffi \<Rightarrow> bool" where
  "kept api M r s \<longleftrightarrow> (if is_panic r then \<not> nonneg_lengths api else ledger api M s)"

lemma kept_simps [simp]:
  "kept api M (Ok a) s = ledger api M s" "kept api M (Err e) s = ledger api M s" "kept api M (Panic p) s = (\<not> nonneg_lengths api)"
  by (simp_all add: kept_def)

definition neutralL :: "'w odbc_api \<Rightarrow> resource \<Rightarrow> ('w ffi, 'a) loopS \<Rightarrow> bool" where
  "neutralL api h m \<longleftrightarrow> (\<forall>M s r s'. h \<in># M \<longrightarrow> ledger api M s \<longrightarrow> m s = Some (r, s') \<longrightarrow> kept api M r s')"

lemma neutralLD: "neutralL api h m \<Longrightarrow> h \<in># M \<Longrightarrow> ledger api M s \<Longrightarrow> m s = Some (r, s') \<Longrightarrow> kept api M r s'"
  by (simp add: neutralL_def)

lemma neutral_iff:
  "neutral api h m \<longleftrightarrow> (\<forall>M s r s'. h \<in># M \<longrightarrow> ledger api M s \<longrightarrow> m s = (r, s') \<longrightarrow> kept api M r s')"
proof -
  have "(case r of Ok a \<Rightarrow> ledger api M s | Err e \<Rightarrow> ledger api M s | Panic p \<Rightarrow> \<not> nonneg_lengths api) = kept api M r s"
    for r :: "'b go" and M s
    by (cases r) simp_all
  then show ?thesis unfolding neutral_def holds_def by blast
qed

lemma neutralL_goL [odbc_ledger]: "neutral api h m \<Longrightarrow> neutralL api h (goL m)"
  by (auto simp: neutral_iff neutralL_def goL_def)

lemma bindL_Some:
  assumes "bindL m f s = Some (r, s')"
  obtains (ok) a t where "m s = Some (Ok a, t)" "f a t = Some (r, s')"
    | (err) e where "m s = Some (Err e, s')" "r = Err e"
    | (panic) p where "m s = Some (Panic p, s')" "r = Panic p"
  using assms by (auto simp: bindL_def split: option.splits prod.splits go.splits)

lemma neutralL_bind [odbc_ledger]:
  assumes m: "neutralL api h m" and f: "\<And>a. neutralL api h (f a)"
  shows "neutralL api h (bindL m f)"
  unfolding neutralL_def
proof (intro allI impI)
  fix M s r s'
  assume M: "h \<in># M" "ledger api M s" and "bindL m f s = Some (r, s')"
  from this(3) show "kept api M r s'"
  proof (cases rule: bindL_Some)
    case (ok a t)
    have "ledger api M t" using neutralLD[OF m M ok(1)] by simp
    from neutralLD[OF f M(1) this ok(2)] show ?thesis .
  next
    case (err e)
    from neutralLD[OF m M err(1)] err(2) show ?thesis by simp
  next
    case (panic p)
    from neutralLD[OF m M panic(1)] panic(2) show ?thesis by simp
  qed
qed

lemma neutralL_cases [odbc_ledger]:
  "(\<And>a b. neutralL api h (f a b)) \<Longrightarrow> neutralL api h (case p of (a, b) \<Rightarrow> f a b)"
  "neutralL api h n \<Longrightarrow> (\<And>a. neutralL api h (g a)) \<Longrightarrow> neutralL api h (case q of None \<Rightarrow> n | Some a \<Rightarrow> g a)"
  "(c \<Longrightarrow> neutralL api h m) \<Longrightarrow> (\<not> c \<Longrightarrow> neutralL api h m') \<Longrightarrow> neutralL api h (if c then m else m')"
  by (simp_all split: prod.split option.split)

lemma neutral_looped [odbc_ledger]:
  assumes "neutralL api h m"
  shows "neutral api h (looped m)"
  unfolding neutral_iff
proof (intro allI impI)
  fix M s r s'
  assume M: "h \<in># M" "ledger api M s" and run: "looped m s = (r, s')"
  show "kept api M r s'"
  proof (cases "m s")
    case (Some p)
    obtain x t where p: "p = (x, t)" by fastforce
    with neutralLD[OF assms M, of x t] Some run show ?thesis
      by (cases x) (auto simp: looped_def)
  qed (use M run in \<open>auto simp: looped_def\<close>)
qed

lemma neutral_returned [odbc_ledger]:
  assumes "neutral api h m"
  shows "neutralL api h (returned m)"
  unfolding neutralL_def
proof (intro allI impI)
  fix M s r s'
  assume M: "h \<in># M" "ledger api M s" and run: "returned m s = Some (r, s')"
  obtain x t where x: "m s = (x, t)" by fastforce
  from assms[unfolded neutral_iff, rule_format, OF M x] run x show "kept api M r s'"
    by (auto simp: returned_def split: go.splits option.splits)
qed

lemma neutral_go_string: "(sint n < 0 \<Longrightarrow> \<not> nonneg_lengths api) \<Longrightarrow> neutral api h (go_string_n n)"
  by (auto simp: neutral_def intro: holds_go_string)

lemma neutral_names_loop [odbc_ledger]: "neutral api stmt (names_loop api stmt k i names)"
proof (induction k arbitrary: i names)
  case (Suc k)
  have "neutral api stmt (bindS (go_string_n n) (\<lambda>_. names_loop api stmt k (i + 1) (names @ [take (nat (sint n)) name])))"
    if "oa_describe api stmt (int i) 1024 w = ((rc, name, n, ty), w')" "rc_ok rc" for w rc name n ty w'
  proof (intro odbc_ledger neutral_go_string Suc.IH)
    assume "sint n < 0"
    with that show "\<not> nonneg_lengths api" unfolding nonneg_lengths_def by (meson not_less)
  qed
  note named = this
  show ?case
    unfolding names_loop.simps
  proof (rule neutral_answer, goal_cases)
    case (1 a w w')
    obtain rc name n ty where a: "a = (rc, name, n, ty)" by (metis surj_pair)
    with named[of w rc name n ty w'] 1 show ?case
      by (cases "rc_ok rc") (simp_all add: neutral_pure)
  qed
qed (simp only: names_loop.simps neutral_pure)

lemma neutral_column_names [odbc_ledger]: "neutral api stmt (column_names api stmt)"
proof -
  have "neutral api stmt (bindS (liftS (if sint count < 0 then Panic PMakeSlice else Ok ())) (\<lambda>_. names_loop api stmt (nat (sint count)) 1 []))"
    if "oa_num_cols api stmt w = ((rc, count), w')" "rc_ok rc" for w rc count w'
  proof (cases "sint count < 0")
    case True
    with that have "\<not> nonneg_lengths api" unfolding nonneg_lengths_def by (meson not_less)
    with True show ?thesis by (auto simp: neutral_iff bindS_def)
  qed (auto intro!: odbc_ledger neutral_lift)
  note counted = this
  show ?thesis
    unfolding column_names_def
  proof (rule neutral_answer, goal_cases)
    case (1 a w w')
    obtain rc count where a: "a = (rc, count)" by fastforce
    with counted[of w rc count w'] 1 show ?case
      by (cases "rc_ok rc") (simp_all add: neutral_pure)
  qed
qed

lemma ledger_on_lib: "with_handle h m s = (r, s') \<Longrightarrow> h \<in># M \<Longrightarrow> ledger api M s \<Longrightarrow> ledger api M s' \<and> \<not> is_panic r"
  using neutral_pure(3)[unfolded neutral_iff, rule_format, of h M api s m r s']
  by (auto simp: with_handle_def on_lib_def split: prod.splits)

lemma neutral_read_piece [odbc_ledger]: "neutral api stmt (read_piece api stmt col)"
proof (rule neutralI)
  fix M :: "resource multiset"
  assume M: "stmt \<in># M"
  have "holds api (add_mset buf M) (bindS (with_handle stmt (oa_get_text api stmt col)) (\<lambda>(rc, bytes, ind).
        bindS (c_free buf) (\<lambda>_. retS (rc, piece bytes, ind)))) (\<lambda>_. M) M" for buf
    using M by (intro holds_bind[where Q = "\<lambda>_. add_mset buf M"])
      (auto split: prod.split intro!: odbc_ledger holds_bind[where Q = "\<lambda>_. M"])
  then show "holds api M (read_piece api stmt col) (\<lambda>_. M) M"
    unfolding read_piece_def
    by (intro holds_bind[OF holds_alloc(2)]) (auto split: option.split intro!: odbc_ledger)
qed

lemma neutralL_read_text [odbc_ledger]: "neutralL api stmt (read_text api stmt col out)"
proof -
  have "stmt \<in># M \<longrightarrow> ledger api M s \<longrightarrow> kept api M (fst y) (snd y)"
    if "read_text api stmt col out s = Some y" for M s y
    using that
  proof (rule read_text.raw_induct[rotated], goal_cases)
    case (1 f api stmt col out s y)
    show ?case
    proof (intro impI)
      assume M: "stmt \<in># M" "ledger api M s"
      obtain x t where x: "read_piece api stmt col s = (x, t)" by fastforce
      note t = neutral_read_piece[unfolded neutral_iff, rule_format, OF M x]
      have d: "kept api M (fst (diag api stmt ''SQLGetData'' t :: goval go \<times> _)) (snd (diag api stmt ''SQLGetData'' t :: goval go \<times> _))"
        if "ledger api M t" using neutral_pure(4)[unfolded neutral_iff, rule_format, OF M(1) that surjective_pairing] by blast
      show "kept api M (fst y) (snd y)"
      proof (cases x)
        case (Ok p)
        then obtain rc tx ind where p: "x = Ok (rc, tx, ind)" by (metis surj_pair)
        with t have "ledger api M t" by simp
        moreover have "kept api M (fst y) (snd y)" if "f api stmt col (out @ tx) t = Some y"
          using 1(1)[OF that] M \<open>ledger api M t\<close> by blast
        ultimately show ?thesis using 1(2) x p d by (auto split: if_splits)
      qed (use 1(2) t x in auto)
    qed
  qed
  then show ?thesis by (fastforce simp: neutralL_def)
qed

lemma neutralL_read_column [odbc_ledger]: "neutralL api stmt (read_column api stmt col)"
  unfolding read_column_def by (intro odbc_ledger)

lemma neutralL_read_row [odbc_ledger]: "neutralL api stmt (read_row api stmt k i row)"
proof (induction k arbitrary: i row)
  case (Suc k)
  show ?case unfolding read_row.simps by (intro odbc_ledger Suc.IH)
qed (simp only: read_row.simps odbc_ledger)

lemma neutralL_fetch_loop [odbc_ledger]: "neutralL api stmt (fetch_loop api stmt n rows)"
proof -
  have "stmt \<in># M \<longrightarrow> ledger api M s \<longrightarrow> kept api M (fst y) (snd y)"
    if "fetch_loop api stmt n rows s = Some y" for M s y
    using that
  proof (rule fetch_loop.raw_induct[rotated], goal_cases)
    case (1 f api stmt n rows s y)
    show ?case
    proof (intro impI)
      assume M: "stmt \<in># M" "ledger api M s"
      obtain x t where x: "with_handle stmt (oa_fetch api stmt) s = (x, t)" by fastforce
      have t: "ledger api M t" "\<not> is_panic x" using ledger_on_lib[OF x M] by auto
      have d: "kept api M (fst (diag api stmt ''SQLFetch'' t :: rows go \<times> _))
          (snd (diag api stmt ''SQLFetch'' t :: rows go \<times> _))"
        using neutral_pure(4)[unfolded neutral_iff, rule_format, OF M(1) t(1) surjective_pairing] by blast
      show "kept api M (fst y) (snd y)"
      proof (cases x)
        case (Ok rc)
        show ?thesis
        proof (cases "rc = SQL_NO_DATA \<or> \<not> rc_ok rc")
          case True
          with 1(2) x Ok t d show ?thesis by (auto split: if_splits)
        next
          case False
          with 1(2) x Ok obtain r u where r: "read_row api stmt n 1 [] t = Some (r, u)"
            by (auto simp: bind_eq_Some_conv)
          note u = neutralLD[OF neutralL_read_row M(1) t(1) r]
          with 1(2) x Ok False r show ?thesis
            by (cases r) (auto dest!: 1(1) simp: M)
        qed
      qed (use 1(2) t x in auto)
    qed
  qed
  then show ?thesis by (fastforce simp: neutralL_def)
qed

text \<open>The ledger of the exported operations.\<close>

lemma neutral_ffi_execute [odbc_ledger]: "neutral api dbc (ffi_execute api dbc query params)"
  unfolding ffi_execute_def by (intro neutralI holds_run_statement odbc_ledger)

lemma neutral_ffi_query [odbc_ledger]: "neutralL api dbc (ffi_query api dbc query params)"
  unfolding ffi_query_def by (intro odbc_ledger neutralI holds_run_statement)

lemma neutral_settings [odbc_ledger]: "neutral api dbc (set_autocommit api dbc b)" "neutral api dbc (end_transaction api dbc b)"
  unfolding set_autocommit_def end_transaction_def by (intro odbc_ledger)+

lemma holds_free_all: "holds api (mset hs + M) (free_all api hs) (\<lambda>_. M) M"
  unfolding free_all_def
proof (induction hs)
  case Nil
  show ?case by (simp add: holds_def)
next
  case (Cons h hs)
  show ?case
    unfolding forS.simps
    by (rule holds_bind[where Q = "\<lambda>_. mset hs + M", OF _ Cons.IH])
      (auto intro!: odbc_ledger holds_bind[where Q = "\<lambda>_. mset hs + M"])
qed

lemma holds_open_odbc: "holds api M (open_odbc api cs) (\<lambda>h. add_mset (fst h) (add_mset (snd h) M)) M"
  unfolding open_odbc_def
proof (rule holds_bind[OF holds_alloc(1)], goal_cases)
  case (1 a)
  have "holds api (add_mset env M) (bindS (with_handle env (oa_set_version api env)) (\<lambda>rc.
        if \<not> rc_ok rc then fail_then (diag api env ''SQLSetEnvAttr'') (free_all api [env])
        else bindS (alloc_handle api HDbc) (\<lambda>(dbc, _). case dbc of
          None \<Rightarrow> fail_then (diag api env ''SQLAllocHandle DBC'') (free_all api [env])
        | Some dbc \<Rightarrow>
          bindS c_string (\<lambda>c. defer_call (c_free c) (
            bindS (with_handle dbc (oa_connect api dbc cs (word_of_int (int (length cs))))) (\<lambda>rc.
              if \<not> rc_ok rc then fail_then (diag api dbc ''SQLDriverConnect'') (free_all api [dbc, env])
              else retS (env, dbc))))))) (\<lambda>h. add_mset (fst h) (add_mset (snd h) M)) M" for env
  proof (rule holds_bind[where Q = "\<lambda>_. add_mset env M"], goal_cases)
    case (2 rc)
    have fails: "holds api (add_mset env M) (fail_then (diag api env op) (free_all api [env]))
        (\<lambda>h. add_mset (fst h) (add_mset (snd h) M)) M" for op
      using holds_free_all[of api "[env]" M] by (auto intro!: holds_fail_then[OF holds_diag])
    have conn: "holds api (add_mset dbc (add_mset env M)) (bindS c_string (\<lambda>c. defer_call (c_free c) (
            bindS (with_handle dbc (oa_connect api dbc cs (word_of_int (int (length cs))))) (\<lambda>rc.
              if \<not> rc_ok rc then fail_then (diag api dbc ''SQLDriverConnect'') (free_all api [dbc, env])
              else retS (env, dbc))))) (\<lambda>h. add_mset (fst h) (add_mset (snd h) M)) M" for dbc
    proof (rule holds_bind[OF holds_alloc(3)])
      fix c
      let ?E = "add_mset dbc (add_mset env M)" and ?h = "\<lambda>h. add_mset (fst h) (add_mset (snd h) M)"
      have "holds api (add_mset c ?E) (bindS (with_handle dbc (oa_connect api dbc cs (word_of_int (int (length cs))))) (\<lambda>rc.
              if \<not> rc_ok rc then fail_then (diag api dbc ''SQLDriverConnect'') (free_all api [dbc, env])
              else retS (env, dbc))) (\<lambda>h. ?h h + {#c#}) (M + {#c#})"
        using holds_free_all[of api "[dbc, env]" "M + {#c#}"]
        by (intro holds_bind[where Q = "\<lambda>_. add_mset c ?E"])
          (auto intro!: odbc_ledger holds_fail_then[where F = "add_mset c ?E"] simp: ac_simps add_mset_commute)
      then show "holds api (add_mset c ?E) (defer_call (c_free c) (
            bindS (with_handle dbc (oa_connect api dbc cs (word_of_int (int (length cs))))) (\<lambda>rc.
              if \<not> rc_ok rc then fail_then (diag api dbc ''SQLDriverConnect'') (free_all api [dbc, env])
              else retS (env, dbc)))) ?h M"
        by (rule holds_defer) (auto intro!: odbc_ledger)
    qed
    from fails conn show ?case
      by (cases "rc_ok rc")
        (auto intro!: holds_bind[OF holds_alloc(1)] split: option.split)
  qed (auto intro!: odbc_ledger)
  then show ?case by (cases a) (auto split: option.split intro!: odbc_ledger)
qed

lemma holds_catch_err: "holds api M m (\<lambda>_. N) N \<Longrightarrow> (\<And>a. Q a = N) \<Longrightarrow> holds api M (catch_err m) Q E"
  unfolding holds_def catch_err_def by (fastforce split: go.splits prod.splits)

lemma holds_close_odbc: "holds api (add_mset env (add_mset dbc M)) (close_odbc api env dbc) (\<lambda>_. M) M"
  unfolding close_odbc_def Let_def
proof (rule holds_bind[OF holds_handle[where Q = "\<lambda>_. add_mset env (add_mset dbc M)"]], goal_cases)
  case (3 rc)
  show ?case
  proof (rule holds_bind[where Q = "\<lambda>_. add_mset env (add_mset dbc M)"], goal_cases)
    case 1
    show ?case by (auto intro!: holds_catch_err odbc_ledger)
  next
    case (2 first)
    show ?case
    proof (rule holds_bind[OF holds_free(1)[where Q = "\<lambda>_. add_mset env M"]], goal_cases)
      case (3 rc')
      show ?case
        by (rule holds_bind[OF holds_free(1)[where Q = "\<lambda>_. M"]]) (auto intro!: odbc_ledger split: option.split)
    qed simp_all
  qed
qed simp_all

section \<open>Long texts\<close>

text \<open>What ODBC documents of \<^verbatim>\<open>SQLGetData\<close> on a text, \<open>rest w\<close> being what is still to be read
  in world \<open>w\<close>: it fills the buffer up to its last byte and ends it with a zero byte; it says
  \<^verbatim>\<open>SQL_SUCCESS_WITH_INFO\<close> when there is more.  Buffers are allocated.\<close>

definition gives_text :: "'w odbc_api \<Rightarrow> resource \<Rightarrow> int \<Rightarrow> ('w \<Rightarrow> string) \<Rightarrow> bool" where
  "gives_text api stmt col rest \<longleftrightarrow>
    (\<forall>w. fst (oa_malloc api w) \<and> rest (snd (oa_malloc api w)) = rest w) \<and>
    (\<forall>w. case oa_get_text api stmt col w of ((rc, buf, ind), w') \<Rightarrow>
      rc = (if length (rest w) \<le> 4095 then SQL_SUCCESS else SQL_SUCCESS_WITH_INFO) \<and>
      take 4096 buf = take 4095 (rest w) @ [CHR 0x00] \<and> ind \<noteq> sql_null_data \<and> rest w' = drop 4095 (rest w))"

lemma piece_gives:
  assumes "take 4096 buf = t @ [CHR 0x00]" "length t \<le> 4095" "CHR 0x00 \<notin> set t"
  shows "piece buf = t"
proof -
  have "take 4095 buf = take 4095 (take 4096 buf)" by (simp add: min_def)
  also have "\<dots> = t @ take (4095 - length t) [CHR 0x00]" using assms(1,2) by simp
  finally have "take 4095 buf = t @ take (4095 - length t) [CHR 0x00]" .
  moreover have "\<And>x. x \<in> set t \<Longrightarrow> x \<noteq> CHR 0x00" using assms(3) by blast
  ultimately show ?thesis
    by (cases "4095 - length t") (simp_all add: piece_def takeWhile_append2 takeWhile_eq_all_conv)
qed

lemma read_piece_gives:
  assumes "gives_text api stmt col rest" "CHR 0x00 \<notin> set (rest (ff_world s))"
  shows "\<exists>ind s'. read_piece api stmt col s =
      (Ok (if length (rest (ff_world s)) \<le> 4095 then SQL_SUCCESS else SQL_SUCCESS_WITH_INFO,
          take 4095 (rest (ff_world s)), ind), s') \<and>
    ind \<noteq> sql_null_data \<and> rest (ff_world s') = drop 4095 (rest (ff_world s))"
proof -
  obtain got w1 where g: "oa_malloc api (ff_world s) = (got, w1)" by fastforce
  have "fst (oa_malloc api (ff_world s)) \<and> rest (snd (oa_malloc api (ff_world s))) = rest (ff_world s)"
    using assms(1) unfolding gives_text_def by blast
  with g have m: "oa_malloc api (ff_world s) = (True, w1)" "rest w1 = rest (ff_world s)" by auto
  obtain rc buf ind w2 where g: "oa_get_text api stmt col w1 = ((rc, buf, ind), w2)" by (metis surj_pair)
  have "case oa_get_text api stmt col w1 of ((rc, buf, ind), w') \<Rightarrow>
      rc = (if length (rest w1) \<le> 4095 then SQL_SUCCESS else SQL_SUCCESS_WITH_INFO) \<and>
      take 4096 buf = take 4095 (rest w1) @ [CHR 0x00] \<and> ind \<noteq> sql_null_data \<and> rest w' = drop 4095 (rest w1)"
    using assms(1)[unfolded gives_text_def, THEN conjunct2, THEN spec] .
  with g have l: "rc = (if length (rest w1) \<le> 4095 then SQL_SUCCESS else SQL_SUCCESS_WITH_INFO)"
    "take 4096 buf = take 4095 (rest w1) @ [CHR 0x00]" "ind \<noteq> sql_null_data" "rest w2 = drop 4095 (rest w1)"
    by auto
  have "piece buf = take 4095 (rest w1)"
    using assms(2) m(2) by (intro piece_gives[OF l(2)]) (auto dest: in_set_takeD)
  with m g l show ?thesis
    by (simp add: read_piece_def c_malloc_def with_handle_def on_lib_def c_free_def release_def)
qed

text \<open>A text of any length without zero bytes is read back whole, and reading it ends.\<close>

lemma read_text_gives:
  assumes "gives_text api stmt col rest" "CHR 0x00 \<notin> set (rest (ff_world s))"
  shows "\<exists>s'. read_text api stmt col out s = Some (Ok (GString (out @ rest (ff_world s))), s')"
  using assms(2)
proof (induction "length (rest (ff_world s))" arbitrary: out s rule: less_induct)
  case less
  obtain ind s' where r: "read_piece api stmt col s =
      (Ok (if length (rest (ff_world s)) \<le> 4095 then SQL_SUCCESS else SQL_SUCCESS_WITH_INFO,
          take 4095 (rest (ff_world s)), ind), s')"
    "ind \<noteq> sql_null_data" "rest (ff_world s') = drop 4095 (rest (ff_world s))"
    using read_piece_gives[OF assms(1) less.prems] by blast
  show ?case
  proof (cases "length (rest (ff_world s)) \<le> 4095")
    case True
    with r show ?thesis by (subst read_text.simps) (simp add: rc_ok_def)
  next
    case False
    have "\<exists>s''. read_text api stmt col (out @ take 4095 (rest (ff_world s))) s' =
        Some (Ok (GString ((out @ take 4095 (rest (ff_world s))) @ rest (ff_world s'))), s'')"
      using False r(3) less.prems by (intro less.hyps) (auto dest: in_set_dropD)
    with False r show ?thesis by (subst read_text.simps) (simp add: rc_ok_def)
  qed
qed

text \<open>A text in one piece ends at its first zero byte.\<close>

lemma zero_byte_ends_text:
  assumes "CHR 0x00 \<notin> set a" "length a < 4095"
  shows "piece (a @ CHR 0x00 # b) = a"
proof -
  have "\<And>x. x \<in> set a \<Longrightarrow> x \<noteq> CHR 0x00" using assms(1) by blast
  with assms(2) show ?thesis by (simp add: piece_def takeWhile_append2 take_Cons')
qed

lemma neutral_catch_err [odbc_ledger]: "neutral api h m \<Longrightarrow> neutral api h (catch_err m)"
  by (intro neutralI holds_catch_err) (auto dest: neutralD)

lemma neutral_wrapS [odbc_ledger]:
  assumes "neutral api h m"
  shows "neutral api h (wrapS msg m)"
  unfolding neutral_iff
proof (intro allI impI)
  fix M s r s'
  assume M: "h \<in># M" "ledger api M s" and run: "wrapS msg m s = (r, s')"
  obtain x where x: "m s = (x, s')" "r = wrap_err msg x"
    using run by (auto simp: wrapS_def split: prod.splits)
  with assms[unfolded neutral_iff, rule_format, OF M x(1)] show "kept api M r s'"
    by (cases x) auto
qed

lemma neutral_forS [odbc_ledger]: "(\<And>x. neutral api h (f x)) \<Longrightarrow> neutral api h (forS xs f)"
  by (induction xs) (simp_all only: forS.simps neutral_pure neutral_bind)

text \<open>C21: A text column of any length without zero bytes is read back exactly, piece by piece, and
  reading it ends, over a library that behaves as ODBC documents.\<close>

theorem odbc_text_read_back:
  assumes "gives_text api stmt col rest" "CHR 0x00 \<notin> set (rest (ff_world s))"
  shows "\<exists>s'. read_text api stmt col [] s = Some (Ok (GString (rest (ff_world s))), s')"
  using read_text_gives[OF assms, of "[]"] by simp

text \<open>A library whose world is the rest of the text.\<close>

definition text_api :: "string odbc_api" where
  "text_api = \<lparr>
    oa_alloc = \<lambda>h w. (SQL_SUCCESS, w), oa_free = \<lambda>h w. (SQL_SUCCESS, w), oa_malloc = \<lambda>w. (True, w),
    oa_set_version = \<lambda>h w. (SQL_SUCCESS, w), oa_connect = \<lambda>h cs n w. (SQL_SUCCESS, w),
    oa_disconnect = \<lambda>h w. (SQL_SUCCESS, w), oa_autocommit = \<lambda>h on w. (SQL_SUCCESS, w),
    oa_end_tran = \<lambda>h commit w. (SQL_SUCCESS, w), oa_exec_direct = \<lambda>h q n w. (SQL_SUCCESS, w),
    oa_prepare = \<lambda>h q n w. (SQL_SUCCESS, w), oa_bind = \<lambda>h i b x w. (SQL_SUCCESS, w),
    oa_execute = \<lambda>h w. (SQL_SUCCESS, w), oa_num_cols = \<lambda>h w. ((SQL_SUCCESS, 1), w),
    oa_describe = \<lambda>h i n w. ((SQL_SUCCESS, ''c'', 1, SQL_VARCHAR), w),
    oa_fetch = \<lambda>h w. (SQL_NO_DATA, w), oa_get_int = \<lambda>h i t w. ((SQL_SUCCESS, 7, 8), w),
    oa_get_text = \<lambda>h i w. ((if length w \<le> 4095 then SQL_SUCCESS else SQL_SUCCESS_WITH_INFO,
        take 4095 w @ [CHR 0x00], 0), drop 4095 w),
    oa_diag = \<lambda>h w. ((SQL_SUCCESS, 0), w)\<rparr>"

lemma odbc_text_read_back_witness:
  "\<exists>s'. read_text text_api (HStmt 0) 1 [] \<lparr>ff_world = replicate 5000 CHR ''a'', ff_live = [HStmt 0], ff_lost = [], ff_next = 1, ff_fault = False, ff_over = False\<rparr> =
    Some (Ok (GString (replicate 5000 CHR ''a'')), s')"
proof -
  have "gives_text text_api (HStmt 0) 1 (\<lambda>w. w)"
    by (simp add: gives_text_def text_api_def sql_null_data_def)
  from odbc_text_read_back[OF this, of "\<lparr>ff_world = replicate 5000 CHR ''a'', ff_live = [HStmt 0], ff_lost = [], ff_next = 1, ff_fault = False, ff_over = False\<rparr>"]
  show ?thesis by simp
qed

end
