(* ===== verification/OdbcConn.thy ===== *)
theory OdbcConn
  imports OdbcFfi Closer
begin

text \<open>
  \<^verbatim>\<open>connpool/internal/connection/odbc_conn.go\<close>: the ODBC driver over the binding of
  \<open>OdbcFfi\<close>.  Its mutex makes every call run alone, so a call is one operation on the state.
\<close>

section \<open>The driver\<close>

record 'w odbc_conn =
  oc_ffi :: "'w ffi"
  oc_raw :: "odbc_obj option"
  oc_closed :: bool

text \<open>\<^verbatim>\<open>ctx.Err()\<close> may change its answer from one call to the next.\<close>

type_synonym 'w ctx_err = "'w \<Rightarrow> gerror option \<times> 'w"

definition new_odbc_conn :: "'w ffi \<Rightarrow> odbc_obj \<Rightarrow> 'w odbc_conn" where
  "new_odbc_conn s raw = \<lparr>oc_ffi = s, oc_raw = Some raw, oc_closed = False\<rparr>"

definition on_ffi :: "('w ffi, 'a) goS \<Rightarrow> ('w odbc_conn, 'a) goS" where
  "on_ffi m c = (case m (oc_ffi c) of (r, s) \<Rightarrow> (r, c\<lparr>oc_ffi := s\<rparr>))"

definition check_ctx :: "'w ctx_err \<Rightarrow> ('w ffi, unit) goS" where
  "check_ctx ctx = bindS (on_lib ctx) (\<lambda>e. case e of None \<Rightarrow> retS () | Some e \<Rightarrow> failS e)"

definition arg_sets :: "conn_args \<Rightarrow> rows" where
  "arg_sets arg = (case a_Args arg of None \<Rightarrow> [[]] | Some sets \<Rightarrow> if sets = [] then [[]] else sets)"

text \<open>The statements of one call, and the end of a transaction after them.\<close>

definition odbc_statements :: "'w odbc_api \<Rightarrow> 'w ctx_err \<Rightarrow> resource \<Rightarrow> conn_args \<Rightarrow> ('w ffi, gerror option) goS" where
  "odbc_statements api ctx dbc arg =
    catch_err (forS (arg_sets arg) (\<lambda>params.
      bindS (check_ctx ctx) (\<lambda>_. ffi_execute api dbc (a_Query arg) params)))"

definition odbc_end_tx :: "'w odbc_api \<Rightarrow> resource \<Rightarrow> gerror option \<Rightarrow> ('w ffi, gerror option) goS" where
  "odbc_end_tx api dbc execErr =
    bindS (case execErr of
        Some e \<Rightarrow> bindS (catch_err (end_transaction api dbc False)) (\<lambda>r. case r of
            None \<Rightarrow> retS execErr
          | Some e' \<Rightarrow> retS (Some (EWrap (Some e') ''ODBC rollback failed after execution error: %v'')))
      | None \<Rightarrow> bindS (catch_err (end_transaction api dbc True)) (\<lambda>r.
          retS (map_option (\<lambda>e. EWrap (Some e) ''ODBC commit failed'') r)))
      (\<lambda>execErr. bindS (wrapS ''ODBC restore autocommit failed'' (set_autocommit api dbc True)) (\<lambda>_.
        retS execErr))"

definition odbc_execute_locked :: "'w odbc_api \<Rightarrow> 'w ctx_err \<Rightarrow> resource \<Rightarrow> conn_args \<Rightarrow> ('w ffi, unit) goS" where
  "odbc_execute_locked api ctx dbc arg =
    bindS (wrapS ''ODBC execute canceled'' (check_ctx ctx)) (\<lambda>_.
    bindS (if a_IsTransaction arg then wrapS ''ODBC begin transaction failed'' (set_autocommit api dbc False)
        else retS ()) (\<lambda>_.
    bindS (odbc_statements api ctx dbc arg) (\<lambda>execErr.
    bindS (if a_IsTransaction arg then odbc_end_tx api dbc execErr else retS execErr) (\<lambda>execErr.
      case execErr of Some e \<Rightarrow> failS (EWrap (Some e) ''ODBC execute failed'') | None \<Rightarrow> retS ()))))"

definition odbc_run_execute :: "'w odbc_api \<Rightarrow> 'w ctx_err \<Rightarrow> conn_args option \<Rightarrow> ('w odbc_conn, unit) goS" where
  "odbc_run_execute api ctx arg c =
    (case arg of
      None \<Rightarrow> (Err (bare_err ''ODBC execute arguments are nil''), c)
    | Some arg \<Rightarrow>
        if trim_space (a_Query arg) = [] then (Err (bare_err ''ODBC execute query is empty''), c)
        else if oc_closed c then (Err (bare_err ''ODBC connection is closed''), c)
        else (case oc_raw c of
          None \<Rightarrow> (Err (bare_err ''ODBC connection is closed''), c)
        | Some ob \<Rightarrow> on_ffi (odbc_execute_locked api ctx (ob_dbc ob) arg) c))"

text \<open>The same with an operation that may not return, as a query whose fetching does not end.\<close>

definition wrapL :: "string \<Rightarrow> ('s, 'a) loopS \<Rightarrow> ('s, 'a) loopS" where
  "wrapL msg m s = map_option (\<lambda>(r, s'). (wrap_err msg r, s')) (m s)"

definition on_ffiL :: "('w ffi, 'a) loopS \<Rightarrow> ('w odbc_conn, 'a) loopS" where
  "on_ffiL m c = map_option (\<lambda>(r, s). (r, c\<lparr>oc_ffi := s\<rparr>)) (m (oc_ffi c))"

definition odbc_query_locked ::
    "'w odbc_api \<Rightarrow> 'w ctx_err \<Rightarrow> resource \<Rightarrow> conn_args \<Rightarrow> ('w ffi, rows \<times> string list) loopS" where
  "odbc_query_locked api ctx dbc arg =
    bindL (goL (wrapS ''ODBC query canceled'' (check_ctx ctx))) (\<lambda>_.
      case arg_sets arg of
        [params] \<Rightarrow>
          bindL (wrapL ''ODBC query failed'' (ffi_query api dbc (a_Query arg) params)) (\<lambda>rs.
          bindL (goL (wrapS ''ODBC query canceled after execution'' (check_ctx ctx))) (\<lambda>_. goL (retS rs)))
      | _ \<Rightarrow> goL (failS (bare_err ''ODBC query expects one parameter set, got %d'')))"

definition odbc_run_query ::
    "'w odbc_api \<Rightarrow> 'w ctx_err \<Rightarrow> conn_args option \<Rightarrow> ('w odbc_conn, rows \<times> string list) loopS" where
  "odbc_run_query api ctx arg c =
    (case arg of
      None \<Rightarrow> Some (Err (bare_err ''ODBC query arguments are nil''), c)
    | Some arg \<Rightarrow>
        if trim_space (a_Query arg) = [] then Some (Err (bare_err ''ODBC query is empty''), c)
        else if oc_closed c then Some (Err (bare_err ''ODBC connection is closed''), c)
        else (case oc_raw c of
          None \<Rightarrow> Some (Err (bare_err ''ODBC connection is closed''), c)
        | Some ob \<Rightarrow> on_ffiL (odbc_query_locked api ctx (ob_dbc ob) arg) c))"

definition odbc_close :: "'w odbc_api \<Rightarrow> ('w odbc_conn, unit) goS" where
  "odbc_close api c =
    (if oc_closed c then (Ok (), c)
     else (let c = c\<lparr>oc_closed := True\<rparr> in
       case oc_raw c of
         None \<Rightarrow> (Ok (), c)
       | Some ob \<Rightarrow> (case close_obj api ob (oc_ffi c) of
           ((Panic p, ob'), s) \<Rightarrow> (Panic p, c\<lparr>oc_raw := Some ob', oc_ffi := s\<rparr>)
         | ((r, ob'), s) \<Rightarrow> (wrap_err ''ODBC connection close failed'' r, c\<lparr>oc_raw := None, oc_ffi := s\<rparr>))))"

section \<open>The connection as a closer\<close>

text \<open>A query that does not return gives no error here.\<close>

datatype odbc_use = UseExecute "conn_args option" | UseQuery "conn_args option" | UseClose

fun odbc_call :: "'w odbc_api \<Rightarrow> 'w ctx_err \<Rightarrow> odbc_use \<Rightarrow> ('w odbc_conn, unit) goS" where
  "odbc_call api ctx (UseExecute arg) c = odbc_run_execute api ctx arg c"
| "odbc_call api ctx (UseQuery arg) c = forget (looped (odbc_run_query api ctx arg) c)"
| "odbc_call api ctx UseClose c = odbc_close api c"

interpretation odbc: closable "odbc_call api ctx" UseClose oc_closed for api ctx
proof unfold_locales
  fix c c' u
  show "odbc_call api ctx UseClose c = (Ok (), c') \<Longrightarrow> oc_closed c'"
    by (auto simp: odbc_close_def Let_def split: if_splits option.splits prod.splits go.splits)
  assume "oc_closed c"
  then show "snd (odbc_call api ctx u c) = c" "u \<noteq> UseClose \<Longrightarrow> fst (odbc_call api ctx u c) \<noteq> Ok ()"
    by (cases u; simp add: odbc_run_execute_def odbc_run_query_def looped_def odbc_close_def split: option.split)+
qed

section \<open>Nothing leaks\<close>

text \<open>Any use of a connection: its calls in any order, their errors ignored, until one does not return
  or panics.\<close>

definition ignore_err :: "('s, 'a) loopS \<Rightarrow> ('s, unit) loopS" where
  "ignore_err m s =
    (case m s of
      None \<Rightarrow> None
    | Some (Panic p, s') \<Rightarrow> Some (Panic p, s')
    | Some (_, s') \<Rightarrow> Some (Ok (), s'))"

fun odbc_do :: "'w odbc_api \<Rightarrow> 'w ctx_err \<Rightarrow> odbc_use \<Rightarrow> ('w odbc_conn, unit) loopS" where
  "odbc_do api ctx (UseExecute arg) = ignore_err (goL (odbc_run_execute api ctx arg))"
| "odbc_do api ctx (UseQuery arg) = ignore_err (odbc_run_query api ctx arg)"
| "odbc_do api ctx UseClose = ignore_err (goL (odbc_close api))"

fun forL :: "'x list \<Rightarrow> ('x \<Rightarrow> ('s, unit) loopS) \<Rightarrow> ('s, unit) loopS" where
  "forL [] f = goL (retS ())"
| "forL (x # xs) f = bindL (f x) (\<lambda>_. forL xs f)"

text \<open>A connection from \<^verbatim>\<open>OpenODBC\<close> on, and a last \<^verbatim>\<open>Close\<close>; \<open>None\<close> when one of the calls does
  not return.\<close>

definition odbc_life :: "'w odbc_api \<Rightarrow> 'w ctx_err \<Rightarrow> string \<Rightarrow> odbc_use list \<Rightarrow> ('w ffi, unit) loopS" where
  "odbc_life api ctx cs uses s =
    (case open_odbc api cs s of
      (Ok h, s1) \<Rightarrow>
        map_option (\<lambda>(r, c). (r, oc_ffi c)) (forL (uses @ [UseClose]) (odbc_do api ctx) (new_odbc_conn s1 (new_odbc_obj h)))
    | (Err e, s1) \<Rightarrow> Some (Err e, s1)
    | (Panic p, s1) \<Rightarrow> Some (Panic p, s1))"

definition odbc_owns :: "'w odbc_api \<Rightarrow> resource multiset \<Rightarrow> 'w odbc_conn \<Rightarrow> bool" where
  "odbc_owns api M c \<longleftrightarrow>
    (case oc_raw c of
      None \<Rightarrow> oc_closed c \<and> ledger api M (oc_ffi c)
    | Some ob \<Rightarrow> \<not> oc_closed c \<and> \<not> ob_closed ob \<and> ledger api (add_mset (ob_env ob) (add_mset (ob_dbc ob) M)) (oc_ffi c))"

text \<open>What is so after a call with result \<open>r\<close>.\<close>

definition still_owns :: "'w odbc_api \<Rightarrow> resource multiset \<Rightarrow> 'a go \<Rightarrow> 'w odbc_conn \<Rightarrow> bool" where
  "still_owns api M r c \<longleftrightarrow> (if is_panic r then \<not> nonneg_lengths api else odbc_owns api M c)"

lemma still_owns_simps [simp]:
  "still_owns api M (Ok a) c = odbc_owns api M c" "still_owns api M (Err e) c = odbc_owns api M c"
  "still_owns api M (Panic p) c = (\<not> nonneg_lengths api)"
  by (simp_all add: still_owns_def)

lemma neutral_on_lib: "neutral api h (on_lib m)"
  by (auto simp: neutral_iff on_lib_def ledger_def split: prod.splits)

lemma neutral_check_ctx [odbc_ledger]: "neutral api h (check_ctx ctx)"
  unfolding check_ctx_def by (intro odbc_ledger neutral_on_lib)

lemma neutralL_wrapL [odbc_ledger]:
  assumes "neutralL api h m"
  shows "neutralL api h (wrapL msg m)"
  unfolding neutralL_def
proof (intro allI impI)
  fix M s r s'
  assume M: "h \<in># M" "ledger api M s" and run: "wrapL msg m s = Some (r, s')"
  obtain x where x: "m s = Some (x, s')" "r = wrap_err msg x" using run by (auto simp: wrapL_def)
  from neutralLD[OF assms M x(1)] x(2) show "kept api M r s'" by (cases x) simp_all
qed

lemma neutral_execute_locked: "neutral api dbc (odbc_execute_locked api ctx dbc arg)"
  unfolding odbc_execute_locked_def odbc_statements_def odbc_end_tx_def
  by (intro odbc_ledger)

lemma neutral_query_locked: "neutralL api dbc (odbc_query_locked api ctx dbc arg)"
  unfolding odbc_query_locked_def
  by (intro odbc_ledger) (auto intro!: odbc_ledger split: list.split)

lemma owns_after:
  assumes "odbc_owns api M c" "oc_raw c = Some ob" "kept api (add_mset (ob_env ob) (add_mset (ob_dbc ob) M)) r s"
  shows "still_owns api M r (c\<lparr>oc_ffi := s\<rparr>)"
  using assms by (simp add: odbc_owns_def still_owns_def kept_def)

lemma owned_ledger:
  "odbc_owns api M c \<Longrightarrow> oc_raw c = Some ob \<Longrightarrow> ledger api (add_mset (ob_env ob) (add_mset (ob_dbc ob) M)) (oc_ffi c)"
  by (simp add: odbc_owns_def)

lemma owns_execute:
  assumes "odbc_owns api M c" "odbc_run_execute api ctx arg c = (r, c')"
  shows "still_owns api M r c'"
proof (cases "oc_raw c = None \<or> c' = c \<and> \<not> is_panic r")
  case True
  with assms show ?thesis
    by (auto simp: odbc_run_execute_def on_ffi_def still_owns_def split: option.splits if_splits prod.splits)
next
  case False
  then obtain ob a s where ob: "oc_raw c = Some ob" "c' = c\<lparr>oc_ffi := s\<rparr>"
    "odbc_execute_locked api ctx (ob_dbc ob) a (oc_ffi c) = (r, s)"
    using assms(2) by (auto simp: odbc_run_execute_def on_ffi_def split: option.splits if_splits prod.splits)
  from neutral_execute_locked[unfolded neutral_iff, rule_format, OF _ owned_ledger[OF assms(1) ob(1)] ob(3)]
  show ?thesis unfolding ob(2) by (intro owns_after[OF assms(1) ob(1)]) simp
qed

lemma owns_query:
  assumes "odbc_owns api M c" "odbc_run_query api ctx arg c = Some (r, c')"
  shows "still_owns api M r c'"
proof (cases "oc_raw c = None \<or> c' = c \<and> \<not> is_panic r")
  case True
  with assms show ?thesis
    by (auto simp: odbc_run_query_def on_ffiL_def still_owns_def split: option.splits if_splits prod.splits)
next
  case False
  then obtain ob a s where ob: "oc_raw c = Some ob" "c' = c\<lparr>oc_ffi := s\<rparr>"
    "odbc_query_locked api ctx (ob_dbc ob) a (oc_ffi c) = Some (r, s)"
    using assms(2) by (auto simp: odbc_run_query_def on_ffiL_def split: option.splits if_splits prod.splits)
  from neutralLD[OF neutral_query_locked _ owned_ledger[OF assms(1) ob(1)] ob(3)]
  show ?thesis unfolding ob(2) by (intro owns_after[OF assms(1) ob(1)]) simp
qed

lemma owns_close:
  assumes "odbc_owns api M c" "odbc_close api c = (r, c')"
  shows "still_owns api M r c' \<and> (\<not> is_panic r \<longrightarrow> oc_raw c' = None)"
proof (cases "oc_raw c")
  case None
  with assms show ?thesis by (auto simp: odbc_close_def odbc_owns_def)
next
  case (Some ob)
  with assms(1) have o: "\<not> oc_closed c" "\<not> ob_closed ob"
    "ledger api (add_mset (ob_env ob) (add_mset (ob_dbc ob) M)) (oc_ffi c)"
    by (simp_all add: odbc_owns_def)
  obtain x s where x: "close_odbc api (ob_env ob) (ob_dbc ob) (oc_ffi c) = (x, s)" by fastforce
  note post = holdsD[OF holds_close_odbc o(3) x]
  from assms(2) Some o x post show ?thesis
    by (cases x) (auto simp: odbc_close_def close_obj_def odbc_owns_def)
qed

lemma ignore_err_cases:
  assumes "ignore_err m s = Some (r, s')"
  obtains x where "m s = Some (x, s')" "r = (case x of Panic p \<Rightarrow> Panic p | _ \<Rightarrow> Ok ())"
  using assms by (auto simp: ignore_err_def split: option.splits go.splits)

lemma owns_ignored:
  assumes "ignore_err m c = Some (r, c')"
    and "\<And>x. m c = Some (x, c') \<Longrightarrow> still_owns api M x c' \<and> (closes \<longrightarrow> \<not> is_panic x \<longrightarrow> oc_raw c' = None)"
  shows "still_owns api M r c' \<and> (closes \<longrightarrow> \<not> is_panic r \<longrightarrow> oc_raw c' = None) \<and> (is_panic r \<or> r = Ok ())"
  using assms(1)
proof (cases rule: ignore_err_cases)
  case (1 x)
  with assms(2)[OF 1(1)] show ?thesis by (cases x) simp_all
qed

lemma owns_do:
  assumes "odbc_owns api M c" "odbc_do api ctx u c = Some (r, c')"
  shows "still_owns api M r c' \<and> (u = UseClose \<longrightarrow> \<not> is_panic r \<longrightarrow> oc_raw c' = None) \<and> (is_panic r \<or> r = Ok ())"
proof (cases u)
  case (UseExecute arg)
  with assms show ?thesis by (auto simp: goL_def dest!: owns_execute elim!: ignore_err_cases split: go.splits)
next
  case (UseQuery arg)
  with assms show ?thesis by (auto dest!: owns_query elim!: ignore_err_cases split: go.splits)
next
  case UseClose
  with assms(2) show ?thesis
    by (intro owns_ignored[where m = "goL (odbc_close api)"]) (auto simp: goL_def dest: owns_close[OF assms(1)])
qed

lemma owns_uses:
  assumes "odbc_owns api M c" "forL uses (odbc_do api ctx) c = Some (r, c')"
  shows "still_owns api M r c' \<and> (uses \<noteq> [] \<longrightarrow> last uses = UseClose \<longrightarrow> \<not> is_panic r \<longrightarrow> oc_raw c' = None)"
  using assms
proof (induction uses arbitrary: c)
  case Nil
  then show ?case by (auto simp: goL_def)
next
  case (Cons u us)
  from Cons.prems(2) have "bindL (odbc_do api ctx u) (\<lambda>_. forL us (odbc_do api ctx)) c = Some (r, c')" by simp
  then show ?case
  proof (cases rule: bindL_Some)
    case (ok a t)
    note u = owns_do[OF Cons.prems(1) ok(1)]
    then have "odbc_owns api M t" by simp
    from Cons.IH[OF this ok(2)] u ok(2) show ?thesis by (cases us) (auto simp: goL_def)
  next
    case (err e)
    with owns_do[OF Cons.prems(1) err(1)] show ?thesis by simp
  next
    case (panic p)
    with owns_do[OF Cons.prems(1) panic(1)] show ?thesis by simp
  qed
qed

text \<open>C9: Every handle, C string, bound parameter and buffer that opening, using and closing an
  ODBC connection takes is given back exactly once, and nothing is used that is not held, whatever
  calls are made on the connection, also after its close, and whatever code and value the library
  answers to each call, as long as the lengths it reports are not negative and every fetching ends:
  then no call panics, and what is allocated at the end is what was at the start and the handles that
  \<^verbatim>\<open>SQLFreeHandle\<close> has refused to free.\<close>

theorem odbc_life_releases_all:
  assumes "nonneg_lengths api" "mset (ff_live s) = M" "ff_lost s = []" "\<not> ff_fault s"
    and "odbc_life api ctx cs uses s = Some (r, s')"
  shows "\<not> is_panic r \<and> \<not> ff_fault s' \<and> mset (ff_live s') = M + mset (ff_lost s') \<and>
    (\<forall>h \<in> set (ff_lost s'). refused api h)"
proof (cases "open_odbc api cs s")
  case (Pair x s1)
  have s: "ledger api M s" using assms(2-4) by (simp add: ledger_def)
  note post = holdsD[OF holds_open_odbc s Pair]
  have "\<not> is_panic r \<and> ledger api M s'"
  proof (cases x)
    case (Ok h)
    with post have own: "odbc_owns api M (new_odbc_conn s1 (new_odbc_obj h))"
      by (simp add: odbc_owns_def new_odbc_conn_def new_odbc_obj_def)
    obtain c where c: "forL (uses @ [UseClose]) (odbc_do api ctx) (new_odbc_conn s1 (new_odbc_obj h)) = Some (r, c)"
      "s' = oc_ffi c"
      using assms(5) Pair Ok by (auto simp: odbc_life_def)
    from owns_uses[OF own c(1)] assms(1) c(2) show ?thesis by (auto simp: still_owns_def odbc_owns_def split: if_splits)
  qed (use post assms Pair in \<open>auto simp: odbc_life_def\<close>)
  then show ?thesis by (simp add: ledger_def)
qed

section \<open>Transactions\<close>

text \<open>
  What ODBC documents, for a library over a database: \<open>com w\<close> is what is committed, \<open>pend w\<close> what
  the connection sees, \<open>manual w\<close> that autocommit is off.  In manual mode no statement commits;
  rolling back drops what is pending; turning autocommit on commits what is pending.
\<close>

record ('w, 'd) db_view =
  com :: "'w \<Rightarrow> 'd"
  pend :: "'w \<Rightarrow> 'd"
  manual :: "'w \<Rightarrow> bool"

definition same_db :: "('w, 'd) db_view \<Rightarrow> 'w \<Rightarrow> 'w \<Rightarrow> bool" where
  "same_db v w w' \<longleftrightarrow> com v w' = com v w \<and> pend v w' = pend v w \<and> manual v w' = manual v w"

definition no_commit :: "('w, 'd) db_view \<Rightarrow> ('w \<Rightarrow> 'a \<times> 'w) \<Rightarrow> bool" where
  "no_commit v m \<longleftrightarrow> (\<forall>w. manual v w \<longrightarrow> manual v (snd (m w)) \<and> com v (snd (m w)) = com v w)"

definition tx_api :: "'w odbc_api \<Rightarrow> ('w, 'd) db_view \<Rightarrow> bool" where
  "tx_api api v \<longleftrightarrow>
    (\<forall>h. no_commit v (oa_alloc api h)) \<and> (\<forall>h. no_commit v (oa_free api h)) \<and> no_commit v (oa_malloc api) \<and>
    (\<forall>h q n. no_commit v (oa_exec_direct api h q n)) \<and> (\<forall>h q n. no_commit v (oa_prepare api h q n)) \<and>
    (\<forall>h i b x. no_commit v (oa_bind api h i b x)) \<and> (\<forall>h. no_commit v (oa_execute api h)) \<and>
    (\<forall>h w. same_db v w (snd (oa_diag api h w))) \<and>
    (\<forall>h w. com v (snd (oa_autocommit api h False w)) = com v w \<and>
      (rc_ok (fst (oa_autocommit api h False w)) \<longrightarrow> manual v (snd (oa_autocommit api h False w)))) \<and>
    (\<forall>h w. com v (snd (oa_autocommit api h True w)) =
      (if rc_ok (fst (oa_autocommit api h True w)) then pend v w else com v w)) \<and>
    (\<forall>h w. manual v w \<longrightarrow> com v (snd (oa_end_tran api h False w)) = com v w \<and>
      pend v (snd (oa_end_tran api h False w)) = (if rc_ok (fst (oa_end_tran api h False w)) then com v w else pend v w))"

text \<open>A call in manual mode that leaves the committed database at \<open>d\<close>.\<close>

definition held_at :: "('w, 'd) db_view \<Rightarrow> 'd \<Rightarrow> 'w ffi \<Rightarrow> bool" where
  "held_at v d s \<longleftrightarrow> manual v (ff_world s) \<and> com v (ff_world s) = d"

named_theorems odbc_tx \<open>operations that commit nothing in manual mode\<close>

lemma keepsS_split [odbc_tx]:
  "(b \<Longrightarrow> keepsS I m) \<Longrightarrow> (\<not> b \<Longrightarrow> keepsS I m') \<Longrightarrow> keepsS I (if b then m else m')"
  "(\<And>a b. keepsS I (f a b)) \<Longrightarrow> keepsS I (case p of (a, b) \<Rightarrow> f a b)"
  "keepsS I n \<Longrightarrow> (\<And>a. keepsS I (g a)) \<Longrightarrow> keepsS I (case q of None \<Rightarrow> n | Some a \<Rightarrow> g a)"
  by (simp_all split: prod.split option.split)

lemma keepsS_on_lib [odbc_tx]: "no_commit v m \<Longrightarrow> keepsS (held_at v d) (on_lib m)"
  by (auto simp: keepsS_def held_at_def on_lib_def no_commit_def split: prod.splits)

lemma keepsS_with_handle [odbc_tx]: "no_commit v m \<Longrightarrow> keepsS (held_at v d) (with_handle h m)"
  using keepsS_on_lib[of v m d] by (simp add: keepsS_def with_handle_def held_at_def)

lemma held_at_release [simp]: "held_at v d (release h s) = held_at v d s"
  by (simp add: held_at_def release_def)

lemma held_at_refuse [simp]: "held_at v d (refuse h s) = held_at v d s"
  by (simp add: held_at_def refuse_def)

lemma keepsS_memory [odbc_tx]:
  "keepsS (held_at v d) c_string" "keepsS (held_at v d) (c_free h)" "keepsS (held_at v d) (free_bound b)"
  by (auto simp: keepsS_def held_at_def c_string_def c_free_def free_bound_def release_def)

lemma keepsS_defer [odbc_tx]: "keepsS I m \<Longrightarrow> keepsS I d \<Longrightarrow> keepsS I (defer_call d m)"
  unfolding keepsS_def defer_call_def
  by (auto split: prod.splits go.splits)

lemma keepsS_catch [odbc_tx]: "keepsS I m \<Longrightarrow> keepsS I (catch_err m)"
  unfolding keepsS_def catch_err_def
  by (auto split: prod.splits go.splits)

lemma tx_apiD:
  assumes "tx_api api v"
  shows "no_commit v (oa_alloc api h)" "no_commit v (oa_free api h)" "no_commit v (oa_malloc api)"
    "no_commit v (oa_exec_direct api h q n)" "no_commit v (oa_prepare api h q n)" "no_commit v (oa_bind api h i b x)"
    "no_commit v (oa_execute api h)" "no_commit v (oa_diag api h)" "same_db v w (snd (oa_diag api h w))"
  using assms by (simp_all add: tx_api_def no_commit_def same_db_def)

lemma keepsS_go_string [odbc_tx]: "keepsS (held_at v d) (go_string_n n)"
  by (simp add: keepsS_def go_string_n_def held_at_def)

lemma keepsS_diag [odbc_tx]: "tx_api api v \<Longrightarrow> keepsS (held_at v d) (diag api h op)"
  unfolding diag_def by (intro keepsS_bind odbc_tx tx_apiD keepsS_fail keepsS_lift)

lemma keepsS_handles [odbc_tx]:
  assumes "tx_api api v"
  shows "keepsS (held_at v d) (alloc_handle api mk)" "keepsS (held_at v d) (free_handle api h)"
    "keepsS (held_at v d) (c_malloc api)"
  using tx_apiD(1-3)[OF assms]
  by (auto simp: keepsS_def held_at_def no_commit_def alloc_handle_def free_handle_def c_malloc_def release_def refuse_def Let_def
      split: prod.splits) (metis snd_conv)+

lemma keepsS_fail_then [odbc_tx]: "keepsS I d \<Longrightarrow> keepsS I fr \<Longrightarrow> keepsS I (fail_then d fr)"
  unfolding fail_then_def keepsS_def bindS_def
  by (auto split: prod.splits go.splits)

lemma keepsS_bind_param [odbc_tx]:
  assumes "tx_api api v"
  shows "keepsS (held_at v d) (bind_param api stmt i x)"
proof -
  have "keepsS (held_at v d) (value_memory api x)"
    unfolding value_memory_def
    by (cases x) (auto intro!: keepsS_bind odbc_tx keepsS_ret assms simp del: retS_apply)
  then show ?thesis
    unfolding bind_param_def
    by (intro keepsS_bind odbc_tx keepsS_fail keepsS_ret tx_apiD assms)
qed

lemma held_bind_loop:
  "tx_api api v \<Longrightarrow> held_at v d s \<Longrightarrow> bind_loop api stmt i vs bound s = (r, s') \<Longrightarrow> held_at v d s'"
proof (induction vs arbitrary: i bound s)
  case (Cons x xs)
  obtain y t where y: "bind_param api stmt (i + 1) x s = (y, t)" by fastforce
  have "held_at v d t" by (rule keepsSD[OF keepsS_bind_param[OF Cons.prems(1)] Cons.prems(2) y])
  with y Cons show ?case by (cases y) auto
qed simp

lemma keepsS_with_bound [odbc_tx]:
  assumes "tx_api api v" "keepsS (held_at v d) m"
  shows "keepsS (held_at v d) (with_bound api stmt params m)"
proof (rule keepsSI)
  fix s
  assume s: "held_at v d s"
  obtain x bound t where b: "bind_loop api stmt 0 params [] s = ((x, bound), t)" by (metis surj_pair)
  have "held_at v d t" by (rule held_bind_loop[OF assms(1) s b])
  moreover have "keepsS (held_at v d) (defer_call (forS bound free_bound) (bindS (liftS x) (\<lambda>_. m)))"
    by (intro odbc_tx keepsS_for keepsS_bind keepsS_lift assms)
  ultimately show "held_at v d (snd (with_bound api stmt params m s))"
    using b by (simp add: with_bound_def keepsS_def)
qed

lemma keepsS_execute [odbc_tx]:
  assumes "tx_api api v"
  shows "keepsS (held_at v d) (ffi_execute api dbc q params)"
  unfolding ffi_execute_def run_statement_def new_statement_def
  by (intro keepsS_bind odbc_tx keepsS_fail keepsS_ret tx_apiD assms)

lemma keepsS_statements:
  assumes "tx_api api v" "\<And>w. same_db v w (snd (ctx w))"
  shows "keepsS (held_at v d) (odbc_statements api ctx dbc arg)"
proof -
  have "no_commit v ctx" using assms(2) by (simp add: no_commit_def same_db_def)
  then show ?thesis
    unfolding odbc_statements_def check_ctx_def
    by (intro keepsS_bind odbc_tx keepsS_for keepsS_fail keepsS_ret assms(1))
qed

text \<open>The steps that begin, end and restore.\<close>

lemma same_db_diag: "tx_api api v \<Longrightarrow> diag api h op s = (r, s') \<Longrightarrow> same_db v (ff_world s) (ff_world s')"
  using tx_apiD(9)[of api v "ff_world s" h]
  by (auto simp: diag_def bindS_def with_handle_def on_lib_def go_string_n_def split: prod.splits if_splits)

lemma rc_ok_result:
  assumes "bindS (with_handle h m) (\<lambda>rc. if \<not> rc_ok rc then diag api h op else retS ()) s = (r, s')" "tx_api api v"
  shows "if rc_ok (fst (m (ff_world s))) then r = Ok () \<and> ff_world s' = snd (m (ff_world s))
    else r \<noteq> Ok () \<and> same_db v (snd (m (ff_world s))) (ff_world s')"
proof -
  obtain rc w where m: "m (ff_world s) = (rc, w)" by fastforce
  show ?thesis
  proof (cases "rc_ok rc")
    case True
    with assms(1) m show ?thesis by (auto simp: bindS_def with_handle_def on_lib_def)
  next
    case False
    let ?t = "s\<lparr>ff_fault := (ff_fault s \<or> h \<notin> set (ff_live s)), ff_world := w\<rparr>"
    from False assms(1) m have d: "diag api h op ?t = (r, s')"
      by (simp add: bindS_def with_handle_def on_lib_def)
    moreover have "r \<noteq> Ok ()"
      using d by (auto simp: diag_def bindS_def with_handle_def on_lib_def go_string_n_def split: prod.splits if_splits)
    ultimately show ?thesis
      using False m same_db_diag[OF assms(2) d] by simp
  qed
qed

lemma begin_manual:
  assumes "tx_api api v" "set_autocommit api dbc False s = (r, s')"
  shows "com v (ff_world s') = com v (ff_world s) \<and> (r = Ok () \<longrightarrow> held_at v (com v (ff_world s)) s')"
  using rc_ok_result[OF assms(2)[unfolded set_autocommit_def] assms(1)] assms(1)
  by (auto simp: tx_api_def held_at_def same_db_def split: if_splits)

lemma restore_auto:
  assumes "tx_api api v" "set_autocommit api dbc True s = (r, s')"
  shows "com v (ff_world s') = (if r = Ok () then pend v (ff_world s) else com v (ff_world s))"
  using rc_ok_result[OF assms(2)[unfolded set_autocommit_def] assms(1)] assms(1)
  by (auto simp: tx_api_def same_db_def split: if_splits)

lemma rolled_back:
  assumes "tx_api api v" "end_transaction api dbc False s = (r, s')" "held_at v d s"
  shows "com v (ff_world s') = d \<and> pend v (ff_world s') = (if r = Ok () then d else pend v (ff_world s))"
  using rc_ok_result[OF assms(2)[unfolded end_transaction_def] assms(1)] assms(1,3)
  by (auto simp: tx_api_def same_db_def held_at_def split: if_splits)

text \<open>The errors that say a transaction could not be ended as it should.\<close>

definition odbc_end_failed :: "gerror \<Rightarrow> bool" where
  "odbc_end_failed e =
    (case e of
      EWrap x msg \<Rightarrow> msg = ''ODBC restore autocommit failed'' \<or>
        msg = ''ODBC execute failed'' \<and>
          (case x of Some (EWrap (Some _) msg') \<Rightarrow>
              msg' = ''ODBC rollback failed after execution error: %v'' \<or> msg' = ''ODBC commit failed''
            | _ \<Rightarrow> False)
    | _ \<Rightarrow> False)"

lemma catch_err_cases:
  assumes "catch_err m s = (r, s')"
  obtains (ok) a where "m s = (Ok a, s')" "r = Ok None"
    | (err) e where "m s = (Err e, s')" "r = Ok (Some e)"
    | (panic) p where "m s = (Panic p, s')" "r = Panic p"
  using assms by (auto simp: catch_err_def split: prod.splits go.splits)

lemma restore_last:
  assumes "tx_api api v"
    "bindS (wrapS msg (set_autocommit api dbc True)) (\<lambda>_. retS x) s = (r, s')"
  shows "com v (ff_world s') = (if r = Ok x then pend v (ff_world s) else com v (ff_world s))"
  using assms(2)
proof (cases rule: bindS_cases)
  case (ok a t)
  then show ?thesis using restore_auto[OF assms(1), of dbc s "Ok ()" t] by (auto simp: wrapS_Ok_iff)
next
  case (err e)
  then obtain e' where "set_autocommit api dbc True s = (Err e', s')" by (auto simp: wrapS_Err_iff)
  with err restore_auto[OF assms(1) this] show ?thesis by simp
next
  case (panic p)
  then have "set_autocommit api dbc True s = (Panic p, s')"
    by (auto simp: wrapS_def split: prod.splits)
  with panic restore_auto[OF assms(1) this] show ?thesis by simp
qed

lemma end_tx_after_error:
  assumes v: "tx_api api v" and s: "held_at v d s" and run: "odbc_end_tx api dbc (Some e) s = (r, s')"
  shows "com v (ff_world s') = d \<or>
    (\<exists>e'. r = Ok (Some (EWrap (Some e') ''ODBC rollback failed after execution error: %v'')) \<and>
      com v (ff_world s') = pend v (ff_world s))"
proof -
  let ?restore = "\<lambda>execErr. bindS (wrapS ''ODBC restore autocommit failed'' (set_autocommit api dbc True)) (\<lambda>_. retS execErr)"
  obtain x t where x: "catch_err (end_transaction api dbc False) s = (x, t)" by fastforce
  from x show ?thesis
  proof (cases rule: catch_err_cases)
    case (ok a)
    with run x have "?restore (Some e) t = (r, s')" by (simp add: odbc_end_tx_def bindS_def)
    from restore_last[OF v this] rolled_back[OF v ok(1) s] show ?thesis by simp
  next
    case (err e')
    with run x have "?restore (Some (EWrap (Some e') ''ODBC rollback failed after execution error: %v'')) t = (r, s')"
      by (simp add: odbc_end_tx_def bindS_def)
    from restore_last[OF v this] rolled_back[OF v err(1) s] show ?thesis by auto
  next
    case (panic p)
    with run x rolled_back[OF v panic(1) s] show ?thesis by (simp add: odbc_end_tx_def bindS_def)
  qed
qed

text \<open>After a commit only its own failure or that of the restoration is an error.\<close>

lemma end_tx_after_success:
  assumes "odbc_end_tx api dbc None s = (r, s')"
  shows "(\<exists>e'. r = Ok (Some (EWrap (Some e') ''ODBC commit failed''))) \<or> r = Ok None \<or>
    (\<exists>e'. r = Err (EWrap (Some e') ''ODBC restore autocommit failed'')) \<or> is_panic r"
  using assms
  by (auto simp: odbc_end_tx_def bindS_def catch_err_def wrapS_def wrap_err_Err_iff split: prod.splits go.splits)

lemma check_ctx_com:
  assumes "\<And>w. same_db v w (snd (ctx w))" "wrapS msg (check_ctx ctx) s = (x, t)"
  shows "com v (ff_world t) = com v (ff_world s)"
proof -
  from assms(2) have "ff_world t = snd (ctx (ff_world s))"
    by (auto simp: wrapS_def check_ctx_def bindS_def on_lib_def split: prod.splits option.splits)
  with assms(1)[of "ff_world s"] show ?thesis by (simp add: same_db_def)
qed

text \<open>The statements of a transaction and its end.\<close>

lemma failed_statements_com:
  assumes v: "tx_api api v" and ctx: "\<And>w. same_db v w (snd (ctx w))" and s: "held_at v d s"
    and run: "bindS (odbc_statements api ctx dbc arg) (\<lambda>execErr.
        bindS (odbc_end_tx api dbc execErr) (\<lambda>execErr.
          case execErr of Some e \<Rightarrow> failS (EWrap (Some e) ''ODBC execute failed'') | None \<Rightarrow> retS ())) s = (Err e, s')"
    and e: "\<not> odbc_end_failed e"
  shows "com v (ff_world s') = d"
  using run
proof (cases rule: bindS_cases)
  case (err e')
  then show ?thesis by (auto simp: odbc_statements_def catch_err_def split: prod.splits go.splits)
next
  case c: (ok execErr t)
  have t: "held_at v d t" by (rule keepsSD[OF keepsS_statements[OF v ctx] s c(1)])
  obtain y u where y: "odbc_end_tx api dbc execErr t = (y, u)" by fastforce
  show ?thesis
  proof (cases execErr)
    case None
    with end_tx_after_success[of api dbc t y u] y c(2) e show ?thesis
      by (auto simp: bindS_def odbc_end_failed_def is_panic_iff)
  next
    case (Some f)
    from c(2) y have u: "u = s'" by (auto simp: bindS_def split: go.splits option.splits)
    from end_tx_after_error[OF v t y[unfolded Some]] c(2) y Some e u show ?thesis
      by (auto simp: bindS_def odbc_end_failed_def)
  qed
qed simp

text \<open>C10: A transaction whose call fails leaves the committed database as it was, however many of its
  statements succeeded and wherever the context ended it, unless the error says that the rollback,
  the commit or the restoration of autocommit itself failed.\<close>

theorem odbc_failed_call_commits_nothing:
  assumes v: "tx_api api v" and ctx: "\<And>w. same_db v w (snd (ctx w))" and tx: "a_IsTransaction arg"
    and run: "odbc_execute_locked api ctx dbc arg s = (Err e, s')" and e: "\<not> odbc_end_failed e"
  shows "com v (ff_world s') = com v (ff_world s)"
  using run[unfolded odbc_execute_locked_def]
proof (cases rule: bindS_cases)
  case (err e')
  with check_ctx_com[OF ctx] show ?thesis by blast
next
  case c: (ok a s1)
  note c1 = check_ctx_com[OF ctx c(1)]
  from c(2) tx have "bindS (wrapS ''ODBC begin transaction failed'' (set_autocommit api dbc False)) (\<lambda>_.
      bindS (odbc_statements api ctx dbc arg) (\<lambda>execErr.
      bindS (odbc_end_tx api dbc execErr) (\<lambda>execErr.
        case execErr of Some e \<Rightarrow> failS (EWrap (Some e) ''ODBC execute failed'') | None \<Rightarrow> retS ()))) s1 = (Err e, s')"
    by simp
  then show ?thesis
  proof (cases rule: bindS_cases)
    case (err e')
    then obtain e'' where "set_autocommit api dbc False s1 = (Err e'', s')" by (auto simp: wrapS_Err_iff)
    from begin_manual[OF v this] c1 show ?thesis by simp
  next
    case (ok b s2)
    then have "set_autocommit api dbc False s1 = (Ok (), s2)" by (simp add: wrapS_Ok_iff)
    from begin_manual[OF v this] c1 have "held_at v (com v (ff_world s)) s2" by simp
    from failed_statements_com[OF v ctx this ok(2) e] show ?thesis .
  qed simp
qed simp

text \<open>When a statement of a transaction fails and the rollback after it fails too, restoring
  autocommit commits what the earlier statements did, which the rollback was to undo.\<close>

theorem odbc_failed_rollback_commits:
  assumes v: "tx_api api v" and stmts: "odbc_statements api ctx dbc arg s = (Ok (Some e), s1)"
    and manual: "held_at v d s1"
    and rollback: "end_transaction api dbc False s1 = (Err e1, s2)"
    and restore: "set_autocommit api dbc True s2 = (Ok (), s3)"
  shows "odbc_end_tx api dbc (Some e) s1 = (Ok (Some (EWrap (Some e1) ''ODBC rollback failed after execution error: %v'')), s3) \<and>
    com v (ff_world s3) = pend v (ff_world s1)"
proof -
  have "odbc_end_tx api dbc (Some e) s1 = (Ok (Some (EWrap (Some e1) ''ODBC rollback failed after execution error: %v'')), s3)"
    using rollback restore by (simp add: odbc_end_tx_def bindS_def catch_err_def wrapS_def)
  moreover have "com v (ff_world s3) = pend v (ff_world s1)"
    using restore_auto[OF v restore] rolled_back[OF v rollback manual] by simp
  ultimately show ?thesis ..
qed

section \<open>The theorems at work\<close>

text \<open>A library over a counter: its world is what is committed, what is pending and the mode.  A
  statement adds one, and fails when there is already one pending.\<close>

definition counter_api :: "bool \<Rightarrow> (nat \<times> nat \<times> bool) odbc_api" where
  "counter_api rollback_works = \<lparr>
    oa_alloc = \<lambda>h w. (SQL_SUCCESS, w), oa_free = \<lambda>h w. (SQL_SUCCESS, w), oa_malloc = \<lambda>w. (True, w),
    oa_set_version = \<lambda>h w. (SQL_SUCCESS, w), oa_connect = \<lambda>h cs n w. (SQL_SUCCESS, w),
    oa_disconnect = \<lambda>h w. (SQL_SUCCESS, w),
    oa_autocommit = \<lambda>h on (c, p, m). (SQL_SUCCESS, if on then (p, p, False) else (c, p, True)),
    oa_end_tran = \<lambda>h commit (c, p, m). if commit then (SQL_SUCCESS, (p, p, m))
      else if rollback_works then (SQL_SUCCESS, (c, c, m)) else (SQL_OTHER (- 1), (c, p, m)),
    oa_exec_direct = \<lambda>h q n (c, p, m). if p \<ge> 1 then (SQL_OTHER (- 1), (c, p, m))
      else (SQL_SUCCESS, (if m then c else p + 1, p + 1, m)),
    oa_prepare = \<lambda>h q n w. (SQL_SUCCESS, w), oa_bind = \<lambda>h i b x w. (SQL_SUCCESS, w),
    oa_execute = \<lambda>h w. (SQL_SUCCESS, w), oa_num_cols = \<lambda>h w. ((SQL_SUCCESS, 1), w),
    oa_describe = \<lambda>h i n w. ((SQL_SUCCESS, ''c'', 1, SQL_BIGINT), w),
    oa_fetch = \<lambda>h w. (SQL_NO_DATA, w), oa_get_int = \<lambda>h i t w. ((SQL_SUCCESS, 7, 8), w),
    oa_get_text = \<lambda>h i w. ((SQL_SUCCESS, '''', 0), w), oa_diag = \<lambda>h w. ((SQL_SUCCESS, 0), w)\<rparr>"

definition counter_view :: "(nat \<times> nat \<times> bool, nat) db_view" where
  "counter_view = \<lparr>com = fst, pend = \<lambda>(c, p, m). p, manual = \<lambda>(c, p, m). m\<rparr>"

lemma counter_tx: "tx_api (counter_api b) counter_view"
  by (auto simp: tx_api_def no_commit_def same_db_def counter_api_def counter_view_def rc_ok_def)

definition counter_start :: "(nat \<times> nat \<times> bool) ffi" where
  "counter_start = \<lparr>ff_world = (0, 0, False), ff_live = [HDbc 0], ff_lost = [], ff_next = 1, ff_fault = False, ff_over = False\<rparr>"

definition twice :: conn_args where
  "twice = \<lparr>a_Query = ''q'', a_Args = Some [[], []], a_IsTransaction = True\<rparr>"

lemma odbc_failed_call_commits_nothing_witness:
  "\<exists>e s'. odbc_execute_locked (counter_api True) (Pair None) (HDbc 0) twice counter_start = (Err e, s') \<and>
    com counter_view (ff_world s') = com counter_view (ff_world counter_start)"
proof -
  let ?r = "odbc_execute_locked (counter_api True) (Pair None) (HDbc 0) twice counter_start"
  have "(case fst ?r of Err e \<Rightarrow> \<not> odbc_end_failed e | _ \<Rightarrow> False)" by code_simp
  then obtain e where e: "fst ?r = Err e" "\<not> odbc_end_failed e" by (auto split: go.splits)
  have "com counter_view (ff_world (snd ?r)) = com counter_view (ff_world counter_start)"
    by (rule odbc_failed_call_commits_nothing[OF counter_tx _ _ _ e(2), where ctx = "Pair None" and arg = twice and dbc = "HDbc 0" and s = counter_start])
      (use e(1) in \<open>auto simp: same_db_def twice_def prod_eq_iff\<close>)
  with e show ?thesis by (metis prod.collapse)
qed

lemma odbc_failed_rollback_commits_witness:
  "\<exists>e s1 e1 s3. odbc_statements (counter_api False) (Pair None) (HDbc 0) twice (counter_start\<lparr>ff_world := (0, 0, True)\<rparr>) = (Ok (Some e), s1) \<and>
    odbc_end_tx (counter_api False) (HDbc 0) (Some e) s1 =
      (Ok (Some (EWrap (Some e1) ''ODBC rollback failed after execution error: %v'')), s3) \<and>
    com counter_view (ff_world s3) = pend counter_view (ff_world s1)"
proof -
  let ?s = "counter_start\<lparr>ff_world := (0, 0, True)\<rparr>" and ?api = "counter_api False"
  let ?m = "odbc_statements ?api (Pair None) (HDbc 0) twice ?s"
  let ?r = "end_transaction ?api (HDbc 0) False (snd ?m)"
  let ?a = "set_autocommit ?api (HDbc 0) True (snd ?r)"
  have "(case fst ?m of Ok (Some e) \<Rightarrow> True | _ \<Rightarrow> False)" "(case fst ?r of Err e \<Rightarrow> True | _ \<Rightarrow> False)"
    "(case fst ?a of Ok () \<Rightarrow> True | _ \<Rightarrow> False)"
    by code_simp+
  then obtain e e1 where runs: "?m = (Ok (Some e), snd ?m)" "?r = (Err e1, snd ?r)" "?a = (Ok (), snd ?a)"
    by (auto simp: prod_eq_iff split: go.splits option.splits)
  have s: "held_at counter_view 0 ?s" by (simp add: held_at_def counter_view_def)
  have "held_at counter_view 0 (snd ?m)"
    by (rule keepsSD[OF keepsS_statements[OF counter_tx] s runs(1)]) (simp add: same_db_def)
  from odbc_failed_rollback_commits[OF counter_tx runs(1) this runs(2,3)] runs(1) show ?thesis
    by blast
qed

declare fetch_loop.simps [code] read_text.simps [code]

lemma odbc_life_releases_all_witness:
  "\<exists>r s'. odbc_life (counter_api True) (Pair None) ''dsn''
        [UseExecute (Some twice), UseQuery (Some (twice\<lparr>a_Args := None\<rparr>)), UseClose] (counter_start\<lparr>ff_live := []\<rparr>) = Some (r, s') \<and>
    mset (ff_live s') = mset (ff_lost s')"
proof -
  let ?r = "odbc_life (counter_api True) (Pair None) ''dsn''
        [UseExecute (Some twice), UseQuery (Some (twice\<lparr>a_Args := None\<rparr>)), UseClose] (counter_start\<lparr>ff_live := []\<rparr>)"
  have "?r \<noteq> None" by code_simp
  then obtain r s' where r: "?r = Some (r, s')" by auto
  have "nonneg_lengths (counter_api True)" by (simp add: nonneg_lengths_def counter_api_def)
  from odbc_life_releases_all[OF this _ _ _ r, of "{#}"] r show ?thesis by (simp add: counter_start_def)
qed

end
