(* ===== verification/SqlConn.thy ===== *)
theory SqlConn
  imports Cfg
begin

text \<open>
  \<^verbatim>\<open>connpool/internal/connection/std_sql_conn.go\<close>: the driver over
  \<^verbatim>\<open>database/sql\<close>, which is the record \<open>sql_lib\<close> of the calls it makes; the database they
  change is part of the world \<open>'w\<close>.
\<close>

section \<open>The types of a column\<close>

definition sql_text_types :: "string list" where
  "sql_text_types = [''VARCHAR'', ''TEXT'', ''STRING'', ''VARCHAR'', ''BPCHAR'']"

definition is_type_text :: "string \<Rightarrow> bool" where
  "is_type_text t = list_ex (\<lambda>chk. contains (to_upper t) chk) sql_text_types"

definition is_type_big_int :: "string \<Rightarrow> bool" where
  "is_type_big_int t = (to_upper t \<in> set [''INT8'', ''BIGINT''])"

definition is_type_s_int :: "string \<Rightarrow> bool" where
  "is_type_s_int t = (to_upper t \<in> set [''INT'', ''INT2'', ''INT4'', ''INTEGER''])"

definition is_type_double :: "string \<Rightarrow> bool" where
  "is_type_double t = (to_upper t \<in> set [''DOUBLE'', ''FLOAT'', ''FLOAT4'', ''FLOAT8''])"

definition is_type_bytes :: "string \<Rightarrow> bool" where
  "is_type_bytes t = (to_upper t \<in> set [''BLOB''])"

section \<open>database/sql\<close>

text \<open>
  The result of a query: the columns' type names and names, and what \<^verbatim>\<open>Scan\<close> gives at
  each \<^verbatim>\<open>Next\<close>.  \<^verbatim>\<open>Scan\<close> into a pointer to an \<^verbatim>\<open>any\<close> stores the
  driver's value, whatever the \<^verbatim>\<open>any\<close> held.  \<open>sr_err\<close> is what \<^verbatim>\<open>Rows.Err\<close> would
  report after the last \<^verbatim>\<open>Next\<close>; the driver never asks.
\<close>

record sql_rows =
  sr_columns :: "(string \<times> string) list go"
  sr_scans :: "goval list go list"
  sr_err :: "gerror option"

record ('w, 't) sql_lib =
  sq_begin :: "('w, 't) goS"
  sq_tx_exec :: "'t \<Rightarrow> string \<Rightarrow> goval list \<Rightarrow> ('w, unit) goS"
  sq_commit :: "'t \<Rightarrow> ('w, unit) goS"
  sq_rollback :: "'t \<Rightarrow> ('w, unit) goS"
  sq_exec :: "string \<Rightarrow> goval list \<Rightarrow> ('w, unit) goS"
  sq_query :: "string \<Rightarrow> goval list \<Rightarrow> ('w, sql_rows) goS"
  sq_close :: "('w, unit) goS"

text \<open>The statements of one call: one per parameter row, or one without parameters.\<close>

definition run_statements :: "(goval list \<Rightarrow> ('w, unit) goS) \<Rightarrow> string \<Rightarrow> string \<Rightarrow> rows option \<Rightarrow> ('w, unit) goS" where
  "run_statements exec msg msg_no_args args =
    (case args of
      Some params \<Rightarrow> forS params (\<lambda>param. wrapS msg (exec param))
    | None \<Rightarrow> wrapS msg_no_args (exec []))"

text \<open>A deferred call: its own error is dropped, its panic replaces the result.\<close>

definition deferred :: "('w, unit) goS \<Rightarrow> 'a go \<Rightarrow> ('w, 'a) goS" where
  "deferred m r w = (case m w of (Panic p, w') \<Rightarrow> (Panic p, w') | (_, w') \<Rightarrow> (r, w'))"

text \<open>\<^verbatim>\<open>isNotErr\<close> is cleared only where an error is returned: a panic in a statement
  commits too.\<close>

definition std_run_execute :: "('w, 't) sql_lib \<Rightarrow> conn_args \<Rightarrow> ('w, unit) goS" where
  "std_run_execute lib arg =
    (if \<not> a_IsTransaction arg then
      bindS (wrapS ''exec tx failed, query:%s'' (sq_begin lib)) (\<lambda>tx w.
        case run_statements (sq_tx_exec lib tx (a_Query arg)) ''exec sql failed query:%s''
            ''exec sql(no args) failed, query:%s'' (a_Args arg) w of
          (Err e, w') \<Rightarrow> deferred (sq_rollback lib tx) (Err e) w'
        | (r, w') \<Rightarrow> deferred (sq_commit lib tx) r w')
     else run_statements (sq_exec lib (a_Query arg)) ''exec sql failed, query:%s''
       ''exec sql(no args) failed, query:%s'' (a_Args arg))"

text \<open>The loop over the column types; the zero values it stores are overwritten by the scan.\<close>

fun check_types :: "(string \<times> string) list \<Rightarrow> unit go" where
  "check_types [] = Ok ()"
| "check_types (col # cols) =
    (let dType = fst col in
     if is_type_double dType then check_types cols
     else if is_type_s_int dType then check_types cols
     else if is_type_big_int dType then check_types cols
     else if is_type_text dType then check_types cols
     else if is_type_bytes dType then check_types cols
     else Err (bare_err ''not support type,type:%s''))"

fun scan_rows ::
    "(string \<times> string) list \<Rightarrow> goval list go list \<Rightarrow> rows \<Rightarrow> string list \<Rightarrow> (rows \<times> string list) go" where
  "scan_rows cols [] ret name = Ok (ret, name)"
| "scan_rows cols (sc # scs) ret name =
    bind_go (check_types cols) (\<lambda>_.
    bind_go (wrap_err ''exec sql scan failed,'' sc) (\<lambda>row.
      scan_rows cols scs (ret @ [row]) (map snd cols)))"

definition std_run_query :: "('w, 't) sql_lib \<Rightarrow> conn_args \<Rightarrow> ('w, rows \<times> string list) goS" where
  "std_run_query lib arg =
    (if a_IsTransaction arg then failS (bare_err ''exec sql transcation not support'')
     else bindS (case a_Args arg of
          Some (param # params) \<Rightarrow> wrapS ''exec sql query failed'' (sq_query lib (a_Query arg) param)
        | _ \<Rightarrow> wrapS ''exec sql(no args) query failed'' (sq_query lib (a_Query arg) []))
       (\<lambda>r. bindS (liftS (wrap_err ''can't get column type'' (sr_columns r))) (\<lambda>cType.
         liftS (scan_rows cType (sr_scans r) [] []))))"

definition std_close :: "('w, 't) sql_lib \<Rightarrow> ('w, unit) goS" where
  "std_close lib = sq_close lib"

section \<open>What is atomic\<close>

text \<open>The states a transaction can reach by its statements, whether they succeed or not.\<close>

inductive tx_runs :: "('w, 't) sql_lib \<Rightarrow> 't \<Rightarrow> 'w \<Rightarrow> 'w \<Rightarrow> bool" for lib tx w0 where
  tx_runs_start: "tx_runs lib tx w0 w0"
| tx_runs_step: "tx_runs lib tx w0 w \<Longrightarrow> sq_tx_exec lib tx q p w = (r, w') \<Longrightarrow> tx_runs lib tx w0 w'"

text \<open>What \<^verbatim>\<open>database/sql\<close> documents of \<^verbatim>\<open>Rollback\<close>, for the part \<open>db\<close> of the
  world that is the database: after it the database is what it was at the beginning, also when the
  transaction could not begin.\<close>

definition rolls_back :: "('w, 't) sql_lib \<Rightarrow> ('w \<Rightarrow> 'd) \<Rightarrow> bool" where
  "rolls_back lib db \<longleftrightarrow>
    (\<forall>w tx w1 w2. sq_begin lib w = (Ok tx, w1) \<longrightarrow> tx_runs lib tx w1 w2 \<longrightarrow>
      db (snd (sq_rollback lib tx w2)) = db w) \<and>
    (\<forall>w e w1. sq_begin lib w = (Err e, w1) \<longrightarrow> db w1 = db w)"

lemma tx_runs_trans: "tx_runs lib tx w1 w2 \<Longrightarrow> tx_runs lib tx w0 w1 \<Longrightarrow> tx_runs lib tx w0 w2"
  by (induction rule: tx_runs.induct) (auto intro: tx_runs_step)

lemma tx_statement: "wrapS msg (sq_tx_exec lib tx q p) w = (r, w') \<Longrightarrow> tx_runs lib tx w w'"
  by (drule wrapS_result) (auto intro: tx_runs_step tx_runs_start)

lemma tx_loop: "forS ps (\<lambda>p. wrapS msg (sq_tx_exec lib tx q p)) w = (r, w') \<Longrightarrow> tx_runs lib tx w w'"
  by (induction ps arbitrary: w) (auto elim!: bindS_cases intro: tx_runs_start tx_statement tx_runs_trans)

lemma statements_reach:
  "run_statements (sq_tx_exec lib tx q) msg msg' args w = (r, w') \<Longrightarrow> tx_runs lib tx w w'"
  by (auto simp: run_statements_def intro: tx_loop tx_statement split: option.splits)

lemma deferred_result:
  "deferred m r w = (r', w') \<Longrightarrow> w' = snd (m w) \<and> (r' = r \<or> (\<exists>p. r' = Panic p))"
  by (auto simp: deferred_def split: prod.splits go.splits)

lemma std_execute_failed:
  assumes "rolls_back lib db" "std_run_execute lib arg w = (Err e, w')" "\<not> a_IsTransaction arg"
  shows "db w' = db w"
proof -
  from assms(2,3) show "db w' = db w"
  proof (simp add: std_run_execute_def, elim bindS_cases)
    fix tx w1
    assume b: "wrapS ''exec tx failed, query:%s'' (sq_begin lib) w = (Ok tx, w1)"
    then have b': "sq_begin lib w = (Ok tx, w1)" by (simp add: wrapS_Ok_iff)
    assume run: "(case run_statements (sq_tx_exec lib tx (a_Query arg)) ''exec sql failed query:%s''
            ''exec sql(no args) failed, query:%s'' (a_Args arg) w1 of
          (Err e, w') \<Rightarrow> deferred (sq_rollback lib tx) (Err e) w'
        | (r, w') \<Rightarrow> deferred (sq_commit lib tx) r w') = (Err e, w')"
    obtain r w2 where s: "run_statements (sq_tx_exec lib tx (a_Query arg)) ''exec sql failed query:%s''
            ''exec sql(no args) failed, query:%s'' (a_Args arg) w1 = (r, w2)" by fastforce
    from run s have "w' = snd (sq_rollback lib tx w2)"
      by (cases r) (auto dest!: deferred_result)
    with assms(1) b' statements_reach[OF s] show "db w' = db w" by (auto simp: rolls_back_def)
  qed (use assms(1) in \<open>auto simp: rolls_back_def wrapS_Err_iff\<close>)
qed

text \<open>The flag of a statement is inverted.  Without it, a call that fails leaves the database as it
  was, whichever row of parameters failed; with it, the statements of the rows before the failing
  one have been executed one by one and stay.\<close>

theorem std_execute_atomic:
  assumes "rolls_back lib db" "std_run_execute lib arg w = (Err e, w')"
  shows "(\<not> a_IsTransaction arg \<longrightarrow> db w' = db w) \<and>
    (a_IsTransaction arg \<longrightarrow> (\<forall>params. a_Args arg = Some params \<longrightarrow>
      (\<exists>done p rest w1 e'. params = done @ p # rest \<and>
        forS done (\<lambda>p. wrapS ''exec sql failed, query:%s'' (sq_exec lib (a_Query arg) p)) w = (Ok (), w1) \<and>
        sq_exec lib (a_Query arg) p w1 = (Err e', w'))))"
proof (intro conjI impI allI)
  assume "\<not> a_IsTransaction arg"
  then show "db w' = db w" by (rule std_execute_failed[OF assms])
next
  fix params
  assume "a_IsTransaction arg" "a_Args arg = Some params"
  with assms(2) have "forS params (\<lambda>p. wrapS ''exec sql failed, query:%s'' (sq_exec lib (a_Query arg) p)) w = (Err e, w')"
    by (simp add: std_run_execute_def run_statements_def)
  from forS_first_Err[OF this]
  show "\<exists>done p rest w1 e'. params = done @ p # rest \<and>
        forS done (\<lambda>p. wrapS ''exec sql failed, query:%s'' (sq_exec lib (a_Query arg) p)) w = (Ok (), w1) \<and>
        sq_exec lib (a_Query arg) p w1 = (Err e', w')"
    by (simp add: wrapS_Err_iff) blast
qed

text \<open>A database that keeps what was executed: the committed rows and those of the transaction.  A
  row without cells is refused.\<close>

definition probe_sql :: "(goval list list \<times> goval list list, unit) sql_lib" where
  "probe_sql = \<lparr>
    sq_begin = (\<lambda>(c, t). (Ok (), (c, c))),
    sq_tx_exec = (\<lambda>_ q p (c, t). if p = [] then (Err (ESys ''empty''), (c, t)) else (Ok (), (c, t @ [p]))),
    sq_commit = (\<lambda>_ (c, t). (Ok (), (t, t))),
    sq_rollback = (\<lambda>_ (c, t). (Ok (), (c, c))),
    sq_exec = (\<lambda>q p (c, t). if p = [] then (Err (ESys ''empty''), (c, t)) else (Ok (), (c @ [p], t))),
    sq_query = (\<lambda>q p w. (Ok \<lparr>sr_columns = Ok [(''int4'', ''a'')], sr_scans = map Ok (fst w), sr_err = None\<rparr>, w)),
    sq_close = (\<lambda>w. (Ok (), w))\<rparr>"

lemma probe_sql_rolls_back: "rolls_back probe_sql fst"
proof -
  have "fst w2 = fst w1" if "tx_runs probe_sql tx w1 w2" for tx w1 w2
    using that by (induction rule: tx_runs.induct) (auto simp: probe_sql_def split: if_splits prod.splits)
  then show ?thesis
    by (auto simp: rolls_back_def probe_sql_def[THEN arg_cong[where f = sq_begin]]
        probe_sql_def[THEN arg_cong[where f = sq_rollback]] split: prod.splits)
qed

definition two_rows :: "bool \<Rightarrow> conn_args" where
  "two_rows t = \<lparr>a_Query = ''insert'', a_Args = Some [[GBool True], []], a_IsTransaction = t\<rparr>"

lemma std_execute_atomic_witness:
  "fst (snd (std_run_execute probe_sql (two_rows False) ([], []))) = [] \<and>
    fst (snd (std_run_execute probe_sql (two_rows True) ([], []))) = [[GBool True]]"
proof -
  obtain e w' where r: "std_run_execute probe_sql (two_rows False) ([], []) = (Err e, w')"
    by (simp add: std_run_execute_def probe_sql_def two_rows_def run_statements_def deferred_def bindS_def wrapS_def)
  have "fst w' = []"
    using std_execute_atomic[OF probe_sql_rolls_back r] by (simp add: two_rows_def)
  moreover have "fst (snd (std_run_execute probe_sql (two_rows True) ([], []))) = [[GBool True]]"
    by (simp add: std_run_execute_def probe_sql_def two_rows_def run_statements_def bindS_def wrapS_def)
  ultimately show ?thesis using r by simp
qed

section \<open>What is reported\<close>

text \<open>Whether the transaction could be committed (or rolled back) is never reported: any two
  connections that differ only in that give the same result, as long as neither call panics.\<close>

theorem std_execute_hides_commit:
  assumes "\<And>tx w. \<not> is_panic (fst (sq_commit lib tx w))" "\<And>tx w. \<not> is_panic (fst (sq_rollback lib tx w))"
    and "\<And>tx w. \<not> is_panic (fst (c tx w))" "\<And>tx w. \<not> is_panic (fst (r tx w))"
  shows "fst (std_run_execute (lib\<lparr>sq_commit := c, sq_rollback := r\<rparr>) arg w) = fst (std_run_execute lib arg w)"
proof (cases "a_IsTransaction arg")
  case False
  have d: "fst (deferred m x w) = x" if "\<And>w. \<not> is_panic (fst (m w))" for m x w
    using that[of w] by (auto simp: deferred_def split: prod.splits go.splits)
  obtain b w1 where "sq_begin lib w = (b, w1)" by fastforce
  then show ?thesis
    using False by (cases b)
      (simp_all add: std_run_execute_def bindS_def wrapS_def d assms split: prod.split go.split)
qed (simp add: std_run_execute_def)

lemma std_execute_hides_commit_witness:
  "fst (std_run_execute (probe_sql\<lparr>sq_commit := (\<lambda>_ w. (Err (ESys ''lost''), w)), sq_rollback := (\<lambda>_ w. (Ok (), w))\<rparr>)
      \<lparr>a_Query = ''insert'', a_Args = Some [[GBool True]], a_IsTransaction = False\<rparr> ([], [])) = Ok ()"
proof -
  have "fst (std_run_execute (probe_sql\<lparr>sq_commit := (\<lambda>_ w. (Err (ESys ''lost''), w)), sq_rollback := (\<lambda>_ w. (Ok (), w))\<rparr>)
      \<lparr>a_Query = ''insert'', a_Args = Some [[GBool True]], a_IsTransaction = False\<rparr> ([], [])) =
    fst (std_run_execute probe_sql \<lparr>a_Query = ''insert'', a_Args = Some [[GBool True]], a_IsTransaction = False\<rparr> ([], []))"
    by (rule std_execute_hides_commit) (auto simp: probe_sql_def)
  then show ?thesis
    by (simp add: std_run_execute_def probe_sql_def run_statements_def deferred_def bindS_def wrapS_def)
qed

section \<open>Queries\<close>

definition supported :: "string \<Rightarrow> bool" where
  "supported t \<longleftrightarrow> is_type_double t \<or> is_type_s_int t \<or> is_type_big_int t \<or> is_type_text t \<or> is_type_bytes t"

lemma check_types_eq:
  "check_types cols = (if \<forall>c \<in> set cols. supported (fst c) then Ok () else Err (bare_err ''not support type,type:%s''))"
  by (induction cols) (auto simp: supported_def Let_def)

lemma scan_rows_Ok:
  "\<forall>c \<in> set cols. supported (fst c) \<Longrightarrow>
    scan_rows cols (map Ok rs) ret name = Ok (ret @ rs, if rs = [] then name else map snd cols)"
  by (induction rs arbitrary: ret name) (simp_all add: check_types_eq)

text \<open>A query returns the rows of the result in order, with the names of its columns, provided
  every column has a supported type; with another type it fails, but only when there is a row; an
  empty result has no column names; and what ends the rows early is not asked for.\<close>

theorem std_query_spec:
  assumes "\<not> a_IsTransaction arg"
    and "sq_query lib (a_Query arg) (case a_Args arg of Some (p # ps) \<Rightarrow> p | _ \<Rightarrow> []) w =
      (Ok \<lparr>sr_columns = Ok cols, sr_scans = map Ok rs, sr_err = e\<rparr>, w')"
  shows "std_run_query lib arg w =
    (if rs = [] then Ok ([], [])
     else if \<forall>c \<in> set cols. supported (fst c) then Ok (rs, map snd cols)
     else Err (bare_err ''not support type,type:%s''), w')"
proof -
  have "std_run_query lib arg w = (scan_rows cols (map Ok rs) [] [], w')"
    using assms by (auto simp: std_run_query_def bindS_def wrapS_def split: option.splits list.splits)
  moreover have "scan_rows cols (map Ok rs) [] [] = Err (bare_err ''not support type,type:%s'')"
    if "\<not> (\<forall>c \<in> set cols. supported (fst c))" "rs \<noteq> []"
    using that by (cases rs) (auto simp: check_types_eq)
  ultimately show ?thesis using scan_rows_Ok[of cols rs "[]" "[]"] by auto
qed

lemma std_query_spec_witness:
  "std_run_query probe_sql \<lparr>a_Query = ''q'', a_Args = None, a_IsTransaction = False\<rparr> ([[GInt 1], [GInt 2]], []) =
    (Ok ([[GInt 1], [GInt 2]], [''a'']), ([[GInt 1], [GInt 2]], []))"
proof -
  let ?arg = "\<lparr>a_Query = ''q'', a_Args = None, a_IsTransaction = False\<rparr>"
  have q: "sq_query probe_sql (a_Query ?arg) (case a_Args ?arg of Some (p # ps) \<Rightarrow> p | _ \<Rightarrow> []) ([[GInt 1], [GInt 2]], []) =
      (Ok \<lparr>sr_columns = Ok [(''int4'', ''a'')], sr_scans = map Ok [[GInt 1], [GInt 2]], sr_err = None\<rparr>, ([[GInt 1], [GInt 2]], []))"
    by (simp add: probe_sql_def)
  have "supported ''int4''" by code_simp
  with std_query_spec[OF _ q] show ?thesis by simp
qed

end
