(* ===== verification/Generators.thy ===== *)
theory Generators
  imports ConnPool Shutils Syncd
begin

text \<open>
  \<^verbatim>\<open>connpool/internal/gen\<close> and \<^verbatim>\<open>connpool/internal/utils/std_sql.go\<close>: from a
  connection's configuration to a function that makes connections.  The client libraries and the
  constructors of the drivers are the record \<open>client_libs\<close>.
\<close>

section \<open>Options\<close>

text \<open>\<^verbatim>\<open>info.OptionMap[key]\<close> with its check, and the type assertions.\<close>

definition gen_option :: "conn_config \<Rightarrow> string \<Rightarrow> string \<Rightarrow> goval go" where
  "gen_option info key msg =
    (case map_of (cc_OptionMap info) key of None \<Rightarrow> Err (sentinel_err NotExistsError msg) | Some v \<Rightarrow> Ok v)"

fun assert_string :: "goval \<Rightarrow> string go" where
  "assert_string (GString s) = Ok s"
| "assert_string v = Panic PTypeAssert"

fun assert_bool :: "goval \<Rightarrow> bool go" where
  "assert_bool (GBool b) = Ok b"
| "assert_bool v = Panic PTypeAssert"

section \<open>Local processes and SSH\<close>

record local_options =
  lo_interactive :: bool
  lo_proc :: string
  lo_outputSplitChar :: string
  lo_outputNewlineChar :: string
  lo_inputNextLineChar :: string
  lo_inputDivisionChar :: string
  lo_inputEndChar :: string
  lo_outputEndChar :: string
  lo_args :: "string list"

definition local_args :: "conn_config \<Rightarrow> string list go" where
  "local_args info =
    (case map_of (cc_OptionMap info) ''args'' of
      None \<Rightarrow> Ok []
    | Some (GString s) \<Rightarrow> Ok (split_respect_quotes_str s)
    | Some _ \<Rightarrow> Err (sentinel_err ParseError ''args convert failed %v''))"

definition new_local_generator :: "conn_config \<Rightarrow> local_options go" where
  "new_local_generator info =
    bind_go (gen_option info ''interactive'' ''interactive not exists'') (\<lambda>interactive.
    bind_go (gen_option info ''output.splitchar'' ''output.splitchar not exists'') (\<lambda>osplit.
    bind_go (gen_option info ''output.newline'' ''output.newline not exists'') (\<lambda>onewline.
    bind_go (gen_option info ''output.endchar'' ''input.endchar not exists'') (\<lambda>oend.
    bind_go (gen_option info ''input.nextline'' ''input.nextline not exists'') (\<lambda>inext.
    bind_go (gen_option info ''input.division'' ''input.division not exists'') (\<lambda>idiv.
    bind_go (gen_option info ''input.endchar'' ''input.endchar not exists'') (\<lambda>iend.
    bind_go (local_args info) (\<lambda>args.
    bind_go (assert_bool interactive) (\<lambda>interactive.
    bind_go (assert_string osplit) (\<lambda>osplit.
    bind_go (assert_string onewline) (\<lambda>onewline.
    bind_go (assert_string inext) (\<lambda>inext.
    bind_go (assert_string idiv) (\<lambda>idiv.
    bind_go (assert_string iend) (\<lambda>iend.
    bind_go (assert_string oend) (\<lambda>oend.
      Ok \<lparr>lo_interactive = interactive, lo_proc = cc_Name info, lo_outputSplitChar = osplit,
          lo_outputNewlineChar = onewline, lo_inputNextLineChar = inext, lo_inputDivisionChar = idiv,
          lo_inputEndChar = iend, lo_outputEndChar = oend, lo_args = args\<rparr>)))))))))))))))"

text \<open>The two separators are swapped in the source.\<close>

record ssh_options =
  sho_newlineChar :: string
  sho_splitChar :: string

definition new_ssh_generator :: "conn_config \<Rightarrow> ssh_options go" where
  "new_ssh_generator info =
    bind_go (gen_option info ''output.splitchar'' ''output.splitchar not exists'') (\<lambda>osplit.
    bind_go (gen_option info ''output.newline'' ''output.newline not exists'') (\<lambda>onewline.
    bind_go (assert_string osplit) (\<lambda>osplit.
    bind_go (assert_string onewline) (\<lambda>onewline.
      Ok \<lparr>sho_newlineChar = osplit, sho_splitChar = onewline\<rparr>))))"

section \<open>Redis, Cassandra, ODBC\<close>

record redis_options =
  ro_addr :: string
  ro_user :: string
  ro_password :: string
  ro_db :: int

definition new_redis_generator :: "conn_config \<Rightarrow> redis_options go" where
  "new_redis_generator info =
    (case atoi (cc_Name info) of
      Ok db \<Rightarrow> Ok \<lparr>ro_addr = cc_Server info, ro_user = cc_Id info, ro_password = cc_Password info, ro_db = db\<rparr>
    | _ \<Rightarrow> Err (sentinel_err ParseError ''db is not number : %s''))"

record cassandra_options =
  ca_hosts :: "string list"
  ca_port :: int
  ca_user :: string
  ca_password :: string
  ca_keyspace :: string
  ca_numConns :: int

definition new_cassandra_generator :: "conn_config \<Rightarrow> cassandra_options go" where
  "new_cassandra_generator info =
    (let hosts = go_split (cc_Server info) '','';
         port = go_split (cc_Server info) '':'' in
     if length hosts \<le> 0 \<or> length port < 2 then Err (bare_err ''address check : %s'')
     else bind_go (wrap_err ''port convert failed : %s'' (atoi (port ! 1))) (\<lambda>portNum.
       Ok \<lparr>ca_hosts = hosts, ca_port = portNum, ca_user = cc_Id info, ca_password = cc_Password info,
           ca_keyspace = cc_Name info, ca_numConns = cc_MaxConn info\<rparr>))"

definition odbc_dsn :: "conn_config \<Rightarrow> string go" where
  "odbc_dsn info =
    bind_go (gen_option info ''dsn'' ''not exists dsn'') (\<lambda>dsnBox.
      case dsnBox of
        GString dsn \<Rightarrow> Ok dsn
      | GNil \<Rightarrow> Panic (PExplicit ''reflect.Value.Type'')
      | _ \<Rightarrow> Err (sentinel_err ParseError ''parsing failed dsn : %s''))"

section \<open>database/sql\<close>

definition get_conn_url_and_driver :: "conn_config \<Rightarrow> (string \<times> string) go" where
  "get_conn_url_and_driver c =
    (if cc_DBType c = pool_type_text SQLITE then Ok (''sqlite3'', cc_Name c)
     else if cc_DBType c = pool_type_text MYSQL then
       Ok (''mysql'', cc_Id c @ '':'' @ cc_Password c @ ''@tcp('' @ cc_Server c @ '')/'' @ cc_Name c)
     else if cc_DBType c = pool_type_text POSTGRES then
       Ok (''postgres'', ''postgres://'' @ cc_Id c @ '':'' @ cc_Password c @ ''@'' @ cc_Server c @ ''/'' @ cc_Name c @
         ''?application_name='' @ ''oncecall'' @ ''&sslmode=disable'')
     else if cc_DBType c = pool_type_text SQLSVR then
       Ok (''mssql'', ''server='' @ cc_Server c @ '';user id='' @ cc_Id c @ '';password='' @ cc_Password c @
         '';database='' @ cc_Name c @ ''; encrypt=disable; app name='' @ ''oncecall'')
     else if cc_DBType c = pool_type_text SAPHANA then
       Ok (''hdb'', ''hdb://'' @ cc_Id c @ '':'' @ cc_Password c @ ''@'' @ cc_Server c)
     else Err (sentinel_err NotMatchingError ''not supported driver %s''))"

text \<open>The names the imported drivers register.\<close>

definition registered_drivers :: "string list" where
  "registered_drivers = [''mysql'', ''postgres'', ''sqlite3'', ''mssql'', ''sqlserver'', ''oracle'']"

section \<open>The generators\<close>

record ('w, 'c, 'd) client_libs =
  cl_redis :: "redis_options \<Rightarrow> ('w, 'c) goS"
  cl_local :: "local_options \<Rightarrow> ('w, 'c) goS"
  cl_kafka :: "string \<Rightarrow> string \<Rightarrow> ('w, 'c) goS"
  cl_cassandra :: "cassandra_options \<Rightarrow> ('w, 'c) goS"
  cl_odbc :: "string \<Rightarrow> ('w, 'c) goS"
  cl_sql_open :: "string \<Rightarrow> string \<Rightarrow> 'd go"
  cl_sql_conn :: "'d \<Rightarrow> int \<Rightarrow> ('w, 'c) goS"

definition new_std_generator :: "('w, 'c, 'd) client_libs \<Rightarrow> conn_config \<Rightarrow> ('w, 'c) goS go" where
  "new_std_generator libs info =
    bind_go (wrap_err ''driver not exists, name:%s'' (get_conn_url_and_driver info)) (\<lambda>(driver, url).
    bind_go (wrap_err ''driver open failed, name:%s'' (cl_sql_open libs driver url)) (\<lambda>db.
      Ok (wrapS ''get conn err, server(%s):name(%s)'' (cl_sql_conn libs db (cc_MaxConn info)))))"

text \<open>The methods \<^verbatim>\<open>Gen\<close> of the others.  The SSH client of its generator is never
  assigned; a method of the nil client is a nil dereference.\<close>

definition redis_gen :: "('w, 'c, 'd) client_libs \<Rightarrow> redis_options \<Rightarrow> ('w, 'c) goS" where
  "redis_gen libs p = cl_redis libs p"

definition kafka_gen :: "('w, 'c, 'd) client_libs \<Rightarrow> conn_config \<Rightarrow> ('w, 'c) goS" where
  "kafka_gen libs info = cl_kafka libs (cc_Server info) (cc_Name info)"

definition ssh_gen :: "(string \<Rightarrow> string \<Rightarrow> ('w, 'c) goS) option \<Rightarrow> ssh_options \<Rightarrow> ('w, 'c) goS" where
  "ssh_gen client s =
    (case client of
      None \<Rightarrow> panicS PNilDeref
    | Some newSession \<Rightarrow> wrapS ''ssh get failed'' (newSession (sho_newlineChar s) (sho_splitChar s)))"

definition cassandra_gen :: "('w, 'c, 'd) client_libs \<Rightarrow> cassandra_options \<Rightarrow> ('w, 'c) goS" where
  "cassandra_gen libs cluster = wrapS ''create session failed'' (cl_cassandra libs cluster)"

definition odbc_gen :: "('w, 'c, 'd) client_libs \<Rightarrow> conn_config \<Rightarrow> ('w, 'c) goS" where
  "odbc_gen libs info =
    bindS (liftS (odbc_dsn info)) (\<lambda>dsn. wrapS ''ODBC connection creation failed'' (cl_odbc libs dsn))"

definition new_generator :: "('w, 'c, 'd) client_libs \<Rightarrow> generator_kind \<Rightarrow> conn_config \<Rightarrow> ('w, 'c) goS go" where
  "new_generator libs kind info =
    (case kind of
      RedisGen \<Rightarrow> bind_go (new_redis_generator info) (\<lambda>opt. Ok (redis_gen libs opt))
    | LocalGen \<Rightarrow> bind_go (new_local_generator info) (\<lambda>opt. Ok (cl_local libs opt))
    | KafkaGen \<Rightarrow> Ok (kafka_gen libs info)
    | SSHGen \<Rightarrow> bind_go (new_ssh_generator info) (\<lambda>opt. Ok (ssh_gen None opt))
    | CassandraGen \<Rightarrow> bind_go (new_cassandra_generator info) (\<lambda>opt. Ok (cassandra_gen libs opt))
    | ODBCGen \<Rightarrow> Ok (odbc_gen libs info)
    | StdGen \<Rightarrow> new_std_generator libs info)"

section \<open>What is accepted\<close>

text \<open>The options a local generator needs, with their types.\<close>

definition has_string :: "conn_config \<Rightarrow> string \<Rightarrow> string \<Rightarrow> bool" where
  "has_string info key s \<longleftrightarrow> map_of (cc_OptionMap info) key = Some (GString s)"

lemma gen_option_Ok_iff: "gen_option info key msg = Ok v \<longleftrightarrow> map_of (cc_OptionMap info) key = Some v"
  by (auto simp: gen_option_def split: option.splits)

lemma assert_Ok_iff: "assert_string v = Ok s \<longleftrightarrow> v = GString s" "assert_bool v = Ok b \<longleftrightarrow> v = GBool b"
  by (cases v; auto)+

lemma local_args_Ok_iff:
  "local_args info = Ok args \<longleftrightarrow>
    (map_of (cc_OptionMap info) ''args'' = None \<and> args = []) \<or>
    (\<exists>s. has_string info ''args'' s \<and> args = split_respect_quotes_str s)"
  by (auto simp: local_args_def has_string_def split: option.splits goval.splits)

text \<open>\<^verbatim>\<open>NewLocalGenerator\<close> succeeds exactly when every option is there with its type
  (the interactive flag a boolean, the six separators strings, the arguments a string or missing),
  and then it holds these options and the configured program; a missing option is an error, one of
  another type an error or a panic.\<close>

theorem local_generator_options:
  "new_local_generator info = Ok lo \<longleftrightarrow>
    map_of (cc_OptionMap info) ''interactive'' = Some (GBool (lo_interactive lo)) \<and>
    has_string info ''output.splitchar'' (lo_outputSplitChar lo) \<and>
    has_string info ''output.newline'' (lo_outputNewlineChar lo) \<and>
    has_string info ''output.endchar'' (lo_outputEndChar lo) \<and>
    has_string info ''input.nextline'' (lo_inputNextLineChar lo) \<and>
    has_string info ''input.division'' (lo_inputDivisionChar lo) \<and>
    has_string info ''input.endchar'' (lo_inputEndChar lo) \<and>
    ((map_of (cc_OptionMap info) ''args'' = None \<and> lo_args lo = []) \<or>
      (\<exists>s. has_string info ''args'' s \<and> lo_args lo = split_respect_quotes_str s)) \<and>
    lo_proc lo = cc_Name info"
  unfolding new_local_generator_def bind_go_Ok_iff gen_option_Ok_iff assert_Ok_iff local_args_Ok_iff
  by (cases lo) (auto simp: has_string_def)

text \<open>The first parts of a text cut at a character.\<close>

lemma split_go_char: "c \<notin> set h \<Longrightarrow> split_go [c] acc (h @ c # p) = (rev acc @ h) # split_go [c] [] p"
  by (induction h arbitrary: acc) (auto simp: has_prefix_def)

lemma split_go_hd: "\<exists>rest. split_go [c] acc p = (rev acc @ takeWhile (\<lambda>x. x \<noteq> c) p) # rest"
proof (induction p arbitrary: acc)
  case (Cons a p)
  obtain r where "split_go [c] (a # acc) p = (rev (a # acc) @ takeWhile (\<lambda>x. x \<noteq> c) p) # r"
    using Cons.IH by blast
  then show ?case by (auto simp: has_prefix_def)
qed simp

lemma dec_value_bad: "x \<in> set s \<Longrightarrow> digit_val x = None \<Longrightarrow> dec_value acc s = None"
  by (induction acc s rule: dec_value.induct) (auto split: option.splits)

lemma atoi_bad:
  assumes "x \<in> set s" "digit_val x = None" "x \<noteq> CHR ''-''" "x \<noteq> CHR ''+''"
  shows "atoi s = Err atoi_err"
proof (cases s)
  case (Cons c cs)
  have "x \<in> set cs" if "c = CHR ''-'' \<or> c = CHR ''+''" using that Cons assms by auto
  then show ?thesis
    using dec_value_bad[of x cs 0] dec_value_bad[of x "c # cs" 0] Cons assms
    by (auto simp: atoi_def Let_def simp del: dec_value.simps)
qed (use assms in simp)

text \<open>A Cassandra address with a second host after the port is refused: the port is read up to
  the next colon, comma and host included, so a list of \<^verbatim>\<open>host:port\<close> entries never
  makes a generator.\<close>

theorem cassandra_refuses_host_ports:
  assumes "cc_Server info = h @ CHR '':'' # p" "CHR '':'' \<notin> set h" "CHR '','' \<in> set (takeWhile (\<lambda>c. c \<noteq> CHR '':'') p)"
  shows "new_generator libs CassandraGen info = Err (EWrap (Some atoi_err) ''port convert failed : %s'')"
proof -
  obtain rest where r: "go_split (cc_Server info) '':'' = h # takeWhile (\<lambda>c. c \<noteq> CHR '':'') p # rest"
    using split_go_hd[of "CHR '':''" "[]" p] split_go_char[OF assms(2), of "[]" p] assms(1)
    by (auto simp: go_split_def)
  have "atoi (takeWhile (\<lambda>c. c \<noteq> CHR '':'') p) = Err atoi_err"
    by (rule atoi_bad[OF assms(3)]) (simp_all add: digit_val_def Let_def)
  with r show ?thesis
    by (simp add: new_generator_def new_cassandra_generator_def Let_def)
qed

text \<open>Whatever the driver libraries do, when \<^verbatim>\<open>sql.Open\<close> refuses a driver that is not
  registered, a connection pool is only made for ten of the eleven database types; SAP HANA, whose
  driver the program does not import, and every unknown type are refused.\<close>

theorem pool_database_types:
  assumes "\<And>driver url. driver \<notin> set registered_drivers \<Longrightarrow> \<exists>e. cl_sql_open libs driver url = Err e"
    and "new_conn_pool (new_generator libs) base ident info m w = Ok p"
  shows "cc_DBType info \<in> {''redis'', ''local'', ''kafka'', ''ssh'', ''cassandra'', ''odbc'', ''sqlite'',
    ''mysql'', ''postgres'', ''sqlserver''}"
proof (rule ccontr)
  assume other: "\<not> ?thesis"
  then have "generator_of (cc_DBType info) = StdGen" by (simp add: generator_of_def)
  moreover have "new_std_generator libs info \<noteq> Ok g" for g
  proof (cases "cc_DBType info = ''hanadb''")
    case True
    have "''hdb'' \<notin> set registered_drivers" by (simp add: registered_drivers_def)
    then obtain e where "cl_sql_open libs ''hdb'' (''hdb://'' @ cc_Id info @ '':'' @ cc_Password info @ ''@'' @ cc_Server info) = Err e"
      using assms(1) by blast
    with True show ?thesis by (simp add: new_std_generator_def get_conn_url_and_driver_def)
  next
    case False
    with other show ?thesis by (simp add: new_std_generator_def get_conn_url_and_driver_def)
  qed
  ultimately show False
    using assms(2) by (auto simp: new_conn_pool_def new_generator_def bind_go_Ok_iff)
qed

section \<open>The sync process\<close>

text \<open>Libraries that open what is registered.\<close>

definition open_libs :: "(nat, nat, unit) client_libs" where
  "open_libs = \<lparr>cl_redis = \<lambda>opt. retS 0, cl_local = \<lambda>opt. retS 0, cl_kafka = \<lambda>a b. retS 0,
    cl_cassandra = \<lambda>opt. retS 0, cl_odbc = \<lambda>dsn. retS 0,
    cl_sql_open = \<lambda>driver url. if driver \<in> set registered_drivers then Ok () else Err (ESys ''sql: unknown driver''),
    cl_sql_conn = \<lambda>db n. retS 0\<rparr>"

definition config_of :: "string \<Rightarrow> string \<Rightarrow> conn_config" where
  "config_of dbtype server = zero_conn_config\<lparr>cc_DBType := dbtype, cc_Server := server, cc_MaxConn := 5\<rparr>"

lemma cassandra_refuses_host_ports_witness:
  "new_generator open_libs CassandraGen (config_of ''cassandra'' ''h1:9042,h2:9042'') =
    Err (EWrap (Some atoi_err) ''port convert failed : %s'')"
  by (rule cassandra_refuses_host_ports[where h = "''h1''" and p = "''9042,h2:9042''"])
    (simp_all add: config_of_def)

lemma pool_database_types_witness:
  "\<exists>p. new_conn_pool (new_generator open_libs) (probe_env 3) ''me'' (config_of ''mysql'' ''h'') None 0 = Ok p \<and>
    cc_DBType (config_of ''mysql'' ''h'') \<in> {''redis'', ''local'', ''kafka'', ''ssh'', ''cassandra'', ''odbc'', ''sqlite'',
    ''mysql'', ''postgres'', ''sqlserver''}"
proof -
  have "\<exists>p. new_conn_pool (new_generator open_libs) (probe_env 3) ''me'' (config_of ''mysql'' ''h'') None 0 = Ok p"
    by (simp add: new_conn_pool_def new_generator_def generator_of_def new_std_generator_def config_of_def
        get_conn_url_and_driver_def open_libs_def registered_drivers_def)
  then obtain p where p: "new_conn_pool (new_generator open_libs) (probe_env 3) ''me'' (config_of ''mysql'' ''h'') None 0 = Ok p"
    by blast
  have "\<exists>e. cl_sql_open open_libs driver url = Err e" if "driver \<notin> set registered_drivers" for driver url
    using that by (simp add: open_libs_def)
  from p pool_database_types[OF this p] show ?thesis by blast
qed

text \<open>Whatever the management database answers, the sync process never starts: the connection
  information it fetches for itself loses its database type on the way, and no generator is made
  for an empty one, so the process stops (or panics in the query) before its loop.\<close>

lemma no_own_pool:
  "fst (syncd_start (\<lambda>ident info. new_conn_pool (new_generator libs) base ident info m w) query conf syncIdent q)
    \<in> {Ok None} \<union> range Panic"
proof -
  obtain r q' where r: "fetch_self query conf syncIdent q = (r, q')" by fastforce
  show ?thesis
  proof (cases r)
    case (Ok info)
    have "cc_DBType info = []"
      using fetch_self_result[OF r[unfolded Ok]] by (metis (no_types) conn_config.select_convs(1) zero_conn_config_def conn_config.update_convs(7))
    then have "new_conn_pool (new_generator libs) base syncIdent info m w =
        Err (EWrap (Some (EWrap (Some (sentinel_err NotMatchingError ''not supported driver %s'')) ''driver not exists, name:%s'')) ''new conn pool failed ident:%s'')"
      by (simp add: new_conn_pool_def new_generator_def generator_of_def new_std_generator_def get_conn_url_and_driver_def)
    with r Ok show ?thesis by (simp add: syncd_start_def)
  qed (use r in \<open>auto simp: syncd_start_def\<close>)
qed

end
