(* ===== verification/PooledSql.thy ===== *)
theory PooledSql
  imports SqlConn Generators
begin

text \<open>
  The connection pool over the \<^verbatim>\<open>database/sql\<close> driver: what a failing call through the
  pool leaves in the database.
\<close>

section \<open>What a failing use leaves alone\<close>

text \<open>\<open>calm e D\<close>: making and closing connections leaves the part \<open>D\<close> of the world alone.\<close>

definition calm :: "('w, 'c, 'm) pool_env \<Rightarrow> ('w \<Rightarrow> 'd) \<Rightarrow> bool" where
  "calm e D \<longleftrightarrow> (\<forall>w. D (snd (pe_gen e w)) = D w) \<and> (\<forall>c w. D (pe_close e c w) = D w)"

lemma calm_drain: "calm e D \<Longrightarrow> D (drain e data q w) = D w"
  by (induction q arbitrary: w) (simp_all add: calm_def)

lemma calm_close: "calm e D \<Longrightarrow> pool_close e data p = (r, p') \<Longrightarrow> D (pl_world p') = D (pl_world p)"
  by (auto simp: pool_close_def Let_def calm_drain split: if_splits go.splits)

lemma calm_gen_item: "calm e D \<Longrightarrow> gen_item e p = (r, p') \<Longrightarrow> D (pl_world p') = D (pl_world p)"
  by (auto simp: gen_item_def pool_gen_def wrapS_def on_pool_world_def calm_def Let_def
      split: if_splits go.splits prod.splits) (metis snd_conv)+

lemma calm_scan:
  "calm e D \<Longrightarrow> timeout_scan e t sec q p = (r, p') \<Longrightarrow> D (pl_world p') = D (pl_world p)"
proof (induction q arbitrary: p)
  case Nil
  then show ?case by (auto split: prod.splits received.splits dest: calm_gen_item)
next
  case (Cons x xs)
  then show ?case by (auto simp: Let_def calm_def split: if_splits dest!: Cons.IH)
qed

lemma send_not_Err: "send x ch \<noteq> Err e"
  by (simp add: send_def split: option.split)

lemma calm_finish:
  assumes "calm e D" "finish e mk item r p = (Err er, p')"
  shows "(\<exists>er'. r = Err er') \<and> D (pl_world p') = D (pl_world p)"
  using assms by (cases r) (auto simp: finish_def Let_def calm_def send_not_Err split: if_splits go.splits)

lemma use_failed:
  assumes calm: "calm e D" and get: "\<And>p r p'. get p = (r, p') \<Longrightarrow> D (pl_world p') = D (pl_world p)"
    and fails: "\<And>c w er w'. useFn c w = (Err er, w') \<Longrightarrow> D w' = D w"
    and run: "use_with e data get mk useFn p = (Err er, p')"
  shows "D (pl_world p') = D (pl_world p)"
proof -
  have "D (pl_world p') = D (pl_world p)"
    if "bindS get (\<lambda>item p.
       let p = set_gauges e (p\<lparr>pl_use := pl_use p + 1\<rparr>) in
       case on_pool_world (useFn item) p of (r, p) \<Rightarrow> finish e mk item r p) (init_pool e p) = (Err er, p')"
    using that
  proof (cases rule: bindS_cases)
    case (ok item t)
    obtain r w where f: "useFn item (pl_world t) = (r, w)" by fastforce
    let ?q = "(set_gauges e (t\<lparr>pl_use := pl_use t + 1\<rparr>))\<lparr>pl_world := w\<rparr>"
    from ok(2) f have "finish e mk item r ?q = (Err er, p')" by (simp add: on_pool_world_def Let_def)
    from calm_finish[OF calm this] f have "D (pl_world p') = D w" "D w = D (pl_world t)" by (auto dest: fails)
    with get[OF ok(1)] show ?thesis by simp
  next
    case (err er')
    with get[OF err(1)] show ?thesis by simp
  qed simp
  then show ?thesis
    using run calm_close[OF calm, of data p] by (auto simp: use_with_def split: if_splits prod.splits go.splits)
qed

section \<open>A failing call through the pool\<close>

text \<open>C4: A call of \<^verbatim>\<open>RunExecute\<close> on a connection pool of the \<^verbatim>\<open>database/sql\<close>
  driver that fails, without the transaction flag, leaves the database as it was, whether the pool
  is closed, a connection cannot be made, or any of the statements fails on any of the rows; the
  same holds of \<^verbatim>\<open>RunQuery\<close>.\<close>

theorem pooled_call_atomic:
  assumes driver: "\<And>conn. co_execute ops conn arg = std_run_execute (lib conn) arg"
    and db: "\<And>conn. rolls_back (lib conn) db" "calm (cp_env c) db" and arg: "\<not> a_IsTransaction arg"
    and run: "cp_run_execute ops sec sec' arg c = (Err e, c') \<or> cp_run_query ops sec sec' arg c = (Err e, c')"
  shows "db (pl_world (cp_pool c')) = db (pl_world (cp_pool c))"
proof -
  let ?f = "\<lambda>data. bindS (wrapS ''RunExecute Failed : %s'' (co_execute ops data arg)) (\<lambda>_. retS \<lparr>rw_rows = [], rw_colName = []\<rparr>)"
  obtain x p where x: "timeout_use (cp_env c) idle_timeout sec sec' ?f (cp_pool c) = (x, p)" by fastforce
  have x_err: "x = Err e" "cp_pool c' = p"
    using run x by (auto simp: cp_run_execute_def cp_run_query_def cp_use_def on_pool_def elim!: bindS_cases)
  have fails: "db w' = db w" if "?f conn w = (Err er, w')" for conn w er w'
  proof -
    from that obtain er' where "std_run_execute (lib conn) arg w = (Err er', w')"
      by (auto simp: driver wrapS_Err_iff elim!: bindS_cases)
    with std_execute_failed[OF db(1) this arg] show ?thesis by simp
  qed
  have get: "db (pl_world q') = db (pl_world q)" if "timeout_get (cp_env c) idle_timeout sec q = (r, q')" for q r q'
    using calm_scan[OF db(2)] that by (auto simp: timeout_get_def)
  show ?thesis
    using use_failed[OF db(2) get fails, where data = ti_data] x x_err by (auto simp: timeout_use_def)
qed

text \<open>A pool of such connections: the second row of the call is refused.\<close>

definition sql_env :: "(goval list list \<times> goval list list, unit, unit) pool_env" where
  "sql_env = \<lparr>pe_name = ''p'', pe_gen = Pair (Ok ()), pe_max = 1, pe_done = (\<lambda>_. False), pe_zero = (), pe_close = (\<lambda>_ w. w),
    pe_assignment = (\<lambda>_ _ _ m. m), pe_assignments = (\<lambda>_ _ m. m), pe_delete = (\<lambda>_ m. m)\<rparr>"

definition sql_pool :: "(goval list list \<times> goval list list, unit, unit) conn_pool" where
  "sql_pool = \<lparr>cp_ident = ''p'', cp_conf = zero_conn_config, cp_env = sql_env, cp_pool = new_pool () ([], [])\<rparr>"

definition sql_ops :: "(goval list list \<times> goval list list, unit) conn_ops" where
  "sql_ops = \<lparr>co_execute = \<lambda>_. std_run_execute probe_sql, co_query = \<lambda>_. std_run_query probe_sql\<rparr>"

lemma pooled_call_atomic_witness:
  "\<exists>e c'. cp_run_execute sql_ops 0 0 (two_rows False) sql_pool = (Err e, c') \<and> fst (pl_world (cp_pool c')) = []"
proof -
  let ?r = "cp_run_execute sql_ops 0 0 (two_rows False) sql_pool"
  have "(case fst ?r of Err e \<Rightarrow> True | _ \<Rightarrow> False)" by code_simp
  then obtain e where r: "?r = (Err e, snd ?r)" by (auto simp: prod_eq_iff split: go.splits)
  have "fst (pl_world (cp_pool (snd ?r))) = fst (pl_world (cp_pool sql_pool))"
    by (rule pooled_call_atomic[of sql_ops "two_rows False" "\<lambda>_. probe_sql" fst])
      (use r in \<open>auto simp: sql_ops_def probe_sql_rolls_back calm_def sql_pool_def sql_env_def two_rows_def\<close>)
  with r show ?thesis by (auto simp: sql_pool_def new_pool_def)
qed

end
