(* ===== verification/ShellConn.thy ===== *)
theory ShellConn
  imports ShReader Generators Closer
begin

text \<open>
  \<^verbatim>\<open>connpool/internal/connection/local_sh_conn.go\<close> and \<^verbatim>\<open>ssh_conn.go\<close>:
  the drivers that run a program, on this machine or another, and read a table from its output.
  The operating system is the record \<open>sh_os\<close>, an SSH session the function \<open>run\<close>.
\<close>

section \<open>Local programs\<close>

text \<open>\<open>sh_read\<close> gives what the reads of one scan return, in the order of the reads; \<open>sh_kill\<close> closes
  the pipes, kills the program and waits for it, all errors dropped.\<close>

record ('w, 'h) sh_os =
  sh_stdin_pipe :: "string \<Rightarrow> ('w, unit) goS"
  sh_stdout_pipe :: "string \<Rightarrow> ('w, unit) goS"
  sh_start :: "string \<Rightarrow> string list \<Rightarrow> ('w, 'h) goS"
  sh_write :: "'h \<Rightarrow> string \<Rightarrow> ('w, unit) goS"
  sh_read :: "'h \<Rightarrow> 'w \<Rightarrow> string list \<times> 'w"
  sh_kill :: "'h \<Rightarrow> 'w \<Rightarrow> 'w"
  sh_spawn :: "string \<Rightarrow> string list \<Rightarrow> ('w, unit) goS"
  sh_output :: "string \<Rightarrow> string list \<Rightarrow> ('w, string) goS"

record 'h local_conn =
  lc_isCloseFlag :: bool
  lc_isInteractive :: bool
  lc_splitChar :: string
  lc_newlineChar :: string
  lc_inputNextLineChar :: string
  lc_inputDivisionChar :: string
  lc_proc :: "'h option"
  lc_outputEndChar :: string
  lc_inputEndChar :: string
  lc_execPath :: string
  lc_args :: "string list"

definition new_local_sh_conn :: "('w, 'h) sh_os \<Rightarrow> local_options \<Rightarrow> ('w, 'h local_conn) goS" where
  "new_local_sh_conn os opt =
    (let c = \<lparr>lc_isCloseFlag = False, lc_isInteractive = lo_interactive opt, lc_splitChar = lo_outputSplitChar opt,
        lc_newlineChar = lo_outputNewlineChar opt, lc_inputNextLineChar = lo_inputNextLineChar opt,
        lc_inputDivisionChar = lo_inputDivisionChar opt, lc_proc = None, lc_outputEndChar = [], lc_inputEndChar = [],
        lc_execPath = [], lc_args = []\<rparr> in
     if lo_interactive opt then
       bindS (wrapS ''exec stdin failed : %s'' (sh_stdin_pipe os (lo_proc opt))) (\<lambda>_.
       bindS (wrapS ''exec stdout failed : %s'' (sh_stdout_pipe os (lo_proc opt))) (\<lambda>_.
       bindS (wrapS ''start failed : %s'' (sh_start os (lo_proc opt) (lo_args opt))) (\<lambda>h.
         retS (c\<lparr>lc_proc := Some h, lc_inputEndChar := lo_inputEndChar opt, lc_outputEndChar := lo_outputEndChar opt\<rparr>))))
     else retS (c\<lparr>lc_execPath := lo_proc opt, lc_args := lo_args opt\<rparr>))"

text \<open>The state is the world and the connection.  \<^verbatim>\<open>l.interactive.proc.Path\<close> in the
  error of a closed connection.\<close>

type_synonym ('w, 'h) local_state = "'w \<times> 'h local_conn"

definition on_os :: "('w, 'a) goS \<Rightarrow> ('w \<times> 'c, 'a) goS" where
  "on_os m s = (case m (fst s) of (r, w) \<Rightarrow> (r, (w, snd s)))"

definition closed_err :: "'h local_conn \<Rightarrow> 'a go" where
  "closed_err c = (case lc_proc c of None \<Rightarrow> Panic PNilDeref | Some h \<Rightarrow> Err (sentinel_err ClosedError ''exec closed : %s''))"

text \<open>A value that may not come: \<open>None\<close> when the computation does not end.\<close>

definition may_loop :: "'a go option \<Rightarrow> 'a option go" where
  "may_loop m = (case m of None \<Rightarrow> Ok None | Some r \<Rightarrow> bind_go r (\<lambda>a. Ok (Some a)))"

text \<open>\<open>ff\<close> and \<open>widen\<close> are the float conversions of \<open>make_param\<close>.\<close>

definition write_param ::
    "('w, 'h) sh_os \<Rightarrow> (64 word \<Rightarrow> string) \<Rightarrow> (32 word \<Rightarrow> 64 word) \<Rightarrow> 'h local_conn \<Rightarrow> conn_args \<Rightarrow> ('w, 'h) goS" where
  "write_param os ff widen c arg =
    (case lc_proc c of
      None \<Rightarrow> panicS PNilDeref
    | Some h \<Rightarrow> bindS (wrapS ''process write error, %s''
          (sh_write os h (make_param ff widen (lc_inputNextLineChar c) (lc_inputDivisionChar c) (lc_inputEndChar c) arg)))
        (\<lambda>_. retS h))"

definition local_run_execute ::
    "('w, 'h) sh_os \<Rightarrow> (64 word \<Rightarrow> string) \<Rightarrow> (32 word \<Rightarrow> 64 word) \<Rightarrow> conn_args \<Rightarrow> (('w, 'h) local_state, unit) goS" where
  "local_run_execute os ff widen arg s =
    (let c = snd s in
     if lc_isCloseFlag c then (closed_err c, s)
     else if lc_isInteractive c then on_os (bindS (write_param os ff widen c arg) (\<lambda>_. retS ())) s
     else on_os (wrapS ''interactive exec failed : %s'' (sh_spawn os (lc_execPath c) (lc_args c))) s)"

definition local_run_query ::
    "('w, 'h) sh_os \<Rightarrow> (64 word \<Rightarrow> string) \<Rightarrow> (32 word \<Rightarrow> 64 word) \<Rightarrow> conn_args \<Rightarrow>
     (('w, 'h) local_state, (rows \<times> string list) option) goS" where
  "local_run_query os ff widen arg s =
    (let c = snd s in
     if lc_isCloseFlag c then (closed_err c, s)
     else if lc_isInteractive c then
       on_os (bindS (write_param os ff widen c arg) (\<lambda>h w.
         case sh_read os h w of (chunks, w') \<Rightarrow>
           (wrap_err ''parse failed response %s'' (may_loop
             (parse_response_from_reader chunks (lc_newlineChar c) (lc_splitChar c) (lc_outputEndChar c))), w'))) s
     else
       on_os (bindS (wrapS ''non interactive exec failed : %s'' (sh_output os (lc_execPath c) (lc_args c))) (\<lambda>out.
         liftS (may_loop (parse_response out (lc_newlineChar c) (lc_splitChar c))))) s)"

definition local_close :: "('w, 'h) sh_os \<Rightarrow> (('w, 'h) local_state, unit) goS" where
  "local_close os s =
    (let c = snd s in
     if lc_isCloseFlag c then (closed_err c, s)
     else if lc_isInteractive c then
       (case lc_proc c of
         None \<Rightarrow> (Panic PNilDeref, s)
       | Some h \<Rightarrow> (Ok (), (sh_kill os h (fst s), c\<lparr>lc_isCloseFlag := True\<rparr>)))
     else (Ok (), (fst s, c\<lparr>lc_isCloseFlag := True\<rparr>)))"

section \<open>SSH\<close>

text \<open>\<^verbatim>\<open>sess.Run\<close>: its error, what it writes to the two outputs, the world.\<close>

type_synonym 'w ssh_run = "string \<Rightarrow> 'w \<Rightarrow> (unit go \<times> string \<times> string) \<times> 'w"

record ssh_conn =
  sc_newlineChar :: string
  sc_splitChar :: string

definition ssh_run_execute :: "'w ssh_run \<Rightarrow> conn_args \<Rightarrow> ('w, unit) goS" where
  "ssh_run_execute run arg w = (case run (a_Query arg) w of ((r, _, _), w') \<Rightarrow> (wrap_err '''' r, w'))"

definition ssh_run_query :: "'w ssh_run \<Rightarrow> ssh_conn \<Rightarrow> conn_args \<Rightarrow> ('w, (rows \<times> string list) option) goS" where
  "ssh_run_query run c arg w =
    (case run (a_Query arg) w of ((r, out, errB), w') \<Rightarrow>
      (case r of
        Err e \<Rightarrow> (Err (EWrap (Some e) (if errB \<noteq> [] then ''cmd err:%s'' else ''ssh err'')), w')
      | Panic p \<Rightarrow> (Panic p, w')
      | Ok _ \<Rightarrow>
          if errB \<noteq> [] then (Err (bare_err ''cmd err:%s''), w')
          else (may_loop (parse_response out (sc_newlineChar c) (sc_splitChar c)), w')))"

section \<open>A table from a program\<close>

text \<open>A line of a table: its cells with a separator between them.\<close>

definition line_of :: "char \<Rightarrow> string list \<Rightarrow> string" where
  "line_of d cells = concat (map (\<lambda>x. x @ [d]) (butlast cells)) @ last cells"

lemma bytes_index_char: "n \<notin> set l \<Longrightarrow> bytes_index (l @ n # rest) [n] = Some (length l)"
  by (induction l) auto

lemma bytes_index_none: "n \<notin> set l \<Longrightarrow> bytes_index l [n] = None"
  by (induction l) auto

text \<open>A line that the scanner gives back: it fits the buffer with its end, and no piece of it looks like
  the end marker.\<close>

definition scannable :: "char \<Rightarrow> string \<Rightarrow> string \<Rightarrow> bool" where
  "scannable n e l \<longleftrightarrow> n \<notin> set l \<and> length l < max_token \<and> \<not> has_prefix l e"

lemma text_before_end:
  assumes "n \<notin> set buf" "n \<notin> set l" "buf @ rd = l @ n # rest"
  shows "\<exists>us. l = buf @ us"
  using assms by (auto simp: append_eq_append_conv2 append_eq_Cons_conv)

lemma take_drop_more: "take k c @ drop k c @ x = c @ x"
  by (simp add: append_assoc[symmetric] del: append_assoc)

lemma text_with_end:
  assumes "n \<in> set buf" "n \<notin> set l" "buf @ rd = l @ n # rest"
  shows "\<exists>us. buf = l @ n # us \<and> us @ rd = rest"
  using assms by (auto simp: append_eq_append_conv2 append_eq_Cons_conv)

lemma scan_loop_text:
  assumes e: "n \<notin> set e" "e \<noteq> []" "length e \<le> max_token"
  shows "\<forall>l \<in> set ls. scannable n e l \<Longrightarrow> buf @ concat chunks = concat (map (\<lambda>l. l @ [n]) ls) @ e \<Longrightarrow>
    scan_loop [n] e chunks False buf acc = Some (Ok (acc @ ls))"
proof (induction "scan_work chunks False buf" arbitrary: ls chunks buf acc rule: less_induct)
  case less
  show ?case
  proof (cases "n \<in> set buf")
    case True
    then obtain l ls' where ls: "ls = l # ls'" using less.prems(2) e(1) by (cases ls) (auto dest: arg_cong[of _ _ set])
    with less.prems(2) have "buf @ concat chunks = l @ n # (concat (map (\<lambda>l. l @ [n]) ls') @ e)" by simp
    from text_with_end[OF True _ this] obtain us
      where us: "buf = l @ n # us" "us @ concat chunks = concat (map (\<lambda>l. l @ [n]) ls') @ e"
      using less.prems(1) ls by (auto simp: scannable_def)
    have "n \<notin> set l" using less.prems(1) ls by (simp add: scannable_def)
    then have "reader_split [n] e buf False = Token (length l + 1) l" by (simp add: us(1) reader_split_def bytes_index_char)
    moreover have "scan_work chunks False us < scan_work chunks False buf" by (simp add: us(1) scan_work_def)
    from less.hyps[OF this _ us(2), of "acc @ [l]"] less.prems(1) ls
    have "scan_loop [n] e chunks False us (acc @ [l]) = Some (Ok (acc @ ls))" by simp
    ultimately show ?thesis by (subst scan_loop.simps) (simp add: us(1))
  next
    case False
    then have none: "bytes_index buf [n] = None" by (rule bytes_index_none)
    show ?thesis
    proof (cases "buf = e")
      case True
      have "ls = []"
      proof (rule ccontr)
        assume "ls \<noteq> []"
        then obtain l ls' where ls: "ls = l # ls'" by (cases ls) auto
        with less.prems(2) have "buf @ concat chunks = l @ n # (concat (map (\<lambda>l. l @ [n]) ls') @ e)" by simp
        from text_before_end[OF False _ this] less.prems(1) ls True show False
          by (auto simp: scannable_def has_prefix_def)
      qed
      with True none e(2) show ?thesis by (subst scan_loop.simps) (simp add: reader_split_def)
    next
      case ne: False
      have fits: "length buf < max_token"
      proof (cases ls)
        case Nil
        with less.prems(2) have "buf @ concat chunks = e" by simp
        with ne have "concat chunks \<noteq> []" by (metis append_Nil2)
        then have "0 < length (concat chunks)" by blast
        moreover have "length buf + length (concat chunks) \<le> max_token"
          using e(3) \<open>buf @ concat chunks = e\<close> by (metis length_append)
        ultimately show ?thesis by linarith
      next
        case (Cons l ls')
        with less.prems(2) have "buf @ concat chunks = l @ n # (concat (map (\<lambda>l. l @ [n]) ls') @ e)" by simp
        from text_before_end[OF False _ this] less.prems(1) Cons show ?thesis by (auto simp: scannable_def)
      qed
      have "chunks \<noteq> []"
      proof
        assume "chunks = []"
        with less.prems(2) have b: "buf = concat (map (\<lambda>l. l @ [n]) ls) @ e" by simp
        with False ne show False by (cases ls) auto
      qed
      then obtain c cs where c: "chunks = c # cs" by (cases chunks) auto
      let ?room = "max_token - length buf"
      let ?cs = "if length c \<le> ?room then cs else drop ?room c # cs"
      have "scan_work ?cs False (buf @ take ?room c) < scan_work chunks False buf"
        using scan_read_less[OF fits, of c cs] c by simp
      moreover have "(buf @ take ?room c) @ concat ?cs = concat (map (\<lambda>l. l @ [n]) ls) @ e"
        using less.prems(2) c by (simp add: take_drop_more)
      ultimately have "scan_loop [n] e ?cs False (buf @ take ?room c) acc = Some (Ok (acc @ ls))"
        using less.hyps less.prems(1) by blast
      moreover have "(if buf \<noteq> [] \<or> False then reader_split [n] e buf False else NeedMore) = NeedMore"
        using none ne by (simp add: reader_split_def)
      ultimately show ?thesis using fits c by (subst scan_loop.simps) simp
    qed
  qed
qed

lemma split_line_of:
  assumes "cells \<noteq> []" "\<forall>x \<in> set cells. plain_text {d} x" "d \<noteq> quote_char"
  shows "split_line (line_of d cells) [d] = Some cells" "go_split (line_of d cells) [d] = cells"
proof -
  have b: "\<forall>x \<in> set (butlast cells). plain_text {d} x" using assms(2) by (auto dest: in_set_butlastD)
  have l: "plain_text {d} (last cells)" using assms(1,2) by simp
  have app: "butlast cells @ [last cells] = cells" using assms(1) by simp
  show "split_line (line_of d cells) [d] = Some cells"
    using split_loops_pieces(2)[OF b l assms(3), of "[]"] by (simp add: split_line_def line_of_def assms(1))
  have pieces: "split_go [d] [] (concat (map (\<lambda>x. x @ [d]) xs) @ y) = xs @ [y]"
    if "\<forall>x \<in> set xs. d \<notin> set x" "d \<notin> set y" for xs y
    using that
  proof (induction xs)
    case Nil
    have "split_go [d] acc y = [rev acc @ y]" if "d \<notin> set y" for acc
      using that by (induction y arbitrary: acc) auto
    with Nil show ?case by simp
  qed (simp add: split_go_char)
  show "go_split (line_of d cells) [d] = cells"
    using pieces[of "butlast cells" "last cells"] b l app
    by (simp add: go_split_def line_of_def plain_text_def)
qed

lemma line_of_plain: "\<forall>x \<in> set cells. n \<notin> set x \<Longrightarrow> n \<noteq> d \<Longrightarrow> cells \<noteq> [] \<Longrightarrow> n \<notin> set (line_of d cells)"
  by (auto simp: line_of_def dest: in_set_butlastD)

text \<open>C20: An interactive program that answers with a header line, lines of as many cells, and its end
  marker gives exactly that table, however the reads cut the answer: the rows' cells as strings, the
  header as the column names; the connection is unchanged.  The cells hold no separator, line end or
  quote; every line is shorter than the scanner's buffer of 64 KiB, as is the end marker, which is not
  empty and holds no line end; and no line begins with the end marker, which would end the answer
  when a read stops there.\<close>

theorem local_query_reads_table:
  assumes conn: "lc_isInteractive c" "\<not> lc_isCloseFlag c" "lc_proc c = Some h"
      "lc_splitChar c = [d]" "lc_newlineChar c = [n]" "lc_outputEndChar c = e"
    and wr: "sh_write os h (make_param ff widen (lc_inputNextLineChar c) (lc_inputDivisionChar c) (lc_inputEndChar c) arg) w = (Ok (), w1)"
    and rd: "sh_read os h w1 = (chunks, w2)" "concat chunks = concat (map (\<lambda>cells. line_of d cells @ [n]) (hdr # table)) @ e"
    and plain: "\<And>cells x. cells \<in> set (hdr # table) \<Longrightarrow> x \<in> set cells \<Longrightarrow> plain_text {n, d} x"
    and shape: "hdr \<noteq> []" "\<And>cells. cells \<in> set table \<Longrightarrow> length cells = length hdr"
    and seps: "n \<noteq> d" "d \<noteq> quote_char"
    and marker: "e \<noteq> []" "n \<notin> set e" "length e \<le> max_token"
    and lines: "\<And>cells. cells \<in> set (hdr # table) \<Longrightarrow> length (line_of d cells) < max_token \<and> \<not> has_prefix (line_of d cells) e"
  shows "local_run_query os ff widen arg (w, c) = (Ok (Some (map (map GString) table, hdr)), (w2, c))"
proof -
  have ne: "cells \<noteq> []" if "cells \<in> set (hdr # table)" for cells using that shape by fastforce
  have pd: "\<forall>x \<in> set cells. plain_text {d} x" and pn: "\<forall>x \<in> set cells. n \<notin> set x" if "cells \<in> set (hdr # table)" for cells
    using plain[OF that] by (auto simp: plain_text_def)
  have "scannable n e (line_of d cells)" if "cells \<in> set (hdr # table)" for cells
    using line_of_plain[OF pn[OF that] seps(1) ne[OF that]] lines[OF that] by (simp add: scannable_def)
  then have "\<forall>l \<in> set (map (line_of d) (hdr # table)). scannable n e l" by (simp only: set_map ball_simps) blast
  from scan_loop_text[OF marker(2,1,3) this, of "[]" chunks "[]"] rd(2)
  have scanned: "scan_lines [n] e chunks = Some (Ok (map (line_of d) (hdr # table)))"
    by (simp add: scan_lines_def comp_def)
  have cut: "split_line (line_of d cells) [d] = Some cells" "go_split (line_of d cells) [d] = cells"
    if "cells \<in> set (hdr # table)" for cells
    using split_line_of[OF ne[OF that] pd[OF that] seps(2)] by auto
  have "reader_table (map (line_of d) (hdr # table)) [d] = Some (Ok (map (map GString) table, hdr))"
    using reader_table_spec[of "[d]" "line_of d hdr" hdr "map (line_of d) table"] cut shape(2)
    by (auto simp: padded_row_def)
  with scanned conn wr rd show ?thesis
    by (simp add: local_run_query_def Let_def on_os_def write_param_def bindS_def wrapS_def may_loop_def
        parse_response_from_reader_def opt_bind_go_def)
qed

text \<open>A program that answers every parameter with the same table, in the same pieces.\<close>

definition table_os :: "string list \<Rightarrow> (nat, unit) sh_os" where
  "table_os chunks = \<lparr>sh_stdin_pipe = \<lambda>p. retS (), sh_stdout_pipe = \<lambda>p. retS (), sh_start = \<lambda>p args. retS (),
    sh_write = \<lambda>h s w. (Ok (), w + 1), sh_read = \<lambda>h w. (chunks, w + 1), sh_kill = \<lambda>h w. w,
    sh_spawn = \<lambda>p args. retS (), sh_output = \<lambda>p args. retS (concat chunks)\<rparr>"

definition table_conn :: "unit local_conn" where
  "table_conn = \<lparr>lc_isCloseFlag = False, lc_isInteractive = True, lc_splitChar = '','', lc_newlineChar = '';'',
    lc_inputNextLineChar = '';'', lc_inputDivisionChar = '','', lc_proc = Some (), lc_outputEndChar = ''END'',
    lc_inputEndChar = ''.'', lc_execPath = [], lc_args = []\<rparr>"

definition any_args :: conn_args where
  "any_args = \<lparr>a_Query = [], a_Args = None, a_IsTransaction = False\<rparr>"

lemma local_query_reads_table_witness:
  "local_run_query (table_os [''a,b;1'', '',2;3,4;E'', ''ND'']) (\<lambda>_. []) (\<lambda>_. 0) any_args (0, table_conn) =
    (Ok (Some ([[GString ''1'', GString ''2''], [GString ''3'', GString ''4'']], [''a'', ''b''])), (2, table_conn))"
proof -
  have "local_run_query (table_os [''a,b;1'', '',2;3,4;E'', ''ND'']) (\<lambda>_. []) (\<lambda>_. 0) any_args (0, table_conn) =
    (Ok (Some (map (map GString) [[''1'', ''2''], [''3'', ''4'']], [''a'', ''b''])), (2, table_conn))"
    by (rule local_query_reads_table[of _ "()" "CHR '',''" "CHR '';''" "''END''" _ _ _ _ _ 1])
      (auto simp: table_conn_def table_os_def line_of_def plain_text_def quote_char_def max_token_def has_prefix_def)
  then show ?thesis by simp
qed

section \<open>After the close\<close>

text \<open>What \<^verbatim>\<open>NewLocalShConn\<close> makes: a program exactly when it is interactive.\<close>

definition local_wf :: "'h local_conn \<Rightarrow> bool" where
  "local_wf c \<longleftrightarrow> lc_isInteractive c = (lc_proc c \<noteq> None)"

lemma new_local_wf: "new_local_sh_conn os opt w = (Ok c, w') \<Longrightarrow> local_wf c \<and> \<not> lc_isCloseFlag c"
  by (auto simp: new_local_sh_conn_def local_wf_def Let_def split: if_splits elim!: bindS_cases)

datatype local_use = LocalExecute conn_args | LocalQuery conn_args | LocalClose

fun local_do ::
    "('w, 'h) sh_os \<Rightarrow> (64 word \<Rightarrow> string) \<Rightarrow> (32 word \<Rightarrow> 64 word) \<Rightarrow> local_use \<Rightarrow> (('w, 'h) local_state, unit) goS" where
  "local_do os ff widen (LocalExecute arg) s = local_run_execute os ff widen arg s"
| "local_do os ff widen (LocalQuery arg) s = forget (local_run_query os ff widen arg s)"
| "local_do os ff widen LocalClose s = local_close os s"

lemma local_do_keeps:
  assumes "local_do os ff widen u s = (r, s')"
  shows "snd s' = (if u = LocalClose \<and> \<not> is_panic r \<and> \<not> lc_isCloseFlag (snd s)
    then (snd s)\<lparr>lc_isCloseFlag := True\<rparr> else snd s)"
  using assms
  by (cases u) (auto simp: local_run_execute_def local_run_query_def local_close_def forget_def on_os_def Let_def closed_err_def
      split: prod.splits if_splits option.splits)

interpretation local: closable_once "local_do os ff widen" LocalClose "\<lambda>s. lc_isCloseFlag (snd s)" for os ff widen
proof unfold_locales
  fix s s' u
  show "local_do os ff widen LocalClose s = (Ok (), s') \<Longrightarrow> lc_isCloseFlag (snd s')"
    using local_do_keeps[of os ff widen LocalClose s "Ok ()" s'] by (auto simp: closed_err_def split: if_splits option.splits)
  assume "lc_isCloseFlag (snd s)"
  then show "snd (local_do os ff widen u s) = s" "u \<noteq> LocalClose \<Longrightarrow> fst (local_do os ff widen u s) \<noteq> Ok ()"
    "fst (local_do os ff widen LocalClose s) \<noteq> Ok ()"
    by (cases u; auto simp: local_run_execute_def local_run_query_def local_close_def closed_err_def Let_def
        split: prod.splits option.splits if_splits)+
qed

text \<open>Closing a connection of a program works once; then every call, whatever it is, leaves the
  world and the connection alone and fails: with \<^verbatim>\<open>ClosedError\<close> when the program is
  interactive, with a nil dereference (in the text of that error) when it is not.\<close>

theorem local_closed_calls:
  assumes "new_local_sh_conn os opt w = (Ok c, w1)"
  shows "\<exists>w2. local_close os (w1, c) = (Ok (), (w2, c\<lparr>lc_isCloseFlag := True\<rparr>)) \<and>
    local_do os ff widen u (w2, c\<lparr>lc_isCloseFlag := True\<rparr>) =
      (if lo_interactive opt then Err (sentinel_err ClosedError ''exec closed : %s'') else Panic PNilDeref,
       (w2, c\<lparr>lc_isCloseFlag := True\<rparr>))"
proof -
  have c: "local_wf c" "\<not> lc_isCloseFlag c" "lc_isInteractive c = lo_interactive opt"
    using new_local_wf[OF assms] assms
    by (auto simp: new_local_sh_conn_def Let_def split: if_splits elim!: bindS_cases)
  show ?thesis
  proof (cases "lo_interactive opt")
    case True
    with c obtain h where "lc_proc c = Some h" by (auto simp: local_wf_def)
    with True c show ?thesis
      by (cases u) (auto simp: local_close_def local_run_execute_def local_run_query_def forget_def closed_err_def Let_def)
  next
    case False
    with c have "lc_proc c = None" by (auto simp: local_wf_def)
    with False c show ?thesis
      by (cases u) (auto simp: local_close_def local_run_execute_def local_run_query_def forget_def closed_err_def Let_def)
  qed
qed

definition echo_options :: local_options where
  "echo_options = \<lparr>lo_interactive = False, lo_proc = ''ls'', lo_outputSplitChar = '','', lo_outputNewlineChar = '';'',
    lo_inputNextLineChar = '';'', lo_inputDivisionChar = '','', lo_inputEndChar = ''.'', lo_outputEndChar = ''.'', lo_args = []\<rparr>"

lemma local_closed_calls_witness:
  "\<exists>c w2. new_local_sh_conn (table_os []) echo_options 0 = (Ok c, 0) \<and>
    local_do (table_os []) (\<lambda>_. []) (\<lambda>_. 0) LocalClose (w2, c\<lparr>lc_isCloseFlag := True\<rparr>) =
      (Panic PNilDeref, (w2, c\<lparr>lc_isCloseFlag := True\<rparr>))"
proof -
  obtain c where c: "new_local_sh_conn (table_os []) echo_options 0 = (Ok c, 0)"
    by (simp add: new_local_sh_conn_def echo_options_def Let_def)
  from local_closed_calls[OF c, of "\<lambda>_. []" "\<lambda>_. 0" LocalClose] c show ?thesis
    by (auto simp: echo_options_def)
qed

section \<open>An SSH session runs once\<close>

text \<open>What the SSH library documents: a session runs one command; \<open>used\<close> says that it has.\<close>

definition runs_once :: "'w ssh_run \<Rightarrow> ('w \<Rightarrow> bool) \<Rightarrow> bool" where
  "runs_once run used \<longleftrightarrow>
    (\<forall>q w r out errB w'. run q w = ((r, out, errB), w') \<longrightarrow> used w' \<and> (used w \<longrightarrow> (\<exists>e. r = Err e)))"

text \<open>A connection of the pool holds one session, so its second call always fails.\<close>

lemma ssh_second_call_fails:
  assumes "runs_once run used" "ssh_run_execute run arg w = (r, w1)"
  shows "\<exists>e. fst (ssh_run_execute run arg' w1) = Err e"
    "\<exists>e. fst (ssh_run_query run c arg' w1) = Err e"
proof -
  obtain x out errB where x: "run (a_Query arg) w = ((x, out, errB), w1)"
    using assms(2) by (auto simp: ssh_run_execute_def split: prod.splits)
  have "used w1"
    using assms(1)[unfolded runs_once_def, rule_format, OF x] by blast
  obtain y out' errB' w2 where y: "run (a_Query arg') w1 = ((y, out', errB'), w2)" by (metis surj_pair)
  obtain e where "y = Err e"
    using assms(1)[unfolded runs_once_def, rule_format, OF y] \<open>used w1\<close> by blast
  with y show "\<exists>e. fst (ssh_run_execute run arg' w1) = Err e" "\<exists>e. fst (ssh_run_query run c arg' w1) = Err e"
    by (simp_all add: ssh_run_execute_def ssh_run_query_def)
qed

end
