(* ===== verification/RedisConn.thy ===== *)
theory RedisConn
  imports Shutils
begin

text \<open>
  \<^verbatim>\<open>connpool/internal/connection/redis_conn.go\<close>: a command is the words of the query and
  the parameters of a row.  The client is the function \<open>do\<close>, which sends one command and gives its
  reply (\<^verbatim>\<open>conn.Do\<close>; a nil reply is the error \<^verbatim>\<open>redis.Nil\<close>).
\<close>

section \<open>The driver\<close>

type_synonym 'w redis_do = "goval list \<Rightarrow> ('w, goval) goS"

definition trim_query :: "string \<Rightarrow> string" where
  "trim_query q = filter (\<lambda>c. c \<noteq> CHR 0x0D) (filter (\<lambda>c. c \<noteq> CHR 0x0A) q)"

definition redis_command :: "conn_args \<Rightarrow> goval list \<Rightarrow> goval list" where
  "redis_command arg param = split_respect_quotes_any (trim_query (a_Query arg)) @ param"

text \<open>The loop over the rows, which stops at the first error and gives it.\<close>

fun redis_loop :: "'w redis_do \<Rightarrow> conn_args \<Rightarrow> rows \<Rightarrow> ('w, gerror option) goS" where
  "redis_loop send arg [] = retS None"
| "redis_loop send arg (param # params) =
    (\<lambda>w. case send (redis_command arg param) w of
      (Ok _, w') \<Rightarrow> redis_loop send arg params w'
    | (Err e, w') \<Rightarrow> (Ok (Some e), w')
    | (Panic p, w') \<Rightarrow> (Panic p, w'))"

definition redis_run_execute :: "'w redis_do \<Rightarrow> conn_args \<Rightarrow> ('w, unit) goS" where
  "redis_run_execute send arg =
    (case a_Args arg of
      Some (p # ps) \<Rightarrow>
        bindS (if a_IsTransaction arg then wrapS ''query:[%s]'' (send [GString ''MULTI'']) else retS GNil) (\<lambda>_.
        bindS (redis_loop send arg (p # ps)) (\<lambda>loopRetErr.
        bindS (if a_IsTransaction arg then wrapS ''query:[%s]'' (send [GString ''EXEC'']) else retS GNil) (\<lambda>_.
          case loopRetErr of None \<Rightarrow> retS () | Some e \<Rightarrow> failS (EWrap (Some e) ''query:[%s]''))))
    | _ \<Rightarrow> bindS (wrapS ''query:[%s]'' (send (redis_command arg []))) (\<lambda>_. retS ()))"

text \<open>A reply as rows: an array is one row of its elements, a scalar one row of one cell;
  \<^verbatim>\<open>reflect.ValueOf(nil).Type()\<close> panics.\<close>

definition parse_output_any :: "goval \<Rightarrow> rows go" where
  "parse_output_any val =
    (case val of
      GSlice v \<Rightarrow> Ok [v]
    | GInt64 _ \<Rightarrow> Ok [[val]]
    | GFloat64 _ \<Rightarrow> Ok [[val]]
    | GString _ \<Rightarrow> Ok [[val]]
    | GBool _ \<Rightarrow> Ok [[val]]
    | GNil \<Rightarrow> Panic (PExplicit ''reflect.Value.Type'')
    | _ \<Rightarrow> Err (bare_err ''Parse not support %s''))"

definition redis_run_query :: "'w redis_do \<Rightarrow> conn_args \<Rightarrow> ('w, rows \<times> string list) goS" where
  "redis_run_query send arg =
    (if a_IsTransaction arg then failS (bare_err ''ERROR: RunExecute exec(tran multi) not support'')
     else bindS (wrapS ''query:[%s]'' (send (redis_command arg
         (case a_Args arg of Some (param # _) \<Rightarrow> param | _ \<Rightarrow> [])))) (\<lambda>val.
       bindS (liftS (wrap_err ''query:[%s]'' (parse_output_any val))) (\<lambda>buf.
         retS (buf, map (\<lambda>idx. itoa (int idx + 1)) [0..<length buf]))))"

text \<open>\<^verbatim>\<open>parseOutputStr\<close>, which nothing calls: the row \<open>idx\<close> of the caller's slice \<open>m\<close> gets the
  text of a scalar, and a slice one row per element.  Rows appended for an index past the end stay
  local, so the text put there is lost; the index that is the length is past the end of what was made.
  \<open>ff\<close> formats a float with two digits.\<close>

definition put_text :: "int \<Rightarrow> string \<Rightarrow> (string list list, unit) goS" where
  "put_text current s m =
    (if current < 0 \<or> current = int (length m) then (Panic PIndex, m)
     else if int (length m) < current then (Ok (), m)
     else (Ok (), m[nat current := m ! nat current @ [s]]))"

fun parse_output_str :: "(64 word \<Rightarrow> string) \<Rightarrow> goval \<Rightarrow> int \<Rightarrow> (string list list, unit) goS" and
  parse_output_strs :: "(64 word \<Rightarrow> string) \<Rightarrow> goval list \<Rightarrow> int \<Rightarrow> (string list list, unit) goS" where
  "parse_output_str ff (GInt64 v) idx = put_text idx (itoa (sint v))"
| "parse_output_str ff (GFloat64 v) idx = put_text idx (ff v)"
| "parse_output_str ff (GString v) idx = put_text idx v"
| "parse_output_str ff (GSlice vs) idx = parse_output_strs ff vs idx"
| "parse_output_str ff GNil idx = panicS (PExplicit ''reflect.Value.Type'')"
| "parse_output_str ff _ idx = failS (bare_err ''parseOutputStr not support %s'')"
| "parse_output_strs ff [] idx = retS ()"
| "parse_output_strs ff (v # vs) idx = bindS (parse_output_str ff v (idx + 1)) (\<lambda>_. parse_output_strs ff vs (idx + 1))"

section \<open>What is sent\<close>

text \<open>Sending commands one after the other, whatever the replies.\<close>

fun send_all :: "'w redis_do \<Rightarrow> goval list list \<Rightarrow> 'w \<Rightarrow> 'w" where
  "send_all send [] w = w"
| "send_all send (c # cs) w = send_all send cs (snd (send c w))"

lemma send_all_append: "send_all send (xs @ ys) w = send_all send ys (send_all send xs w)"
  by (induction xs arbitrary: w) auto

text \<open>The reply to command number \<open>i\<close> of a sequence.\<close>

definition reply :: "'w redis_do \<Rightarrow> goval list list \<Rightarrow> nat \<Rightarrow> 'w \<Rightarrow> goval go" where
  "reply send cmds i w = fst (send (cmds ! i) (send_all send (take i cmds) w))"

definition accepted :: "'a go \<Rightarrow> bool" where
  "accepted r \<longleftrightarrow> (\<exists>v. r = Ok v)"

lemma accepted_simps [simp]: "accepted (Ok v)" "\<not> accepted (Err e)" "\<not> accepted (Panic p)"
  by (simp_all add: accepted_def)

lemma reply_Cons [simp]:
  "reply send (c # cs) 0 w = fst (send c w)"
  "reply send (c # cs) (Suc i) w = reply send cs i (snd (send c w))"
  by (simp_all add: reply_def)

lemma reply_append:
  "i < length xs \<Longrightarrow> reply send (xs @ ys) i w = reply send xs i w"
  "reply send (xs @ y # ys) (length xs) w = fst (send y (send_all send xs w))"
  by (simp_all add: reply_def nth_append)

lemma all_less_Suc: "(\<forall>i < Suc n. P i) \<longleftrightarrow> P 0 \<and> (\<forall>i < n. P (Suc i))"
  by (metis less_Suc_eq_0_disj)

lemma redis_loop_prefix:
  assumes "redis_loop send arg ps w = (Ok eo, w')"
  shows "\<exists>k \<le> length ps. w' = send_all send (map (redis_command arg) (take k ps)) w \<and>
    (eo = None \<longrightarrow> k = length ps \<and> (\<forall>i < k. accepted (reply send (map (redis_command arg) ps) i w))) \<and>
    (eo \<noteq> None \<longrightarrow> 0 < k \<and> (\<forall>i < k. accepted (reply send (map (redis_command arg) ps) i w) \<longleftrightarrow> i < k - 1))"
  using assms
proof (induction ps arbitrary: w)
  case (Cons p ps)
  obtain r t where r: "send (redis_command arg p) w = (r, t)" by fastforce
  show ?case
  proof (cases r)
    case (Ok v)
    with r Cons.prems have "redis_loop send arg ps t = (Ok eo, w')" by simp
    from Cons.IH[OF this] obtain k where k: "k \<le> length ps"
      "w' = send_all send (map (redis_command arg) (take k ps)) t"
      "eo = None \<longrightarrow> k = length ps \<and> (\<forall>i < k. accepted (reply send (map (redis_command arg) ps) i t))"
      "eo \<noteq> None \<longrightarrow> 0 < k \<and> (\<forall>i < k. accepted (reply send (map (redis_command arg) ps) i t) \<longleftrightarrow> i < k - 1)"
      by blast
    from k r Ok show ?thesis by (intro exI[of _ "Suc k"]) (auto simp: all_less_Suc less_diff_conv)
  next
    case (Err e)
    with r Cons.prems show ?thesis by (intro exI[of _ 1]) auto
  next
    case (Panic x)
    with r Cons.prems show ?thesis by simp
  qed
qed simp

text \<open>C36: A transaction on Redis that the server opens sends \<^verbatim>\<open>MULTI\<close>, the commands of its rows up to and
  including the first one whose reply is an error, and then always \<^verbatim>\<open>EXEC\<close>, never
  \<^verbatim>\<open>DISCARD\<close>: a command that fails before it reaches the server leaves the earlier ones to
  be executed.  The call returns no error exactly when the last command and \<^verbatim>\<open>EXEC\<close> are
  accepted (the call does not panic, there is at least one row).\<close>

theorem redis_always_execs:
  assumes "a_Args arg = Some params" "params \<noteq> []" "a_IsTransaction arg"
    and "accepted (fst (send [GString ''MULTI''] w))"
    and "redis_run_execute send arg w = (r, w')" "\<not> is_panic r"
  shows "\<exists>k cmds. 0 < k \<and> k \<le> length params \<and>
    cmds = [GString ''MULTI''] # map (redis_command arg) (take k params) @ [[GString ''EXEC'']] \<and>
    w' = send_all send cmds w \<and>
    (\<forall>i < k. accepted (reply send cmds i w)) \<and>
    (k < length params \<longrightarrow> \<not> accepted (reply send cmds k w)) \<and>
    (r = Ok () \<longleftrightarrow> accepted (reply send cmds k w) \<and> accepted (reply send cmds (Suc k) w))"
proof -
  obtain v w1 where m: "send [GString ''MULTI''] w = (Ok v, w1)" using assms(4) by (auto simp: accepted_def prod_eq_iff)
  obtain p ps where ps: "params = p # ps" using assms(2) by (cases params) auto
  have run: "bindS (redis_loop send arg params) (\<lambda>loopRetErr.
        bindS (wrapS ''query:[%s]'' (send [GString ''EXEC''])) (\<lambda>_.
          case loopRetErr of None \<Rightarrow> retS () | Some e \<Rightarrow> failS (EWrap (Some e) ''query:[%s]''))) w1 = (r, w')"
    using assms(1,3,5) m by (simp add: redis_run_execute_def bindS_def wrapS_def ps)
  obtain x t where x: "redis_loop send arg params w1 = (x, t)" by fastforce
  have no_err: "redis_loop send arg qs u \<noteq> (Err e, u')" for qs u e u'
    by (induction qs arbitrary: u) (auto split: prod.splits go.splits)
  have "x \<noteq> Err e" for e using x no_err by blast
  moreover have "x \<noteq> Panic q" for q using x run assms(6) by (auto simp: bindS_def)
  ultimately obtain eo where eo: "x = Ok eo" by (cases x) auto
  from redis_loop_prefix[OF x[unfolded eo]] obtain k where k: "k \<le> length params"
    "t = send_all send (map (redis_command arg) (take k params)) w1"
    "eo = None \<longrightarrow> k = length params \<and> (\<forall>i < k. accepted (reply send (map (redis_command arg) params) i w1))"
    "eo \<noteq> None \<longrightarrow> 0 < k \<and> (\<forall>i < k. accepted (reply send (map (redis_command arg) params) i w1) \<longleftrightarrow> i < k - 1)"
    by blast
  let ?run = "map (redis_command arg) (take k params)"
  have "0 < k" using k(3,4) assms(2) by (cases eo) auto
  have taken: "reply send (map (redis_command arg) params) i w1 = reply send ?run i w1" if "i < k" for i
    using that k(1) by (simp add: reply_def take_map)
  have row: "reply send ([GString ''MULTI''] # ?run @ [[GString ''EXEC'']]) (Suc i) w = reply send ?run i w1" if "i < k" for i
    using that k(1) m by (simp add: reply_append)
  have exec: "reply send ([GString ''MULTI''] # ?run @ [[GString ''EXEC'']]) (Suc k) w = fst (send [GString ''EXEC''] t)"
    using reply_append(2)[of send ?run "[GString ''EXEC'']" "[]" w1] k(1,2) m by simp
  have last: "accepted (reply send ([GString ''MULTI''] # ?run @ [[GString ''EXEC'']]) k w) \<longleftrightarrow> eo = None"
  proof -
    obtain j where j: "k = Suc j" using \<open>0 < k\<close> by (cases k) auto
    have "accepted (reply send (map (redis_command arg) params) j w1) \<longleftrightarrow> eo = None"
      using k(3,4) j by (cases eo) simp_all
    with row[of j] taken[of j] j show ?thesis by (simp only: lessI)
  qed
  have earlier: "accepted (reply send ([GString ''MULTI''] # ?run @ [[GString ''EXEC'']]) i w)" if "i < k" for i
  proof (cases i)
    case (Suc j)
    with that k(3,4) have "accepted (reply send (map (redis_command arg) params) j w1)" by (cases eo) simp_all
    with row[of j] taken[of j] Suc that show ?thesis by (simp only: Suc_lessD)
  qed (simp add: m)
  obtain y u where y: "send [GString ''EXEC''] t = (y, u)" by fastforce
  from run x eo y assms(6) have u: "w' = u" "r = Ok () \<longleftrightarrow> eo = None \<and> accepted y"
    by (cases y; auto simp: bindS_def wrapS_def split: option.splits)+
  show ?thesis
    by (rule exI[of _ k], rule exI[of _ "[GString ''MULTI''] # ?run @ [[GString ''EXEC'']]"])
      (use \<open>0 < k\<close> k(1-4) last earlier exec u y m in \<open>auto simp: send_all_append\<close>)
qed

text \<open>A server that logs its commands and refuses the second row.\<close>

definition log_do :: "goval list list redis_do" where
  "log_do cmd log = (if last cmd = GString ''bad'' then Err (ESys ''redis'') else Ok (GString ''OK''), log @ [cmd])"

definition three_rows :: conn_args where
  "three_rows = \<lparr>a_Query = ''SET k'', a_Args = Some [[GString ''1''], [GString ''bad''], [GString ''3'']], a_IsTransaction = True\<rparr>"

lemma redis_always_execs_witness:
  "\<exists>k cmds. 0 < k \<and> k \<le> 3 \<and> fst (redis_run_execute log_do three_rows []) \<noteq> Ok () \<and>
    snd (redis_run_execute log_do three_rows []) = send_all log_do cmds [] \<and>
    (\<forall>i < k. accepted (reply log_do cmds i [])) \<and> last cmds = [GString ''EXEC'']"
proof -
  have r: "fst (redis_run_execute log_do three_rows []) \<noteq> Ok ()" "\<not> is_panic (fst (redis_run_execute log_do three_rows []))"
    by code_simp+
  have m: "accepted (fst (log_do [GString ''MULTI''] []))" by (simp add: log_do_def)
  have p: "a_Args three_rows = Some [[GString ''1''], [GString ''bad''], [GString ''3'']]" "a_IsTransaction three_rows"
    by (simp_all add: three_rows_def)
  from redis_always_execs[OF p(1) _ p(2) m surjective_pairing r(2)] obtain k cmds where
    "0 < k" "k \<le> length [[GString ''1''], [GString ''bad''], [GString ''3'']]"
    "cmds = [GString ''MULTI''] # map (redis_command three_rows) (take k [[GString ''1''], [GString ''bad''], [GString ''3'']]) @ [[GString ''EXEC'']]"
    "snd (redis_run_execute log_do three_rows []) = send_all log_do cmds []"
    "\<forall>i < k. accepted (reply log_do cmds i [])"
    by auto
  then show ?thesis using r(1) by (intro exI[of _ k] exI[of _ cmds]) simp
qed

section \<open>What comes back\<close>

text \<open>A query that succeeds gives one row, named by the number of the row, not of its cells.\<close>

lemma redis_query_one_row:
  "redis_run_query send arg w = (Ok (rows, names), w') \<Longrightarrow> \<exists>row. rows = [row] \<and> names = [itoa 1]"
  by (auto simp: redis_run_query_def parse_output_any_def split: if_splits goval.splits elim!: bindS_cases)

text \<open>Started with no rows, the unused text conversion panics on a scalar and drops the elements of a
  flat array.\<close>

lemma put_text_none: "0 < idx \<Longrightarrow> put_text idx s [] = (Ok (), [])"
  by (simp add: put_text_def)

lemma parse_output_str_empty:
  assumes "\<forall>v \<in> set vs. \<exists>s. v = GString s"
  shows "parse_output_str ff (GSlice vs) 0 [] = (Ok (), []) \<and> parse_output_str ff (GString s) 0 [] = (Panic PIndex, [])"
proof -
  have "parse_output_strs ff vs n [] = (Ok (), [])" if "0 \<le> n" for n
    using assms that by (induction vs arbitrary: n) (auto simp: bindS_def put_text_none)
  then show ?thesis by (simp add: put_text_def)
qed

end
