(* ===== verification/CassandraConn.thy ===== *)
theory CassandraConn
  imports Cfg
begin

text \<open>
  \<^verbatim>\<open>connpool/internal/connection/cassandra_conn.go\<close> over the record \<open>cql_session\<close> of the
  calls of the Cassandra client.
\<close>

section \<open>The driver\<close>

datatype cql_type =
  CqlVarchar | CqlText | CqlFloat | CqlDouble | CqlBlob | CqlBigInt | CqlInt | CqlSmallInt | CqlOther string

text \<open>An iterator: its columns, the rows its \<^verbatim>\<open>Scan\<close> fills in, and what
  \<^verbatim>\<open>Close\<close> would report of the query, which the driver never calls.\<close>

record cql_iter =
  ci_columns :: "(string \<times> cql_type) list"
  ci_scans :: rows
  ci_close :: "gerror option"

record 'w cql_session =
  cs_batch :: "(string \<times> goval list) list \<Rightarrow> ('w, unit) goS"
  cs_exec :: "string \<Rightarrow> goval list \<Rightarrow> ('w, unit) goS"
  cs_iter :: "string \<Rightarrow> goval list \<Rightarrow> 'w \<Rightarrow> cql_iter \<times> 'w"
  cs_close :: "'w \<Rightarrow> 'w"

definition cass_rows :: "conn_args \<Rightarrow> rows" where
  "cass_rows arg = (case a_Args arg of None \<Rightarrow> [] | Some rows \<Rightarrow> rows)"

definition cass_first :: "conn_args \<Rightarrow> goval list" where
  "cass_first arg = (case cass_rows arg of [] \<Rightarrow> [] | row # _ \<Rightarrow> row)"

definition cass_run_execute :: "'w cql_session \<Rightarrow> conn_args \<Rightarrow> ('w, unit) goS" where
  "cass_run_execute sess arg =
    wrapS ''exec failed''
      (if a_IsTransaction arg then cs_batch sess (map (\<lambda>row. (a_Query arg, row)) (cass_rows arg))
       else cs_exec sess (a_Query arg) (cass_first arg))"

fun make_row_buffer :: "(string \<times> cql_type) list \<Rightarrow> goval list go" where
  "make_row_buffer [] = Ok []"
| "make_row_buffer (col # cols) =
    bind_go (case snd col of
        CqlVarchar \<Rightarrow> Ok (GString [])
      | CqlText \<Rightarrow> Ok (GString [])
      | CqlFloat \<Rightarrow> Ok (GFloat64 0)
      | CqlDouble \<Rightarrow> Ok (GFloat64 0)
      | CqlBlob \<Rightarrow> Ok (GBytes [])
      | CqlBigInt \<Rightarrow> Ok (GInt64 0)
      | CqlInt \<Rightarrow> Ok (GInt 0)
      | CqlSmallInt \<Rightarrow> Ok (GInt 0)
      | CqlOther t \<Rightarrow> Err (bare_err ''not support type:%v'')) (\<lambda>v.
    bind_go (make_row_buffer cols) (\<lambda>vs. Ok (v # vs)))"

text \<open>The loop keeps the row just filled and makes a new buffer for the next.\<close>

fun cass_scan_loop :: "(string \<times> cql_type) list \<Rightarrow> rows \<Rightarrow> rows \<Rightarrow> rows go" where
  "cass_scan_loop cols [] ret = Ok ret"
| "cass_scan_loop cols (row # scans) ret =
    bind_go (wrap_err ''query cols get buffer failed '' (make_row_buffer cols)) (\<lambda>_.
      cass_scan_loop cols scans (ret @ [row]))"

definition cass_run_query :: "'w cql_session \<Rightarrow> conn_args \<Rightarrow> ('w, rows \<times> string list) goS" where
  "cass_run_query sess arg w =
    (case cs_iter sess (a_Query arg) (cass_first arg) w of (iter, w') \<Rightarrow>
      (bind_go (wrap_err ''query cols get buffer failed : '' (make_row_buffer (ci_columns iter))) (\<lambda>_.
       bind_go (cass_scan_loop (ci_columns iter) (ci_scans iter) []) (\<lambda>rows.
         Ok (rows, map fst (ci_columns iter)))), w'))"

definition cass_close :: "'w cql_session \<Rightarrow> ('w, unit) goS" where
  "cass_close sess w = (Ok (), cs_close sess w)"

section \<open>What a call does\<close>

definition cql_supported :: "cql_type \<Rightarrow> bool" where
  "cql_supported t = (case t of CqlOther _ \<Rightarrow> False | _ \<Rightarrow> True)"

lemma make_row_buffer_eq:
  "(if \<forall>c \<in> set cols. cql_supported (snd c) then \<exists>b. make_row_buffer cols = Ok b \<and> length b = length cols
    else make_row_buffer cols = Err (bare_err ''not support type:%v''))"
proof (induction cols)
  case (Cons c cols)
  then show ?case by (cases "snd c") (auto simp: cql_supported_def split: if_splits)
qed simp

lemma cass_scan_loop_eq: "make_row_buffer cols = Ok b \<Longrightarrow> cass_scan_loop cols scans ret = Ok (ret @ scans)"
  by (induction scans arbitrary: ret) auto

text \<open>A query gives the rows the iterator scanned and the columns' names when all column types are
  supported, and an error otherwise; the result does not depend on the error the iterator would
  report, so a query that fails in the middle is a shorter result, not an error.\<close>

theorem cass_query_spec:
  assumes "cs_iter sess (a_Query arg) (cass_first arg) w = (iter, w')"
  shows "cass_run_query sess arg w =
    (if \<forall>c \<in> set (ci_columns iter). cql_supported (snd c) then Ok (ci_scans iter, map fst (ci_columns iter))
     else Err (EWrap (Some (bare_err ''not support type:%v'')) ''query cols get buffer failed : ''), w')"
  using make_row_buffer_eq[of "ci_columns iter"] assms
  by (auto simp: cass_run_query_def cass_scan_loop_eq split: if_splits)

text \<open>Without a transaction only the first row of parameters is executed: the call does what it does
  for that row alone, and reports it as the success of all.\<close>

theorem cass_executes_first_row:
  assumes "a_Args arg = Some (row # rows)" "\<not> a_IsTransaction arg"
  shows "cass_run_execute sess arg = cass_run_execute sess (arg\<lparr>a_Args := Some [row]\<rparr>)"
  using assms by (simp add: cass_run_execute_def cass_first_def cass_rows_def)

text \<open>A session that counts its calls and whose query breaks after a row.\<close>

definition probe_cql :: "nat cql_session" where
  "probe_cql = \<lparr>cs_batch = \<lambda>b w. (Ok (), w + length b), cs_exec = \<lambda>q p w. (Ok (), w + 1),
    cs_iter = \<lambda>q p w. (\<lparr>ci_columns = [(''id'', CqlInt)], ci_scans = [[GInt 1]], ci_close = Some (ESys ''timeout'')\<rparr>, w + 1),
    cs_close = id\<rparr>"

definition cql_args :: conn_args where
  "cql_args = \<lparr>a_Query = ''insert'', a_Args = Some [[GInt 1], [GInt 2], [GInt 3]], a_IsTransaction = False\<rparr>"

lemma cass_query_spec_witness:
  "cass_run_query probe_cql cql_args 0 = (Ok ([[GInt 1]], [''id'']), 1)"
  using cass_query_spec[of probe_cql cql_args 0
      "\<lparr>ci_columns = [(''id'', CqlInt)], ci_scans = [[GInt 1]], ci_close = Some (ESys ''timeout'')\<rparr>" 1]
  by (simp add: probe_cql_def cql_supported_def)

lemma cass_executes_first_row_witness:
  "cass_run_execute probe_cql cql_args 0 = (Ok (), 1)"
proof -
  have "cass_run_execute probe_cql cql_args = cass_run_execute probe_cql (cql_args\<lparr>a_Args := Some [[GInt 1]]\<rparr>)"
    by (rule cass_executes_first_row[of _ _ "[[GInt 2], [GInt 3]]"]) (simp_all add: cql_args_def)
  moreover have "cass_run_execute probe_cql (cql_args\<lparr>a_Args := Some [[GInt 1]]\<rparr>) 0 = (Ok (), 1)" by code_simp
  ultimately show ?thesis by simp
qed

end
