(* ===== verification/KafkaConn.thy ===== *)
theory KafkaConn
  imports Cfg
begin

text \<open>
  \<^verbatim>\<open>connpool/internal/connection/kafka_conn.go\<close>: a connection that writes messages to a
  topic and reads a number of them back, over the record \<open>kafka_lib\<close> of the client's calls.
\<close>

section \<open>The client\<close>

datatype kafka_value = KString string | KBytes "8 word list"

record kafka_msg =
  km_timestamp :: int64
  km_topic :: string
  km_partition :: int64
  km_key :: "8 word list"
  km_value :: "8 word list"
  km_offset :: int64

text \<open>Receiving without waiting: nothing there, something, or a closed channel, whose nil pointer
  the code dereferences.\<close>

datatype 'a poll = PollNone | PollSome 'a | PollClosed

record ('w, 'p) kafka_lib =
  kf_new_consumer :: "string \<Rightarrow> ('w, unit) goS"
  kf_new_producer :: "string \<Rightarrow> ('w, unit) goS"
  kf_close_consumer :: "'w \<Rightarrow> 'w"
  kf_close_producer :: "'w \<Rightarrow> 'w"
  kf_begin :: "('w, unit) goS"
  kf_send :: "string \<Rightarrow> kafka_value list \<Rightarrow> ('w, unit) goS"
  kf_commit :: "('w, unit) goS"
  kf_abort :: "'w \<Rightarrow> 'w"
  kf_partitions :: "string \<Rightarrow> ('w, int64 list) goS"
  kf_consume :: "string \<Rightarrow> int64 \<Rightarrow> int64 \<Rightarrow> ('w, 'p) goS"
  kf_error :: "'p \<Rightarrow> 'w \<Rightarrow> gerror poll \<times> 'w"
  kf_message :: "'p \<Rightarrow> 'w \<Rightarrow> kafka_msg poll \<times> 'w"
  kf_close_partition :: "'p \<Rightarrow> 'w \<Rightarrow> 'w"

record kafka_conn =
  kc_consumerOffset :: int64
  kc_topic :: string

text \<open>\<^verbatim>\<open>sarama.OffsetNewest\<close> is -1 and \<^verbatim>\<open>OffsetOldest\<close> -2.  When there is
  no producer the error wraps the consumer's, which is nil.\<close>

definition new_kafka_conn :: "('w, 'p) kafka_lib \<Rightarrow> string \<Rightarrow> string \<Rightarrow> ('w, kafka_conn) goS" where
  "new_kafka_conn lib addr topic =
    bindS (wrapS ''kafka consumer get failed'' (kf_new_consumer lib addr)) (\<lambda>_ w.
      case kf_new_producer lib addr w of
        (Ok _, w') \<Rightarrow> (Ok \<lparr>kc_consumerOffset = - 1, kc_topic = topic\<rparr>, w')
      | (Err e, w') \<Rightarrow> (Err (bare_err ''kafka consumer get failed''), kf_close_consumer lib w')
      | (Panic p, w') \<Rightarrow> (Panic p, w'))"

definition kafka_close :: "('w, 'p) kafka_lib \<Rightarrow> ('w, unit) goS" where
  "kafka_close lib w = (Ok (), kf_close_producer lib (kf_close_consumer lib w))"

section \<open>Writing\<close>

text \<open>The messages of the rows: the first cell of each, rows with a nil first cell left out.\<close>

fun kafka_messages :: "rows \<Rightarrow> kafka_value list go" where
  "kafka_messages [] = Ok []"
| "kafka_messages ([] # rows) = Err (sentinel_err SentinelCatchError ''data is empty %d'')"
| "kafka_messages ((v # row) # rows) =
    (case v of
      GNil \<Rightarrow> kafka_messages rows
    | GString s \<Rightarrow> bind_go (kafka_messages rows) (\<lambda>ms. Ok (KString s # ms))
    | GBytes b \<Rightarrow> bind_go (kafka_messages rows) (\<lambda>ms. Ok (KBytes b # ms))
    | _ \<Rightarrow> Err (sentinel_err NotMatchingError ''convert failed data (only support string, []byte)%v''))"

text \<open>A call of the transaction; its error aborts.\<close>

definition or_abort :: "('w, 'p) kafka_lib \<Rightarrow> string \<Rightarrow> ('w, unit) goS \<Rightarrow> ('w, unit) goS" where
  "or_abort lib msg m w =
    (case m w of
      (Err e, w') \<Rightarrow> (Err (EWrap (Some e) msg), kf_abort lib w')
    | r \<Rightarrow> r)"

definition write_data :: "('w, 'p) kafka_lib \<Rightarrow> string \<Rightarrow> conn_args \<Rightarrow> ('w, unit) goS" where
  "write_data lib topicName arg =
    bindS (liftS (kafka_messages (case a_Args arg of None \<Rightarrow> [] | Some rows \<Rightarrow> rows))) (\<lambda>messages.
      if a_IsTransaction arg then
        bindS (or_abort lib ''txn is failed'' (kf_begin lib)) (\<lambda>_.
        bindS (or_abort lib ''tx send error, topic :%s'' (kf_send lib topicName messages)) (\<lambda>_.
          or_abort lib ''txn is commit failed'' (kf_commit lib)))
      else wrapS ''send error, topic :%s'' (kf_send lib topicName messages))"

definition kafka_run_execute :: "('w, 'p) kafka_lib \<Rightarrow> kafka_conn \<Rightarrow> conn_args \<Rightarrow> ('w, unit) goS" where
  "kafka_run_execute lib c arg = wrapS ''write data failed'' (write_data lib (kc_topic c) arg)"

section \<open>Reading\<close>

text \<open>The partitions, and those opened so far, which are closed at the end on every path.\<close>

fun open_partitions ::
    "('w, 'p) kafka_lib \<Rightarrow> string \<Rightarrow> int64 \<Rightarrow> int64 list \<Rightarrow> 'p list \<Rightarrow> 'w \<Rightarrow> (unit go \<times> 'p list) \<times> 'w" where
  "open_partitions lib topic offset [] opened w = ((Ok (), opened), w)"
| "open_partitions lib topic offset (part # parts) opened w =
    (case kf_consume lib topic part offset w of
      (Ok ch, w') \<Rightarrow> open_partitions lib topic offset parts (opened @ [ch]) w'
    | (Err e, w') \<Rightarrow> ((Err (EWrap (Some e) ''get consume channel %d''), opened), w')
    | (Panic p, w') \<Rightarrow> ((Panic p, opened), w'))"

fun poll_errors :: "('w, 'p) kafka_lib \<Rightarrow> 'p list \<Rightarrow> ('w, unit) goS" where
  "poll_errors lib [] = retS ()"
| "poll_errors lib (ch # chs) =
    (\<lambda>w. case kf_error lib ch w of
      (PollNone, w') \<Rightarrow> poll_errors lib chs w'
    | (PollSome e, w') \<Rightarrow> (Err (EWrap (Some e) ''consume send error string, topic :%s''), w')
    | (PollClosed, w') \<Rightarrow> (Panic PNilDeref, w'))"

text \<open>The messages of one round, the highest offset and the number of messages.\<close>

fun poll_messages ::
    "('w, 'p) kafka_lib \<Rightarrow> 'p list \<Rightarrow> kafka_msg list \<Rightarrow> int64 \<Rightarrow> int \<Rightarrow> ('w, kafka_msg list \<times> int64 \<times> int) goS" where
  "poll_messages lib [] got offset n = retS (got, offset, n)"
| "poll_messages lib (ch # chs) got offset n =
    (\<lambda>w. case kf_message lib ch w of
      (PollNone, w') \<Rightarrow> poll_messages lib chs got offset n w'
    | (PollSome m, w') \<Rightarrow> poll_messages lib chs (got @ [m])
        (if sint (km_offset m) > sint offset then km_offset m else offset) (n + 1) w'
    | (PollClosed, w') \<Rightarrow> (Panic PNilDeref, w'))"

text \<open>The loop: the break on a cancelled context only leaves its select, so the context is not an
  argument.\<close>

partial_function (option) poll_loop ::
    "('w, 'p) kafka_lib \<Rightarrow> 'p list \<Rightarrow> int \<Rightarrow> kafka_msg list \<Rightarrow> int64 \<Rightarrow> int \<Rightarrow> 'w \<Rightarrow>
     ((kafka_msg list \<times> int64) go \<times> 'w) option" where
  "poll_loop lib chs count got offset n w =
    (if n \<ge> count then Some (Ok (got, offset), w)
     else case poll_errors lib chs w of
        (Ok _, w1) \<Rightarrow>
          (case poll_messages lib chs got offset n w1 of
            (Ok (got', offset', n'), w2) \<Rightarrow> poll_loop lib chs count got' offset' n' w2
          | (Err e, w2) \<Rightarrow> Some (Err e, w2)
          | (Panic p, w2) \<Rightarrow> Some (Panic p, w2))
      | (Err e, w1) \<Rightarrow> Some (Err e, w1)
      | (Panic p, w1) \<Rightarrow> Some (Panic p, w1))"

definition close_partitions :: "('w, 'p) kafka_lib \<Rightarrow> 'p list \<Rightarrow> 'w \<Rightarrow> 'w" where
  "close_partitions lib opened w = foldr (kf_close_partition lib) opened w"

definition kafka_columns :: "string list" where
  "kafka_columns = [''timestamp'', ''topic'', ''partition'', ''key'', ''value'']"

text \<open>\<^verbatim>\<open>data\<close> is filled with five empty slices; the messages are appended to copies of them,
  so \<^verbatim>\<open>data\<close> stays as it was.  Their capacity \<^verbatim>\<open>count/10\<close>, a division
  that truncates, is negative from -10 on.  \<open>Ok None\<close> when the loop does not end.\<close>

definition read_data ::
    "('w, 'p) kafka_lib \<Rightarrow> string \<Rightarrow> int \<Rightarrow> int64 \<Rightarrow> ('w, (rows \<times> string list \<times> int64) option) goS" where
  "read_data lib topicName count offset =
    (if count \<le> - 10 then panicS PMakeSlice
     else bindS (wrapS ''get partition failed'' (kf_partitions lib topicName)) (\<lambda>partitions w.
       let offset = (if sint offset < - 1 then - 2 else offset) in
       case open_partitions lib topicName offset partitions [] w of
         ((Ok _, chs), w1) \<Rightarrow>
           (case poll_loop lib chs count [] 0 0 w1 of
             None \<Rightarrow> (Ok None, w1)
           | Some (Ok (got, currentOffset), w2) \<Rightarrow>
               (Ok (Some (replicate 5 [], kafka_columns, currentOffset)), close_partitions lib chs w2)
           | Some (Err e, w2) \<Rightarrow> (Err e, close_partitions lib chs w2)
           | Some (Panic p, w2) \<Rightarrow> (Panic p, close_partitions lib chs w2))
       | ((Err e, chs), w1) \<Rightarrow> (Err e, close_partitions lib chs w1)
       | ((Panic p, chs), w1) \<Rightarrow> (Panic p, close_partitions lib chs w1)))"

text \<open>\<open>parse\<close> is the JSON decoder reading the field \<^verbatim>\<open>count\<close> of the query.\<close>

definition kafka_run_query ::
    "(string \<Rightarrow> int go) \<Rightarrow> ('w, 'p) kafka_lib \<Rightarrow> conn_args \<Rightarrow> ('w \<times> kafka_conn, (rows \<times> string list) option) goS" where
  "kafka_run_query parse lib arg s =
    (case wrap_err ''unmarshal query failed, %s'' (parse (a_Query arg)) of
      Err e \<Rightarrow> (Err e, s)
    | Panic p \<Rightarrow> (Panic p, s)
    | Ok count \<Rightarrow>
        (case read_data lib (kc_topic (snd s)) count (kc_consumerOffset (snd s)) (fst s) of
          (Ok None, w) \<Rightarrow> (Ok None, (w, snd s))
        | (Ok (Some (rows, names, off)), w) \<Rightarrow>
            (Ok (Some (rows, names)), (w, (snd s)\<lparr>kc_consumerOffset := off\<rparr>))
        | (Err e, w) \<Rightarrow> (Err (EWrap (Some e) ''read data failed (topic:%s, offset:%d)''), (w, snd s))
        | (Panic p, w) \<Rightarrow> (Panic p, (w, snd s))))"

section \<open>What a query gives\<close>

lemma poll_loop_done: "count \<le> n \<Longrightarrow> poll_loop lib chs count got offset n w = Some (Ok (got, offset), w)"
  by (subst poll_loop.simps) simp

text \<open>Whatever messages it receives, a query that returns gives five rows without cells, which no
  plan can store under the five column names; the messages are lost.\<close>

theorem kafka_query_loses_messages:
  assumes "kafka_run_query parse lib arg s = (Ok (Some (rows, names)), s')"
  shows "rows = replicate 5 [] \<and> names = kafka_columns \<and> kc_topic (snd s') = kc_topic (snd s)"
  using assms
  by (auto simp: kafka_run_query_def read_data_def Let_def
      split: go.splits prod.splits option.splits if_splits elim!: bindS_cases)

text \<open>A topic on which nothing arrives and no error is reported, whatever is polled.\<close>

definition silent :: "('w, 'p) kafka_lib \<Rightarrow> ('w \<Rightarrow> bool) \<Rightarrow> bool" where
  "silent lib I \<longleftrightarrow>
    (\<forall>ch w. I w \<longrightarrow> fst (kf_error lib ch w) = PollNone \<and> I (snd (kf_error lib ch w))) \<and>
    (\<forall>ch w. I w \<longrightarrow> fst (kf_message lib ch w) = PollNone \<and> I (snd (kf_message lib ch w)))"

lemma silentD:
  assumes "silent lib I" "I w"
  shows "\<exists>w'. kf_error lib ch w = (PollNone, w') \<and> I w'" "\<exists>w'. kf_message lib ch w = (PollNone, w') \<and> I w'"
  using assms unfolding silent_def by (metis prod.collapse)+

lemma silent_errors: "silent lib I \<Longrightarrow> I w \<Longrightarrow> \<exists>w'. poll_errors lib chs w = (Ok (), w') \<and> I w'"
proof (induction chs arbitrary: w)
  case (Cons ch chs)
  from silentD(1)[OF Cons.prems] obtain w1 where "kf_error lib ch w = (PollNone, w1)" "I w1" by blast
  with Cons.IH[OF Cons.prems(1)] show ?case by simp
qed simp

lemma silent_messages:
  "silent lib I \<Longrightarrow> I w \<Longrightarrow> \<exists>w'. poll_messages lib chs got offset n w = (Ok (got, offset, n), w') \<and> I w'"
proof (induction chs arbitrary: w)
  case (Cons ch chs)
  from silentD(2)[OF Cons.prems] obtain w1 where "kf_message lib ch w = (PollNone, w1)" "I w1" by blast
  with Cons.IH[OF Cons.prems(1)] show ?case by simp
qed simp

lemma silent_loop:
  assumes s: "silent lib I" and run: "poll_loop lib chs count got offset n w = Some y"
  shows "I w \<longrightarrow> count \<le> n"
proof -
  have "l = lib \<longrightarrow> I w \<longrightarrow> count \<le> n" if "poll_loop l chs count got offset n w = Some y" for l
    using that
  proof (rule poll_loop.raw_induct[rotated], intro impI, goal_cases)
    case (1 f l chs count got offset n w y)
    from silent_errors[OF s 1(5), of chs] obtain w1 where w1: "poll_errors lib chs w = (Ok (), w1)" "I w1" by blast
    from silent_messages[OF s w1(2), of chs got offset n] obtain w2 where
      w2: "poll_messages lib chs got offset n w1 = (Ok (got, offset, n), w2)" "I w2" by blast
    show ?case
    proof (rule ccontr)
      assume "\<not> count \<le> n"
      with 1(2,4) w1 w2 have "f lib chs count got offset n w2 = Some y" by simp
      from 1(1)[OF this] w2(2) \<open>\<not> count \<le> n\<close> show False by simp
    qed
  qed
  with run show ?thesis by blast
qed

text \<open>C23: On a topic without news a query for at least one message never returns, whether or not its
  context is cancelled: the loop only ends with enough messages or an error.\<close>

theorem kafka_query_waits_for_ever:
  assumes "silent lib I" "parse (a_Query arg) = Ok count" "0 < count"
    and "kf_partitions lib (kc_topic c) w = (Ok parts, w1)"
    and "open_partitions lib (kc_topic c) (if sint (kc_consumerOffset c) < - 1 then - 2 else kc_consumerOffset c) parts [] w1 =
      ((Ok (), chs), w2)" "I w2"
  shows "kafka_run_query parse lib arg (w, c) = (Ok None, (w2, c))"
proof -
  have "poll_loop lib chs count [] 0 0 w2 = None"
    using silent_loop[OF assms(1), of chs count "[]" 0 0 w2] assms(3,6)
    by (cases "poll_loop lib chs count [] 0 0 w2") auto
  then show ?thesis
    using assms(2-5) by (simp add: kafka_run_query_def read_data_def bindS_def wrapS_def Let_def)
qed

text \<open>With a message on some partition in every round the loop ends after at most \<open>count - n\<close>
  rounds, with at least as many messages as were asked for.\<close>

definition busy :: "('w, 'p) kafka_lib \<Rightarrow> 'p list \<Rightarrow> ('w \<Rightarrow> bool) \<Rightarrow> bool" where
  "busy lib chs I \<longleftrightarrow>
    (\<forall>w got offset n. I w \<longrightarrow> (\<exists>w1 w2 got' offset' n'. poll_errors lib chs w = (Ok (), w1) \<and>
      poll_messages lib chs got offset n w1 = (Ok (got', offset', n'), w2) \<and> I w2 \<and> n < n' \<and>
      int (length got') - n' = int (length got) - n))"

text \<open>On a topic with news in every round the loop ends, with at least as many messages as were
  asked for.\<close>

theorem kafka_poll_ends:
  assumes "busy lib chs I" "I w"
  shows "\<exists>got offset w'. poll_loop lib chs count [] 0 0 w = Some (Ok (got, offset), w') \<and> count \<le> int (length got)"
proof -
  have "\<exists>got' offset' w'. poll_loop lib chs count got offset n w = Some (Ok (got', offset'), w') \<and> count \<le> int (length got')"
    if "I w" "int (length got) = n" for got offset n w
    using that
  proof (induction "nat (count - n)" arbitrary: got offset n w rule: less_induct)
    case less
    show ?case
    proof (cases "count \<le> n")
      case True
      with less.prems show ?thesis by (simp add: poll_loop_done)
    next
      case False
      obtain w1 w2 got' offset' n' where r: "poll_errors lib chs w = (Ok (), w1)"
        "poll_messages lib chs got offset n w1 = (Ok (got', offset', n'), w2)" "I w2" "n < n'"
        "int (length got') - n' = int (length got) - n"
        using assms(1) less.prems(1) unfolding busy_def by blast
      have "\<exists>got'' offset'' w'. poll_loop lib chs count got' offset' n' w2 = Some (Ok (got'', offset''), w') \<and> count \<le> int (length got'')"
        using False r less.prems(2) by (intro less.hyps) auto
      with False r show ?thesis by (subst poll_loop.simps) simp
    qed
  qed
  from this[of w "[]" 0] assms(2) show ?thesis by simp
qed

section \<open>The theorems at work\<close>

text \<open>One partition; the world counts the polls for messages, of which the first \<open>k\<close> are answered.\<close>

definition counting_kafka :: "nat \<Rightarrow> (nat, unit) kafka_lib" where
  "counting_kafka k = \<lparr>kf_new_consumer = \<lambda>a. retS (), kf_new_producer = \<lambda>a. retS (),
    kf_close_consumer = id, kf_close_producer = id, kf_begin = retS (), kf_send = \<lambda>t ms. retS (),
    kf_commit = retS (), kf_abort = id, kf_partitions = \<lambda>t. retS [0], kf_consume = \<lambda>t p off. retS (),
    kf_error = \<lambda>p w. (PollNone, w),
    kf_message = \<lambda>p w. (if w < k then PollSome \<lparr>km_timestamp = 0, km_topic = ''t'', km_partition = 0, km_key = [],
        km_value = [1], km_offset = word_of_nat w\<rparr> else PollNone, w + 1),
    kf_close_partition = \<lambda>p w. w\<rparr>"

definition count_query :: conn_args where
  "count_query = \<lparr>a_Query = ''count'', a_Args = None, a_IsTransaction = False\<rparr>"

definition topic_conn :: kafka_conn where
  "topic_conn = \<lparr>kc_consumerOffset = - 1, kc_topic = ''t''\<rparr>"

declare poll_loop.simps [code]

lemma kafka_query_loses_messages_witness:
  "\<exists>s'. kafka_run_query (\<lambda>q. Ok 2) (counting_kafka 2) count_query (0, topic_conn) = (Ok (Some (replicate 5 [], kafka_columns)), s') \<and>
    kc_topic (snd s') = ''t''"
proof -
  let ?r = "kafka_run_query (\<lambda>q. Ok 2) (counting_kafka 2) count_query (0, topic_conn)"
  have "(case fst ?r of Ok (Some (rows, names)) \<Rightarrow> True | _ \<Rightarrow> False)" by code_simp
  then obtain rows names where r: "?r = (Ok (Some (rows, names)), snd ?r)"
    by (auto simp: prod_eq_iff split: go.splits option.splits)
  from kafka_query_loses_messages[OF r] r show ?thesis
    by (intro exI[of _ "snd ?r"]) (auto simp: topic_conn_def)
qed

lemma kafka_query_waits_for_ever_witness:
  "kafka_run_query (\<lambda>q. Ok 2) (counting_kafka 0) count_query (0, topic_conn) = (Ok None, (0, topic_conn))"
  by (rule kafka_query_waits_for_ever[of _ "\<lambda>_. True" _ _ 2 _ _ "[0]" 0 "[()]"])
    (simp_all add: silent_def counting_kafka_def topic_conn_def)

lemma kafka_poll_ends_witness:
  "\<exists>got offset w'. poll_loop ((counting_kafka 0)\<lparr>kf_message := \<lambda>p w. (PollSome \<lparr>km_timestamp = 0, km_topic = ''t'', km_partition = 0,
      km_key = [], km_value = [1], km_offset = 7\<rparr>, w + 1)\<rparr>) [()] 3 [] 0 0 0 = Some (Ok (got, offset), w') \<and> 3 \<le> int (length got)"
  by (rule kafka_poll_ends[of _ _ "\<lambda>_. True"]) (simp_all add: busy_def counting_kafka_def)

end
