(* ===== verification/DriverReplies.thy ===== *)
theory DriverReplies
  imports ScriptPlan RedisConn KafkaConn
begin

text \<open>
  What a plan makes of the rows that the Redis and the Kafka driver return, if the pool hands them on:
  the column names and the cells of a row do not match in number.
\<close>

section \<open>What the first read of a run must have been given\<close>

lemma alloc_Ok_shape:
  "alloc_current_data_to_state i data cols seq b = (Ok (), b') \<Longrightarrow> data = [] \<or> length (hd data) = length cols"
  by (auto simp: alloc_current_data_to_state_def split: if_splits)

lemma read_conn_Ok:
  assumes "get_read_plan_data_from_conn ctl e param w = (Ok (data, cols, next), w')"
  shows "\<exists>w0 w1. ctl_query ctl (re_Ident e) \<lparr>a_Query = rd_Query (re_Plan e), a_Args = param,
    a_IsTransaction = rd_Tran (re_Plan e)\<rparr> w0 = (Ok (data, cols), w1)"
  using assms
  by (auto simp: get_read_plan_data_from_conn_def wrapS_Ok_iff elim!: bindS_cases split: option.splits) blast+

lemma read_loop_first:
  assumes "run_read_loop ctl seq ((i, e) # plans) prev s = (Ok out, s')"
  shows "\<exists>param data cols w0 w1. ctl_query ctl (re_Ident e) \<lparr>a_Query = rd_Query (re_Plan e), a_Args = param,
      a_IsTransaction = rd_Tran (re_Plan e)\<rparr> w0 = (Ok (data, cols), w1) \<and> (data = [] \<or> length (hd data) = length cols)"
  using assms
  by (auto simp: wrapS_Ok_iff elim!: bindS_cases dest!: on_buf_Ok on_world_Ok alloc_Ok_shape read_conn_Ok) blast+

lemma sp_run_first_read:
  assumes "sp_run ctl p now s = (Ok (), s')" "sc_Read p = e # es"
  shows "\<exists>param data cols w0 w1. ctl_query ctl (re_Ident e) \<lparr>a_Query = rd_Query (re_Plan e), a_Args = param,
      a_IsTransaction = rd_Tran (re_Plan e)\<rparr> w0 = (Ok (data, cols), w1) \<and> (data = [] \<or> length (hd data) = length cols)"
proof -
  from assms(1) obtain t d t' where "run_read ctl p now t = (Ok d, t')"
    by (auto simp: sp_run_def wrapS_Ok_iff elim!: bindS_cases)
  then obtain out t'' where "run_read_loop ctl now ((0, e) # enumerate 1 es) None t = (Ok out, t'')"
    using assms(2) by (auto simp: run_read_def simp del: run_read_loop.simps elim!: bindS_cases)
  from read_loop_first[OF this] show ?thesis .
qed

section \<open>Plans that read from Kafka and from Redis\<close>

text \<open>A script whose first read is a Kafka topic never runs without an error, whatever the topic
  holds: the driver returns five rows without cells under five column names, and the plan refuses them.\<close>

theorem kafka_plan_never_runs:
  assumes "sc_Read p = e # es"
    and "\<And>arg w d w'. ctl_query ctl (re_Ident e) arg w = (Ok d, w') \<Longrightarrow>
      \<exists>t t'. kafka_run_query parse lib arg t = (Ok (Some d), t')"
  shows "fst (sp_run ctl p now s) \<noteq> Ok ()"
proof
  assume "fst (sp_run ctl p now s) = Ok ()"
  then have "sp_run ctl p now s = (Ok (), snd (sp_run ctl p now s))" by (simp add: prod_eq_iff)
  from sp_run_first_read[OF this assms(1)] obtain arg w0 d cols w1 where
    "ctl_query ctl (re_Ident e) arg w0 = (Ok (d, cols), w1)" and len: "d = [] \<or> length (hd d) = length cols" by blast
  then obtain t t' where "kafka_run_query parse lib arg t = (Ok (Some (d, cols)), t')" using assms(2) by blast
  from kafka_query_loses_messages[OF this] len show False by (simp add: kafka_columns_def numeral_eq_Suc)
qed

text \<open>A script whose first read is a Redis command runs without an error only if the reply of that
  command is a single cell: the driver names the rows, always one, and not the cells.\<close>

theorem redis_plan_reads_one_cell:
  assumes "sc_Read p = e # es" "ctl_query ctl (re_Ident e) = redis_run_query send"
    and "sp_run ctl p now s = (Ok (), s')"
  shows "\<exists>arg x w0 w1. a_Query arg = rd_Query (re_Plan e) \<and> redis_run_query send arg w0 = (Ok ([[x]], [itoa 1]), w1)"
proof -
  from sp_run_first_read[OF assms(3,1)] obtain param w0 d cols w1 where
    q: "redis_run_query send \<lparr>a_Query = rd_Query (re_Plan e), a_Args = param, a_IsTransaction = rd_Tran (re_Plan e)\<rparr> w0
      = (Ok (d, cols), w1)" and len: "d = [] \<or> length (hd d) = length cols"
    unfolding assms(2) by blast
  from redis_query_one_row[OF q] obtain row where row: "d = [row]" "cols = [itoa 1]" by blast
  with len have "length row = 1" by simp
  then obtain x where "row = [x]" by (cases row) auto
  with q row show ?thesis
    by (intro exI[of _ "\<lparr>a_Query = rd_Query (re_Plan e), a_Args = param, a_IsTransaction = rd_Tran (re_Plan e)\<rparr>"] exI[of _ x]) auto
qed

section \<open>The theorems at work\<close>

text \<open>A script with one read of the client \<open>q\<close> and an empty \<^verbatim>\<open>[init]\<close> table.\<close>

definition client_ctl :: "(conn_args \<Rightarrow> ('w, rows \<times> string list) goS) \<Rightarrow> 'w plan_ctl" where
  "client_ctl q = \<lparr>ctl_get = (\<lambda>_ _. Ok ()), ctl_query = (\<lambda>_. q), ctl_exec = (\<lambda>_ _. retS ()),
    ctl_get_vm = (\<lambda>_ _. Ok ()), ctl_vm = (\<lambda>_ _ prev c. (Ok prev, c))\<rparr>"

definition client_script :: script_config where
  "client_script = probe_config (Some \<lparr>in_Self = [], in_Other = []\<rparr>) None"

definition client_state :: "'w \<Rightarrow> 'w run_state" where
  "client_state w = \<lparr>rs_world = w, rs_plan = rs_plan (probe_state 1)\<rparr>"

definition kafka_client :: "conn_args \<Rightarrow> (nat \<times> kafka_conn, rows \<times> string list) goS" where
  "kafka_client arg t = (case kafka_run_query (\<lambda>q. Ok 2) (counting_kafka 2) arg t of
      (Ok (Some d), t') \<Rightarrow> (Ok d, t')
    | (Panic p, t') \<Rightarrow> (Panic p, t')
    | (_, t') \<Rightarrow> (Err (ESys ''timeout''), t'))"

lemma kafka_plan_never_runs_witness:
  "fst (sp_run (client_ctl kafka_client) client_script 7 (client_state (0, topic_conn))) \<noteq> Ok ()"
  by (rule kafka_plan_never_runs[where parse = "\<lambda>q. Ok 2" and lib = "counting_kafka 2" and e = probe_read and es = "[]"])
    (auto simp: client_script_def probe_config_def client_ctl_def kafka_client_def
      split: prod.splits go.splits option.splits)

text \<open>A server whose every reply is one string.\<close>

lemma redis_plan_reads_one_cell_witness:
  "\<exists>arg x w0 w1. a_Query arg = ''select'' \<and> redis_run_query log_do arg w0 = (Ok ([[x]], [itoa 1]), w1)"
proof -
  let ?r = "sp_run (client_ctl (redis_run_query log_do)) client_script 7 (client_state [])"
  have "(case fst ?r of Ok _ \<Rightarrow> True | _ \<Rightarrow> False)" by code_simp
  then have "?r = (Ok (), snd ?r)" by (auto simp: prod_eq_iff split: go.splits)
  from redis_plan_reads_one_cell[OF _ _ this, of probe_read "[]"] show ?thesis
    by (simp add: client_script_def probe_config_def probe_read_def client_ctl_def)
qed

end
