(* ===== verification/LuaVm.thy ===== *)
theory LuaVm
  imports Cfg
begin

text \<open>
  \<^verbatim>\<open>vm/lua/lua_vm.go\<close>: the engine that runs the scripts of a plan.  The Lua interpreter
  is a library: a script is the tree of the calls it makes of the registered functions, for every
  answer it can get, and ends with a new state of the interpreter, of type \<open>'l\<close>, or with an error.
  Arithmetic on floats is the record \<open>lua_num\<close>.
\<close>

section \<open>Values\<close>

text \<open>A table is its array part, from index 1 on; \<open>LOther\<close> is a function, a userdata or a thread.\<close>

datatype lua_val =
  LNil | LBool bool | LNum "64 word" | LStr string | LTable "lua_val list" | LOther

text \<open>\<open>ln_of_int\<close> is the float of an integer, \<open>ln_to_int\<close> \<^verbatim>\<open>ToInteger\<close> on a number,
  \<open>ln_parse\<close> the number a string stands for, \<open>ln_length\<close> the raw length of a table, which with nil
  elements is one of its borders.\<close>

record lua_num =
  ln_of_int :: "int64 \<Rightarrow> 64 word"
  ln_to_int :: "64 word \<Rightarrow> int64 option"
  ln_parse :: "string \<Rightarrow> (64 word) option"
  ln_length :: "lua_val list \<Rightarrow> nat"

definition lua_to_integer :: "lua_num \<Rightarrow> lua_val \<Rightarrow> int64 option" where
  "lua_to_integer num v =
    (case v of LNum x \<Rightarrow> ln_to_int num x | LStr s \<Rightarrow> Option.bind (ln_parse num s) (ln_to_int num) | _ \<Rightarrow> None)"

fun lua_bytes :: "lua_num \<Rightarrow> lua_val list \<Rightarrow> (8 word list) go" where
  "lua_bytes num [] = Ok []"
| "lua_bytes num (v # vs) =
    (case lua_to_integer num v of
      None \<Rightarrow> Err (bare_err ''table element type is not number [%s]'')
    | Some byteData \<Rightarrow>
        if sint byteData > 256 \<or> sint byteData < 0
        then Err (bare_err ''table only support byte array [idx:%d, value:%d]'')
        else bind_go (lua_bytes num vs) (\<lambda>buf. Ok (ucast byteData # buf)))"

text \<open>Elements between the raw length and the end of the array part are not looked at; missing ones
  are nil.\<close>

definition raw_elements :: "lua_num \<Rightarrow> lua_val list \<Rightarrow> lua_val list" where
  "raw_elements num vs = (let n = ln_length num vs in take n vs @ replicate (n - length vs) LNil)"

definition convert_lua_to_go :: "lua_num \<Rightarrow> lua_val \<Rightarrow> goval go" where
  "convert_lua_to_go num v =
    (case v of
      LTable vs \<Rightarrow> bind_go (lua_bytes num (raw_elements num vs)) (\<lambda>buf. Ok (GBytes buf))
    | LNum x \<Rightarrow> Ok (GFloat64 x)
    | LStr s \<Rightarrow> (case ln_parse num s of Some x \<Rightarrow> Ok (GFloat64 x) | None \<Rightarrow> Ok (GString s))
    | LBool b \<Rightarrow> Ok (GBool b)
    | LNil \<Rightarrow> Ok GNil
    | LOther \<Rightarrow> Err (bare_err ''unsupported type at [%d]''))"

definition push_lua_from_go :: "lua_num \<Rightarrow> goval \<Rightarrow> lua_val go" where
  "push_lua_from_go num v =
    (case v of
      GNil \<Rightarrow> Ok LNil
    | GString s \<Rightarrow> Ok (LStr s)
    | GInt n \<Rightarrow> Ok (LNum (ln_of_int num n))
    | GInt64 n \<Rightarrow> Ok (LNum (ln_of_int num n))
    | GFloat64 x \<Rightarrow> Ok (LNum x)
    | GBool b \<Rightarrow> Ok (LBool b)
    | GBytes bs \<Rightarrow> Ok (LTable (map (\<lambda>b. LNum (ln_of_int num (ucast b))) bs))
    | _ \<Rightarrow> Err (bare_err ''luaVm not support type %s''))"

section \<open>The registered functions\<close>

record lua_vm =
  lv_input :: rows
  lv_output :: "rows option"
  lv_tempGPtrMap :: "(string, lua_val) sync_map"

fun push_row :: "lua_num \<Rightarrow> goval list \<Rightarrow> (lua_val list) go" where
  "push_row num [] = Ok []"
| "push_row num (v # vs) = bind_go (push_lua_from_go num v) (\<lambda>x. bind_go (push_row num vs) (\<lambda>xs. Ok (x # xs)))"

fun push_rows :: "lua_num \<Rightarrow> rows \<Rightarrow> (lua_val list) go" where
  "push_rows num [] = Ok []"
| "push_rows num (r # rs) = bind_go (push_row num r) (\<lambda>x. bind_go (push_rows num rs) (\<lambda>xs. Ok (LTable x # xs)))"

text \<open>\<^verbatim>\<open>oncecall_get_data\<close>: \<open>None\<close> is the Lua error.\<close>

definition lua_get_data :: "lua_num \<Rightarrow> lua_vm \<Rightarrow> lua_val option" where
  "lua_get_data num s = (case push_rows num (lv_input s) of Ok rs \<Rightarrow> Some (LTable rs) | _ \<Rightarrow> None)"

text \<open>The cells of one row: those before an error, at the error nil, which for a table is a nil byte
  slice, and then nil.\<close>

definition failed_cell :: "lua_val \<Rightarrow> goval" where
  "failed_cell v = (case v of LTable _ \<Rightarrow> GBytes [] | _ \<Rightarrow> GNil)"


fun take_row :: "lua_num \<Rightarrow> lua_val list \<Rightarrow> goval list \<times> gerror option" where
  "take_row num [] = ([], None)"
| "take_row num (v # vs) =
    (case convert_lua_to_go num v of
      Ok x \<Rightarrow> (case take_row num vs of (row, e) \<Rightarrow> (x # row, e))
    | Err e \<Rightarrow> (failed_cell v # replicate (length vs) GNil, Some e)
    | Panic p \<Rightarrow> (failed_cell v # replicate (length vs) GNil, None))"

text \<open>The rows: those before an error, then nil slices; the row with the error is kept.\<close>

fun take_rows :: "lua_num \<Rightarrow> lua_val list \<Rightarrow> rows \<times> gerror option" where
  "take_rows num [] = ([], None)"
| "take_rows num (v # vs) =
    (case v of
      LTable cells \<Rightarrow>
        (case take_row num (raw_elements num cells) of
          (row, Some e) \<Rightarrow> (row # replicate (length vs) [], Some e)
        | (row, None) \<Rightarrow> (case take_rows num vs of (out, e) \<Rightarrow> (row # out, e)))
    | _ \<Rightarrow> (replicate (length (v # vs)) [], Some (bare_err ''row %d is not a table'')))"

text \<open>\<^verbatim>\<open>oncecall_put_data\<close>: whether it returned, and the state.\<close>

definition lua_put_data :: "lua_num \<Rightarrow> lua_val \<Rightarrow> lua_vm \<Rightarrow> bool \<times> lua_vm" where
  "lua_put_data num v s =
    (case v of
      LTable rs \<Rightarrow> (case take_rows num (raw_elements num rs) of (out, e) \<Rightarrow> (e = None, s\<lparr>lv_output := Some out\<rparr>))
    | _ \<Rightarrow> (False, s))"

section \<open>Running a script\<close>

text \<open>The tree of a script.  A call of a function of the map gives its outcome: nothing when the key
  is no string (which is logged), otherwise what the typed map gives; a value that is nil makes its
  type assertion panic.  What the library makes of a panic is part of the tree.\<close>

datatype 'l lua_prog =
  Finish 'l
| Raise gerror 'l
| Crash panic
| GetData "lua_val option \<Rightarrow> 'l lua_prog"
| PutData lua_val "bool \<Rightarrow> 'l lua_prog"
| MapGet "string option" "lua_val go option \<Rightarrow> 'l lua_prog"
| MapSet "string option" lua_val "'l lua_prog"
| MapDel "string option" "'l lua_prog"

definition lua_map_get :: "string option \<Rightarrow> lua_vm \<Rightarrow> lua_val go option" where
  "lua_map_get key s =
    map_option (\<lambda>k. bind_go (sm_load (\<lambda>v. v = LNil) (lv_tempGPtrMap s) k)
      (\<lambda>r. Ok (case r of None \<Rightarrow> LNil | Some v \<Rightarrow> v))) key"

definition lua_map_set :: "string option \<Rightarrow> lua_val \<Rightarrow> lua_vm \<Rightarrow> lua_vm" where
  "lua_map_set key v s =
    (case key of None \<Rightarrow> s | Some k \<Rightarrow> s\<lparr>lv_tempGPtrMap := sm_store (lv_tempGPtrMap s) k v\<rparr>)"

definition lua_map_del :: "string option \<Rightarrow> lua_vm \<Rightarrow> lua_vm" where
  "lua_map_del key s =
    (case key of None \<Rightarrow> s | Some k \<Rightarrow> s\<lparr>lv_tempGPtrMap := sm_delete (lv_tempGPtrMap s) k\<rparr>)"

primrec run_lua :: "lua_num \<Rightarrow> 'l lua_prog \<Rightarrow> lua_vm \<Rightarrow> ('l \<times> gerror option) go \<times> lua_vm" where
  "run_lua num (Finish l) s = (Ok (l, None), s)"
| "run_lua num (Raise e l) s = (Ok (l, Some e), s)"
| "run_lua num (Crash p) s = (Panic p, s)"
| "run_lua num (GetData f) s = run_lua num (f (lua_get_data num s)) s"
| "run_lua num (PutData v f) s = run_lua num (f (fst (lua_put_data num v s))) (snd (lua_put_data num v s))"
| "run_lua num (MapGet key f) s = run_lua num (f (lua_map_get key s)) s"
| "run_lua num (MapSet key v p) s = run_lua num p (lua_map_set key v s)"
| "run_lua num (MapDel key p) s = run_lua num p (lua_map_del key s)"

text \<open>\<open>interp\<close> is the interpreter: the tree of a script in a state.  The state of the engine is the
  interpreter's and the fields of \<open>lua_vm\<close>.\<close>

definition lua_do ::
    "lua_num \<Rightarrow> (string \<Rightarrow> 'l \<Rightarrow> 'l lua_prog) \<Rightarrow> (string, lua_val) sync_map \<Rightarrow> string \<Rightarrow> rows \<Rightarrow>
     ('l \<times> lua_vm, rows option) goS" where
  "lua_do num interp cache script data st =
    (case run_lua num (interp script (fst st)) ((snd st)\<lparr>lv_input := data, lv_tempGPtrMap := cache\<rparr>) of
      (Panic p, s) \<Rightarrow> (Panic p, (fst st, s))
    | (Err e, s) \<Rightarrow> (Err e, (fst st, s))
    | (Ok (l, Some e), s) \<Rightarrow> (Err (EWrap (Some e) ''luaVm Run failed''), (l, s\<lparr>lv_input := []\<rparr>))
    | (Ok (l, None), s) \<Rightarrow>
        let s = s\<lparr>lv_input := []\<rparr> in
        (case lv_output s of
          Some (r # rs) \<Rightarrow> (Ok (Some (r # rs)), (l, s\<lparr>lv_output := None\<rparr>))
        | _ \<Rightarrow> (Ok None, (l, s))))"

definition new_lua_vm :: lua_vm where
  "new_lua_vm = \<lparr>lv_input = [], lv_output = None, lv_tempGPtrMap = new_sync_map\<rparr>"

section \<open>Values there and back\<close>

text \<open>What a value becomes on its way through a script that hands it on unchanged: an integer is a
  float, and so is a string that reads as a number.\<close>

definition lua_image :: "lua_num \<Rightarrow> goval \<Rightarrow> goval" where
  "lua_image num v =
    (case v of
      GInt n \<Rightarrow> GFloat64 (ln_of_int num n)
    | GInt64 n \<Rightarrow> GFloat64 (ln_of_int num n)
    | GString s \<Rightarrow> (case ln_parse num s of None \<Rightarrow> v | Some x \<Rightarrow> GFloat64 x)
    | _ \<Rightarrow> v)"

text \<open>What is documented of numbers and tables: the integers of a byte survive the conversion to a
  float, and the length of a table without nil elements is their number.\<close>

definition sane_num :: "lua_num \<Rightarrow> bool" where
  "sane_num num \<longleftrightarrow>
    (\<forall>b :: 8 word. ln_to_int num (ln_of_int num (ucast b)) = Some (ucast b)) \<and>
    (\<forall>vs. LNil \<notin> set vs \<longrightarrow> ln_length num vs = length vs)"

lemma raw_elements_full: "sane_num num \<Longrightarrow> LNil \<notin> set vs \<Longrightarrow> raw_elements num vs = vs"
  by (simp add: sane_num_def raw_elements_def)

lemma byte_in_int64: "sint (ucast (b :: 8 word) :: int64) = uint b" "ucast (ucast (b :: 8 word) :: int64) = b"
proof -
  have b: "uint b < 256" using uint_lt2p[of b] by simp
  then have u: "uint (ucast b :: int64) = uint b"
    by (simp add: unsigned_ucast_eq take_bit_int_eq_self)
  have "- 9223372036854775808 \<le> uint b" using uint_ge_0[of b] by linarith
  with b have "signed_take_bit 63 (uint b) = uint b"
    using signed_take_bit_int_eq_self[of 63 "uint b"] by simp
  with u show "sint (ucast b :: int64) = uint b" by (simp add: sint_uint)
  have "uint (ucast (ucast b :: int64) :: 8 word) = take_bit LENGTH(8) (uint (ucast b :: int64))"
    by (rule unsigned_ucast_eq)
  also have "\<dots> = uint b" unfolding u using b by (simp add: take_bit_int_eq_self)
  finally show "ucast (ucast b :: int64) = b" by (rule word_uint_eqI)
qed

lemma lua_bytes_of_bytes:
  assumes "sane_num num"
  shows "lua_bytes num (map (\<lambda>b. LNum (ln_of_int num (ucast b))) bs) = Ok bs"
proof (induction bs)
  case (Cons b bs)
  have "uint b < 256" using uint_lt2p[of b] by simp
  then have "0 \<le> sint (ucast b :: int64)" "sint (ucast b :: int64) \<le> 256" by (simp_all add: byte_in_int64)
  with Cons assms show ?case
    by (simp add: lua_to_integer_def sane_num_def byte_in_int64(2))
qed simp

text \<open>C25: A value a script gets and puts back unchanged comes out as itself, except that integers and
  strings that read as numbers come out as floats; byte slices survive.\<close>

theorem lua_value_roundtrip:
  assumes "sane_num num" "push_lua_from_go num v = Ok x"
  shows "convert_lua_to_go num x = Ok (lua_image num v)"
proof (cases v)
  case (GBytes bs)
  with assms have "x = LTable (map (\<lambda>b. LNum (ln_of_int num (ucast b))) bs)" by (simp add: push_lua_from_go_def)
  moreover have "LNil \<notin> set (map (\<lambda>b. LNum (ln_of_int num (ucast b))) bs)" by auto
  ultimately show ?thesis
    using raw_elements_full[OF assms(1)] lua_bytes_of_bytes[OF assms(1)] GBytes
    by (simp add: convert_lua_to_go_def lua_image_def)
qed (use assms(2) in \<open>auto simp: push_lua_from_go_def convert_lua_to_go_def lua_image_def split: option.splits\<close>)

section \<open>What a script can give\<close>

definition lua_cell :: "goval \<Rightarrow> bool" where
  "lua_cell v = (case v of GNil \<Rightarrow> True | GBool _ \<Rightarrow> True | GFloat64 _ \<Rightarrow> True | GString _ \<Rightarrow> True | GBytes _ \<Rightarrow> True | _ \<Rightarrow> False)"

definition lua_rows :: "rows \<Rightarrow> bool" where
  "lua_rows rs \<longleftrightarrow> (\<forall>r \<in> set rs. \<forall>v \<in> set r. lua_cell v)"

definition lua_typed :: "lua_vm \<Rightarrow> bool" where
  "lua_typed s \<longleftrightarrow> (case lv_output s of None \<Rightarrow> True | Some rs \<Rightarrow> lua_rows rs)"

lemma lua_cell_convert: "convert_lua_to_go num v = Ok x \<Longrightarrow> lua_cell x"
  by (cases v) (auto simp: convert_lua_to_go_def lua_cell_def bind_go_Ok_iff split: option.splits)

lemma lua_cell_failed: "lua_cell GNil" "lua_cell (failed_cell v)"
  by (cases v; simp add: lua_cell_def failed_cell_def)+

lemma lua_cells_row: "x \<in> set (fst (take_row num vs)) \<Longrightarrow> lua_cell x"
  by (induction vs) (auto simp: lua_cell_convert lua_cell_failed split: go.splits prod.splits)

lemma lua_rows_take: "lua_rows (fst (take_rows num vs))"
proof (induction vs)
  case (Cons v vs)
  show ?case
  proof (cases v)
    case (LTable cells)
    obtain row e where r: "take_row num (raw_elements num cells) = (row, e)" by fastforce
    have "\<forall>x \<in> set row. lua_cell x" using lua_cells_row[of _ num "raw_elements num cells"] r by simp
    with Cons LTable r show ?thesis by (cases e) (auto simp: lua_rows_def split: prod.splits)
  qed (auto simp: lua_rows_def)
qed (simp add: lua_rows_def)

lemma lua_typed_put: "lua_typed s \<Longrightarrow> lua_typed (snd (lua_put_data num v s))"
  using lua_rows_take[of num]
  by (auto simp: lua_put_data_def lua_typed_def split: lua_val.splits prod.splits) (metis fst_conv)

lemma lua_typed_map [simp]: "lua_typed (lua_map_set k v s) = lua_typed s" "lua_typed (lua_map_del k s) = lua_typed s"
  by (simp_all add: lua_typed_def lua_map_set_def lua_map_del_def split: option.split)

lemma lua_typed_run: "lua_typed s \<Longrightarrow> lua_typed (snd (run_lua num prog s))"
  by (induction prog arbitrary: s) (auto simp: lua_typed_put)

text \<open>C24: Whatever a script does, the rows it gives the plan hold nothing but nil, booleans, 64-bit
  floats, strings and byte slices; in particular a plan never gets an integer from a script.  The
  engine keeps its pending rows of these types from call to call.\<close>

theorem lua_output_types:
  assumes "lua_typed (snd st)" "lua_do num interp cache script data st = (r, st')"
  shows "lua_typed (snd st') \<and> (\<forall>rs. r = Ok (Some rs) \<longrightarrow> lua_rows rs)"
proof -
  let ?s = "(snd st)\<lparr>lv_input := data, lv_tempGPtrMap := cache\<rparr>"
  obtain x s where x: "run_lua num (interp script (fst st)) ?s = (x, s)" by fastforce
  have "lua_typed ?s" using assms(1) by (simp add: lua_typed_def)
  then have "lua_typed s" using lua_typed_run[of ?s num "interp script (fst st)"] x by simp
  with x assms(2) show ?thesis
    by (auto simp: lua_do_def lua_typed_def Let_def split: go.splits prod.splits option.splits list.splits)
qed

section \<open>Rows left over\<close>

text \<open>Rows that a script has put before it fails stay in the engine: the call that fails reports
  the error, and the next script that puts nothing itself returns these rows as its own.\<close>

theorem lua_stale_output:
  assumes put: "lua_put_data num v (s\<lparr>lv_input := data, lv_tempGPtrMap := cache\<rparr>) = (ok, s1)" "lv_output s1 = Some rows" "rows \<noteq> []"
    and first: "interp script l = PutData v (\<lambda>_. Raise e l1)"
    and second: "interp script' l1 = Finish l2"
  shows "\<exists>st st'. lua_do num interp cache script data (l, s) = (Err (EWrap (Some e) ''luaVm Run failed''), st) \<and>
    lua_do num interp cache' script' data' st = (Ok (Some rows), st')"
  using assms by (cases rows) (simp_all add: lua_do_def Let_def)

text \<open>A fresh engine, or one whose last call succeeded with rows, has none left over; then a call gives
  just what its own script put last.\<close>

lemma lua_do_clears:
  assumes "lua_do num interp cache script data st = (Ok (Some rows), st')"
  shows "lv_output (snd st') = None"
  using assms by (auto simp: lua_do_def Let_def split: go.splits prod.splits option.splits list.splits)

lemma lua_no_put_no_rows:
  assumes "lv_output (snd st) = None" "interp script (fst st) = Finish l"
  shows "fst (lua_do num interp cache script data st) = Ok None"
  using assms by (simp add: lua_do_def Let_def)

section \<open>The theorems at work\<close>

definition small_num :: lua_num where
  "small_num = \<lparr>ln_of_int = id, ln_to_int = Some, ln_parse = (\<lambda>s. case atoi s of Ok i \<Rightarrow> Some (word_of_int i) | _ \<Rightarrow> None),
    ln_length = length\<rparr>"

text \<open>The bound of a byte lets 256 through, which becomes 0.\<close>

lemma byte_256_is_0: "convert_lua_to_go small_num (LTable [LNum 256]) = Ok (GBytes [0])"
  by code_simp

definition two_scripts :: "string \<Rightarrow> unit \<Rightarrow> unit lua_prog" where
  "two_scripts script l =
    (if script = ''bad'' then PutData (LTable [LTable [LNum 7]]) (\<lambda>_. Raise (ESys ''lua'') ()) else Finish ())"

lemma lua_value_roundtrip_witness:
  "convert_lua_to_go small_num (LStr ''12'') = Ok (GFloat64 12) \<and>
   convert_lua_to_go small_num (LTable [LNum 200, LNum 3]) = Ok (GBytes [200, 3])"
proof -
  have sane: "sane_num small_num" by (simp add: sane_num_def small_num_def)
  have 1: "push_lua_from_go small_num (GString ''12'') = Ok (LStr ''12'')"
    and 2: "push_lua_from_go small_num (GBytes [200, 3]) = Ok (LTable [LNum 200, LNum 3])" by code_simp+
  have "lua_image small_num (GString ''12'') = GFloat64 12" by code_simp
  with lua_value_roundtrip[OF sane 1] lua_value_roundtrip[OF sane 2] show ?thesis by (simp add: lua_image_def)
qed

lemma lua_output_types_witness:
  "lua_rows [[GFloat64 7]]"
proof -
  let ?i = "\<lambda>script l. PutData (LTable [LTable [LNum 7]]) (\<lambda>_. Finish ())"
  have "fst (lua_do small_num ?i [] ''s'' [] ((), new_lua_vm)) = Ok (Some [[GFloat64 7]])" by code_simp
  moreover have "lua_typed (snd ((), new_lua_vm))" by (simp add: lua_typed_def new_lua_vm_def)
  ultimately show ?thesis
    using lua_output_types[of "((), new_lua_vm)" small_num ?i "[]" "''s''" "[]", OF _ surjective_pairing] by blast
qed

lemma lua_stale_output_witness:
  "\<exists>st st'. lua_do small_num two_scripts [] ''bad'' [] ((), new_lua_vm) = (Err (EWrap (Some (ESys ''lua'')) ''luaVm Run failed''), st) \<and>
    lua_do small_num two_scripts [] ''good'' [[GInt 1]] st = (Ok (Some [[GFloat64 7]]), st')"
proof (rule lua_stale_output[of small_num "LTable [LTable [LNum 7]]"])
  show "lua_put_data small_num (LTable [LTable [LNum 7]]) (new_lua_vm\<lparr>lv_input := [], lv_tempGPtrMap := []\<rparr>) =
      (True, new_lua_vm\<lparr>lv_input := [], lv_tempGPtrMap := [], lv_output := Some [[GFloat64 7]]\<rparr>)"
    by (simp add: lua_put_data_def raw_elements_def small_num_def convert_lua_to_go_def)
qed (simp_all add: two_scripts_def)

end
