(* ===== verification/FileLogger.thy ===== *)
theory FileLogger
  imports RotateWriter Cfg
begin

text \<open>
  \<^verbatim>\<open>extension/log/file.go\<close>: a logger that starts at its first line, with one rotating file
  per level or, without a directory, on the console.  The logging library formats a line (\<open>le_enc\<close>)
  and hands it to the sinks whose condition holds; an error of a sink is dropped.
\<close>

section \<open>The logger\<close>

datatype level = DebugLevel | InfoLevel | WarnLevel | ErrorLevel

definition get_level_from_args :: "string \<Rightarrow> level" where
  "get_level_from_args l =
    (if l = ''info'' then InfoLevel else if l = ''debug'' then DebugLevel
     else if l = ''warn'' then WarnLevel else ErrorLevel)"

definition level_rank :: "level \<Rightarrow> nat" where
  "level_rank l = (case l of DebugLevel \<Rightarrow> 0 | InfoLevel \<Rightarrow> 1 | WarnLevel \<Rightarrow> 2 | ErrorLevel \<Rightarrow> 3)"

text \<open>\<open>le_abs\<close> is \<^verbatim>\<open>filepath.Abs\<close>, \<open>le_stat\<close> whether a name is a directory, if it exists,
  \<open>le_build\<close> the library's start of the console logger.\<close>

record log_env =
  le_abs :: "string \<Rightarrow> string go"
  le_stat :: "string \<Rightarrow> bool option"
  le_build :: "unit go"
  le_enc :: "level \<Rightarrow> string \<Rightarrow> goval list \<Rightarrow> string"

text \<open>The sinks: the console from a level on, or the four files.\<close>

datatype log_sink = Console level | Files rotate_writer rotate_writer rotate_writer rotate_writer

record zap_logger =
  zl_Dir :: string
  zl_Name :: string
  zl_Level :: string
  zl_MaxSize :: int
  zl_BackUp :: int
  zl_initFlag :: bool
  zl_l :: "log_sink option"
  zl_closeFn :: bool

record log_world =
  lw_fs :: fs
  lw_console :: "string list"

type_synonym log_state = "zap_logger \<times> log_world"

text \<open>\<^verbatim>\<open>initGetFile\<close>: the limit is multiplied as a 64-bit number.\<close>

definition log_name :: "string \<Rightarrow> string \<Rightarrow> string \<Rightarrow> string" where
  "log_name logDir name level = logDir @ ''/'' @ name @ ''.'' @ level @ ''.log''"

definition init_get_file :: "string \<Rightarrow> string \<Rightarrow> string \<Rightarrow> int \<Rightarrow> int \<Rightarrow> (log_world, rotate_writer) goS" where
  "init_get_file logDir name level maxsize backup w =
    (case new_rotate_writer (log_name logDir name level) (sint (word_of_int (maxsize * 1024) :: int64)) backup (lw_fs w) of
      (r, fs) \<Rightarrow> (r, w\<lparr>lw_fs := fs\<rparr>))"

text \<open>An error of the start is a panic with its text.\<close>

definition must :: "(log_world, 'a) goS \<Rightarrow> (log_world, 'a) goS" where
  "must m w = (case m w of (Err e, w') \<Rightarrow> (Panic (PExplicit ''ZapLogExtension Init Panic: ''), w') | r \<Rightarrow> r)"

definition init_files :: "log_env \<Rightarrow> zap_logger \<Rightarrow> (log_world, log_sink) goS" where
  "init_files env z =
    bindS (must (liftS (le_abs env (zl_Dir z)))) (\<lambda>dir.
    bindS (must (liftS (case le_stat env dir of None \<Rightarrow> Err (ESys ''stat'') | Some True \<Rightarrow> Ok () | Some False \<Rightarrow> Err (ESys ''not dir'')))) (\<lambda>_.
    bindS (must (init_get_file dir (zl_Name z) ''debug'' (zl_MaxSize z) (zl_BackUp z))) (\<lambda>debugF.
    bindS (must (init_get_file dir (zl_Name z) ''info'' (zl_MaxSize z) (zl_BackUp z))) (\<lambda>infoF.
    bindS (must (init_get_file dir (zl_Name z) ''warn'' (zl_MaxSize z) (zl_BackUp z))) (\<lambda>warnF.
    bindS (must (init_get_file dir (zl_Name z) ''error'' (zl_MaxSize z) (zl_BackUp z))) (\<lambda>errorF.
      retS (Files debugF infoF warnF errorF)))))))"

text \<open>\<^verbatim>\<open>init\<close>: the deferred function sets the flag whatever happens.\<close>

definition zap_init :: "log_env \<Rightarrow> (log_state, unit) goS" where
  "zap_init env s =
    (case s of (z, w) \<Rightarrow>
      if zl_initFlag z then (Ok (), s)
      else let z = z\<lparr>zl_initFlag := True\<rparr> in
        if zl_Dir z = [] then
          (case must (liftS (le_build env)) w of
            (Ok _, w') \<Rightarrow> (Ok (), (z\<lparr>zl_l := Some (Console (get_level_from_args (zl_Level z)))\<rparr>, w'))
          | (Err e, w') \<Rightarrow> (Err e, (z, w'))
          | (Panic p, w') \<Rightarrow> (Panic p, (z, w')))
        else
          (case init_files env z w of
            (Ok sink, w') \<Rightarrow> (Ok (), (z\<lparr>zl_l := Some sink, zl_closeFn := True\<rparr>, w'))
          | (Err e, w') \<Rightarrow> (Err e, (z, w'))
          | (Panic p, w') \<Rightarrow> (Panic p, (z, w'))))"

text \<open>Writing a line to one file; the error of \<^verbatim>\<open>Write\<close> is dropped.\<close>

definition write_line :: "string \<Rightarrow> rotate_writer \<Rightarrow> log_world \<Rightarrow> rotate_writer \<times> log_world" where
  "write_line line f w = (case rw_write line (f, lw_fs w) of (_, (f', fs)) \<Rightarrow> (f', w\<lparr>lw_fs := fs\<rparr>))"

definition emit :: "level \<Rightarrow> string \<Rightarrow> log_sink \<Rightarrow> log_world \<Rightarrow> log_sink \<times> log_world" where
  "emit lvl line sink w =
    (case sink of
      Console least \<Rightarrow> (sink, if level_rank least \<le> level_rank lvl then w\<lparr>lw_console := lw_console w @ [line]\<rparr> else w)
    | Files d i wa e \<Rightarrow>
        (case lvl of
          DebugLevel \<Rightarrow> (case write_line line d w of (f, w') \<Rightarrow> (Files f i wa e, w'))
        | InfoLevel \<Rightarrow> (case write_line line i w of (f, w') \<Rightarrow> (Files d f wa e, w'))
        | WarnLevel \<Rightarrow> (case write_line line wa w of (f, w') \<Rightarrow> (Files d i f e, w'))
        | ErrorLevel \<Rightarrow> (case write_line line e w of (f, w') \<Rightarrow> (Files d i wa f, w'))))"

text \<open>\<^verbatim>\<open>Debug\<close>, \<^verbatim>\<open>Info\<close>, \<^verbatim>\<open>Warn\<close> and \<^verbatim>\<open>Error\<close>: the parameters are
  passed on as one slice.\<close>

definition zap_log :: "log_env \<Rightarrow> level \<Rightarrow> string \<Rightarrow> goval list \<Rightarrow> (log_state, unit) goS" where
  "zap_log env lvl msg param =
    bindS (zap_init env) (\<lambda>_ s. case s of (z, w) \<Rightarrow>
      (case zl_l z of
        None \<Rightarrow> (Panic PNilDeref, s)
      | Some sink \<Rightarrow> (case emit lvl (le_enc env lvl msg [GSlice param]) sink w of
          (sink', w') \<Rightarrow> (Ok (), (z\<lparr>zl_l := Some sink'\<rparr>, w')))))"

definition close_one :: "rotate_writer \<Rightarrow> log_world \<Rightarrow> rotate_writer \<times> log_world" where
  "close_one f w = (case rw_close (f, lw_fs w) of (_, (f', fs)) \<Rightarrow> (f', w\<lparr>lw_fs := fs\<rparr>))"

definition zap_close :: "(log_state, unit) goS" where
  "zap_close s =
    (case s of (z, w) \<Rightarrow>
      (case zl_l z of
        Some (Files d i wa e) \<Rightarrow>
          if \<not> zl_closeFn z then (Panic PNilDeref, s)
          else (case close_one d w of (d, w) \<Rightarrow> case close_one i w of (i, w) \<Rightarrow>
                case close_one wa w of (wa, w) \<Rightarrow> case close_one e w of (e, w) \<Rightarrow>
                  (Ok (), (z\<lparr>zl_l := Some (Files d i wa e)\<rparr>, w)))
      | _ \<Rightarrow> (Panic PNilDeref, s)))"

section \<open>A writer touches its own files\<close>

text \<open>The names a writer may change: its file and the backups of it.\<close>

definition own_names :: "string \<Rightarrow> string set" where
  "own_names f = insert f (range (backup_name f))"

definition same_except :: "string set \<Rightarrow> fs \<Rightarrow> fs \<Rightarrow> bool" where
  "same_except ns fs fs' \<longleftrightarrow> (\<forall>n. n \<notin> ns \<longrightarrow> fs_files fs' n = fs_files fs n)"

lemma same_except_refl [simp]: "same_except ns fs fs"
  by (simp add: same_except_def)

lemma same_except_trans: "same_except ns fs fs' \<Longrightarrow> same_except ns fs' fs'' \<Longrightarrow> same_except ns fs fs''"
  by (simp add: same_except_def)

lemma same_except_put: "n \<in> ns \<Longrightarrow> same_except ns fs (put_file n c fs)"
  by (auto simp: same_except_def)

lemma own_self [simp]: "f \<in> own_names f" "backup_name f i \<in> own_names f"
  by (auto simp: own_names_def)

lemma rename_own: "rename_file a b fs = (r, fs') \<Longrightarrow> a \<in> ns \<Longrightarrow> b \<in> ns \<Longrightarrow> same_except ns fs fs'"
  by (auto simp: rename_file_def same_except_def split: if_splits)

lemma shift_own: "shift_loop f i fs = (r, fs') \<Longrightarrow> same_except (own_names f) fs fs'"
proof (induction f i fs rule: shift_loop.induct)
  case (1 f i fs)
  show ?case
  proof (cases "i < 1")
    case True
    with 1(3) show ?thesis by (simp add: shift_loop.simps)
  next
    case False
    note not_done = this
    show ?thesis
    proof (cases "fs_files fs (backup_name f i) = None")
      case True
      with 1 False show ?thesis by (simp add: shift_loop.simps[of f i])
    next
      case ex: False
      with not_done 1(3) have "bindS (rename_file (backup_name f i) (backup_name f (i + 1)))
          (\<lambda>_. shift_loop f (i - 1)) fs = (r, fs')" by (simp add: shift_loop.simps[of f i])
      then show ?thesis
      proof (cases rule: bindS_cases)
        case (ok a t)
        with 1(1)[OF not_done] ex show ?thesis
          by (metis own_self(2) rename_own same_except_trans)
      qed (auto intro: rename_own)
    qed
  qed
qed

lemma rotate_own:
  assumes "rotate_files f n fs = (r, fs')"
  shows "same_except (own_names f) fs fs'"
proof -
  let ?fs = "put_file (backup_name f n) None fs"
  have p: "same_except (own_names f) fs ?fs" by (intro same_except_put) simp
  from assms have "bindS (shift_loop f (n - 1)) (\<lambda>_ fs.
      if fs_files fs f \<noteq> None then rename_file f (backup_name f 1) fs else (Ok (), fs)) ?fs = (r, fs')"
    by (simp add: rotate_files_def)
  then show ?thesis
  proof (cases rule: bindS_cases)
    case (ok a t)
    have "same_except (own_names f) t fs'"
      using ok(2) by (auto split: if_splits intro: rename_own)
    with p shift_own[OF ok(1)] show ?thesis by (blast intro: same_except_trans)
  next
    case (err e)
    with p shift_own show ?thesis by (blast intro: same_except_trans)
  next
    case (panic q)
    with p shift_own show ?thesis by (blast intro: same_except_trans)
  qed
qed

lemma close_file_same: "close_file (w, fs) = (r, (w', fs')) \<Longrightarrow> fs' = fs \<and> rw_filename w' = rw_filename w"
  by (auto simp: close_file_def split: option.splits bool.splits)

lemma rw_rotate_own:
  assumes "rw_rotate (w, fs) = (r, (w', fs'))"
  shows "rw_filename w' = rw_filename w \<and> same_except (own_names (rw_filename w)) fs fs'"
  using assms unfolding rw_rotate_def
proof (cases rule: bindS_cases)
  case c: (ok a ws)
  obtain w1 fs1 where ws: "ws = (w1, fs1)" by fastforce
  with c(1) have 1: "fs1 = fs" "rw_filename w1 = rw_filename w" by (auto dest: close_file_same)
  from c(2) ws show ?thesis
  proof (cases rule: bindS_cases)
    case (ok b t)
    then obtain fs2 where t: "t = (w1, fs2)" "rotate_files (rw_filename w1) (rw_maxBackups w1) fs1 = (Ok b, fs2)"
      using ws by (auto simp: on_fs_def split: prod.splits)
    from rotate_own[OF t(2)] 1 have "same_except (own_names (rw_filename w)) fs fs2" by simp
    with ok(2) t(1) 1 show ?thesis
      by (auto split: if_splits intro: same_except_trans[OF _ same_except_put])
  next
    case (err e)
    then show ?thesis using ws 1 by (auto simp: on_fs_def split: prod.splits dest: rotate_own)
  next
    case (panic q)
    then show ?thesis using ws 1 by (auto simp: on_fs_def split: prod.splits dest: rotate_own)
  qed
qed (auto dest: close_file_same)

lemma append_own:
  "append_file p (w, fs) = (r, (w', fs')) \<Longrightarrow>
    rw_filename w' = rw_filename w \<and> same_except (own_names (rw_filename w)) fs fs'"
  by (auto simp: append_file_def same_except_put split: option.splits bool.splits)

lemma rw_write_own:
  assumes "rw_write p (w, fs) = (r, (w', fs'))"
  shows "rw_filename w' = rw_filename w \<and> same_except (own_names (rw_filename w)) fs fs'"
  using assms unfolding rw_write_def
proof (cases rule: bindS_cases)
  case (ok a ws)
  obtain w1 fs1 where ws: "ws = (w1, fs1)" by fastforce
  with ok(1) have 1: "rw_filename w1 = rw_filename w \<and> same_except (own_names (rw_filename w)) fs fs1"
    by (auto split: if_splits dest: rw_rotate_own)
  with append_own[of p w1 fs1 r w' fs'] ok(2) ws show ?thesis by (auto intro: same_except_trans)
qed (auto split: if_splits dest: rw_rotate_own)

section \<open>Every level has its own files\<close>

definition level_text :: "level \<Rightarrow> string" where
  "level_text l = (case l of DebugLevel \<Rightarrow> ''debug'' | InfoLevel \<Rightarrow> ''info'' | WarnLevel \<Rightarrow> ''warn'' | ErrorLevel \<Rightarrow> ''error'')"

definition level_file :: "string \<Rightarrow> string \<Rightarrow> level \<Rightarrow> string" where
  "level_file dir name l = log_name dir name (level_text l)"

definition writer_of :: "level \<Rightarrow> log_sink \<Rightarrow> rotate_writer option" where
  "writer_of l sink =
    (case sink of
      Console _ \<Rightarrow> None
    | Files d i wa e \<Rightarrow> Some (case l of DebugLevel \<Rightarrow> d | InfoLevel \<Rightarrow> i | WarnLevel \<Rightarrow> wa | ErrorLevel \<Rightarrow> e))"

text \<open>The state of a logger that has opened its files in a directory.\<close>

definition logs_to :: "string \<Rightarrow> zap_logger \<Rightarrow> bool" where
  "logs_to dir z \<longleftrightarrow> zl_initFlag z \<and> zl_closeFn z \<and>
    (\<exists>sink. zl_l z = Some sink \<and> (\<forall>l. \<exists>f. writer_of l sink = Some f \<and> rw_filename f = level_file dir (zl_Name z) l))"

lemma own_names_disjoint: "l \<noteq> l' \<Longrightarrow> own_names (level_file dir name l) \<inter> own_names (level_file dir name l') = {}"
  by (cases l; cases l') (auto simp: own_names_def level_file_def log_name_def level_text_def backup_name_def)

lemma init_get_file_name:
  "must (init_get_file dir name l m b) w = (Ok f, w') \<Longrightarrow> rw_filename f = log_name dir name l"
  by (auto simp: must_def init_get_file_def new_rotate_writer_def Let_def split: prod.splits go.splits if_splits)

text \<open>C34: A logger that starts with a directory opens one file per level, and then a line only ever
  touches the files of its own level: the other levels' writers, files and backups are what they
  were, whether the line is written, rotates a file away or fails to.\<close>

theorem log_levels_apart:
  assumes "logs_to dir z" "zap_log env lvl msg param (z, w) = (r, (z', w'))"
  shows "r = Ok () \<and> logs_to dir z' \<and>
    (\<forall>l n. l \<noteq> lvl \<longrightarrow> n \<in> own_names (level_file dir (zl_Name z) l) \<longrightarrow> fs_files (lw_fs w') n = fs_files (lw_fs w) n)"
proof -
  obtain d i wa e where sink: "zl_l z = Some (Files d i wa e)" and flags: "zl_initFlag z" "zl_closeFn z"
    and names: "rw_filename d = level_file dir (zl_Name z) DebugLevel" "rw_filename i = level_file dir (zl_Name z) InfoLevel"
      "rw_filename wa = level_file dir (zl_Name z) WarnLevel" "rw_filename e = level_file dir (zl_Name z) ErrorLevel"
  proof -
    obtain sink where s: "zl_l z = Some sink" "zl_initFlag z" "zl_closeFn z"
      "\<And>l. \<exists>f. writer_of l sink = Some f \<and> rw_filename f = level_file dir (zl_Name z) l"
      using assms(1) by (auto simp: logs_to_def)
    then obtain d i wa e where "sink = Files d i wa e" by (cases sink) (auto simp: writer_of_def)
    with s that s(4)[of DebugLevel] s(4)[of InfoLevel] s(4)[of WarnLevel] s(4)[of ErrorLevel] show thesis
      by (simp add: writer_of_def)
  qed
  let ?line = "le_enc env lvl msg [GSlice param]"
  let ?f = "case lvl of DebugLevel \<Rightarrow> d | InfoLevel \<Rightarrow> i | WarnLevel \<Rightarrow> wa | ErrorLevel \<Rightarrow> e"
  obtain x f' fs where wr: "rw_write ?line (?f, lw_fs w) = (x, (f', fs))" by (metis surj_pair)
  from rw_write_own[OF wr] have own: "rw_filename f' = rw_filename ?f" "same_except (own_names (rw_filename ?f)) (lw_fs w) fs"
    by auto
  have fn: "rw_filename ?f = level_file dir (zl_Name z) lvl" using names by (cases lvl) simp_all
  have out: "r = Ok ()" "w' = w\<lparr>lw_fs := fs\<rparr>"
    "z' = z\<lparr>zl_l := Some (case lvl of DebugLevel \<Rightarrow> Files f' i wa e | InfoLevel \<Rightarrow> Files d f' wa e
      | WarnLevel \<Rightarrow> Files d i f' e | ErrorLevel \<Rightarrow> Files d i wa f')\<rparr>"
    using assms(2) sink flags wr
    by (cases lvl; simp add: zap_log_def zap_init_def bindS_def emit_def write_line_def)+
  have "logs_to dir z'"
    using flags names own(1) fn
    by (cases lvl) (auto simp: logs_to_def out(3) writer_of_def split: level.splits)
  moreover have "fs_files (lw_fs w') n = fs_files (lw_fs w) n"
    if "l \<noteq> lvl" "n \<in> own_names (level_file dir (zl_Name z) l)" for l n
    using own(2) fn own_names_disjoint[OF that(1)] that(2) by (auto simp: out(2) same_except_def)
  ultimately show ?thesis using out(1) by blast
qed

lemma bindS_Ok_iff: "bindS m f s = (Ok b, s') \<longleftrightarrow> (\<exists>a t. m s = (Ok a, t) \<and> f a t = (Ok b, s'))"
  by (auto simp: bindS_def split: prod.splits go.splits)

lemma must_lift: "must (liftS r) w = (Ok a, w') \<longleftrightarrow> r = Ok a \<and> w' = w"
  by (cases r) (auto simp: must_def)

lemma init_opens_files:
  assumes "zap_init env (z, w) = (Ok (), (z', w'))" "\<not> zl_initFlag z" "zl_Dir z \<noteq> []"
  shows "\<exists>dir. le_abs env (zl_Dir z) = Ok dir \<and> logs_to dir z'"
proof -
  let ?z = "z\<lparr>zl_initFlag := True\<rparr>"
  obtain sink where s: "init_files env ?z w = (Ok sink, w')" "z' = ?z\<lparr>zl_l := Some sink, zl_closeFn := True\<rparr>"
    using assms by (auto simp: zap_init_def Let_def split: prod.splits go.splits)
  from s(1) obtain dir d i wa e w1 w2 w3 w4 where f: "le_abs env (zl_Dir z) = Ok dir" "sink = Files d i wa e"
    "must (init_get_file dir (zl_Name z) ''debug'' (zl_MaxSize z) (zl_BackUp z)) w = (Ok d, w1)"
    "must (init_get_file dir (zl_Name z) ''info'' (zl_MaxSize z) (zl_BackUp z)) w1 = (Ok i, w2)"
    "must (init_get_file dir (zl_Name z) ''warn'' (zl_MaxSize z) (zl_BackUp z)) w2 = (Ok wa, w3)"
    "must (init_get_file dir (zl_Name z) ''error'' (zl_MaxSize z) (zl_BackUp z)) w3 = (Ok e, w4)"
    by (auto simp: init_files_def bindS_Ok_iff must_lift)
  note names = f(3-6)[THEN init_get_file_name]
  from s(2) f(1,2) names show ?thesis
    by (auto simp: logs_to_def writer_of_def level_file_def level_text_def split: level.splits)
qed

section \<open>A start that fails\<close>

text \<open>A start that panics is not repeated: every later line of the logger is a nil dereference,
  whatever has become of the cause, and so is its close.\<close>

theorem failed_log_start_is_final:
  assumes "zap_init env (z, w) = (Panic p, (z', w'))" "zl_l z = None"
  shows "zap_log env' lvl msg param (z', w'') = (Panic PNilDeref, (z', w'')) \<and>
    zap_close (z', w'') = (Panic PNilDeref, (z', w''))"
  using assms
  by (auto simp: zap_init_def zap_log_def zap_close_def bindS_def Let_def split: if_splits prod.splits go.splits)

section \<open>The theorems at work\<close>

definition plain_env :: "bool option \<Rightarrow> log_env" where
  "plain_env stat = \<lparr>le_abs = Ok, le_stat = \<lambda>d. stat, le_build = Ok (), le_enc = \<lambda>l m ps. m\<rparr>"

definition plain_logger :: zap_logger where
  "plain_logger = \<lparr>zl_Dir = ''log'', zl_Name = ''p'', zl_Level = ''info'', zl_MaxSize = 1, zl_BackUp = 2, zl_initFlag = False,
    zl_l = None, zl_closeFn = False\<rparr>"

definition empty_world :: log_world where
  "empty_world = \<lparr>lw_fs = \<lparr>fs_files = Map.empty, fs_renames = \<lambda>a b. True, fs_opens = \<lambda>n. True\<rparr>, lw_console = []\<rparr>"

lemma log_levels_apart_witness:
  "\<exists>z w z' w'. logs_to ''log'' z \<and> zap_log (plain_env (Some True)) InfoLevel ''hello'' [] (z, w) = (Ok (), (z', w')) \<and>
    fs_files (lw_fs w') (level_file ''log'' ''p'' DebugLevel) = fs_files (lw_fs w) (level_file ''log'' ''p'' DebugLevel)"
proof -
  let ?env = "plain_env (Some True)"
  let ?i = "zap_init ?env (plain_logger, empty_world)"
  have "fst ?i = Ok ()" by code_simp
  then obtain z w where i: "?i = (Ok (), (z, w))" by (metis prod.collapse)
  from init_opens_files[OF i] have z: "logs_to ''log'' z"
    by (auto simp: plain_logger_def plain_env_def)
  have "zl_Name z = ''p''"
  proof -
    have "zl_Name (fst (snd ?i)) = ''p''" by code_simp
    with i show ?thesis by simp
  qed
  obtain r z' w' where l: "zap_log ?env InfoLevel ''hello'' [] (z, w) = (r, (z', w'))" by (metis surj_pair)
  from log_levels_apart[OF z l] l z \<open>zl_Name z = ''p''\<close> show ?thesis
    by (intro exI[of _ z] exI[of _ w] exI[of _ z'] exI[of _ w']) (auto simp: own_self)
qed

lemma failed_log_start_is_final_witness:
  "\<exists>z'. zap_init (plain_env None) (plain_logger, empty_world) = (Panic (PExplicit ''ZapLogExtension Init Panic: ''), (z', empty_world)) \<and>
    zap_log (plain_env (Some True)) ErrorLevel ''later'' [] (z', empty_world) = (Panic PNilDeref, (z', empty_world))"
proof -
  obtain z' where z: "zap_init (plain_env None) (plain_logger, empty_world) = (Panic (PExplicit ''ZapLogExtension Init Panic: ''), (z', empty_world))"
    by (simp add: zap_init_def plain_logger_def plain_env_def init_files_def bindS_def must_def)
  with failed_log_start_is_final[OF z] show ?thesis by (auto simp: plain_logger_def)
qed

end
