(* ===== verification/SyncPool.thy ===== *)
theory SyncPool
  imports Gostd Closer
begin

text \<open>
  \<^verbatim>\<open>SyncPool\<close> and \<^verbatim>\<open>SyncUsePool\<close> of \<^verbatim>\<open>utils/generic/sync.go\<close>, used by one
  caller at a time.  A \<^verbatim>\<open>sync.Pool\<close> gives back any item put into it, or makes a new one, and
  may drop items at any time: which, is the argument \<open>pick\<close> of a call and the operation \<open>sp_drop\<close>.
\<close>

section \<open>The pools\<close>

text \<open>An item: the data, whether it is the zero value made after the close, the generator's error.\<close>

record 'c pool_item =
  pi_data :: 'c
  pi_isEmpty :: bool
  pi_err :: "gerror option"

record use_stat =
  us_full :: int
  us_use :: int
  us_idle :: int
  us_accumulatorErr :: int

record ('w, 'c) use_pool =
  up_isClose :: bool
  up_stat :: use_stat
  up_items :: "'c pool_item list"
  up_world :: 'w

definition add_stat :: "int \<Rightarrow> int \<Rightarrow> int \<Rightarrow> int \<Rightarrow> ('w, 'c) use_pool \<Rightarrow> ('w, 'c) use_pool" where
  "add_stat full use idle err p =
    (let s = up_stat p in
     p\<lparr>up_stat := \<lparr>us_full = us_full s + full, us_use = us_use s + use, us_idle = us_idle s + idle,
        us_accumulatorErr = us_accumulatorErr s + err\<rparr>\<rparr>)"

definition new_use_pool :: "'w \<Rightarrow> ('w, 'c) use_pool" where
  "new_use_pool w = \<lparr>up_isClose = False, up_stat = \<lparr>us_full = 0, us_use = 0, us_idle = 0, us_accumulatorErr = 0\<rparr>,
    up_items = [], up_world = w\<rparr>"

text \<open>\<open>gen\<close> gives the data, which is the zero value when there is an error, and the error.\<close>

definition wrap_gen :: "'c \<Rightarrow> ('w \<Rightarrow> ('c \<times> gerror option) \<times> 'w) \<Rightarrow> ('w, 'c) use_pool \<Rightarrow> 'c pool_item \<times> ('w, 'c) use_pool" where
  "wrap_gen zero gen p =
    (if up_isClose p then (\<lparr>pi_data = zero, pi_isEmpty = True, pi_err = None\<rparr>, p)
     else (case gen (up_world p) of ((data, err), w) \<Rightarrow>
       let p = p\<lparr>up_world := w\<rparr> in
       (\<lparr>pi_data = data, pi_isEmpty = False, pi_err = err\<rparr>,
        if err = None then add_stat 1 0 1 0 p else add_stat 0 0 0 1 p)))"

text \<open>\<^verbatim>\<open>Get\<close>: item number \<open>pick\<close>, or a new one.\<close>

definition sp_get ::
    "'c \<Rightarrow> ('w \<Rightarrow> ('c \<times> gerror option) \<times> 'w) \<Rightarrow> nat option \<Rightarrow> ('w, 'c) use_pool \<Rightarrow> 'c pool_item \<times> ('w, 'c) use_pool" where
  "sp_get zero gen pick p =
    (case pick of
      Some i \<Rightarrow> if i < length (up_items p)
        then (up_items p ! i, p\<lparr>up_items := take i (up_items p) @ drop (Suc i) (up_items p)\<rparr>)
        else wrap_gen zero gen p
    | None \<Rightarrow> wrap_gen zero gen p)"

definition sp_put :: "'c pool_item \<Rightarrow> ('w, 'c) use_pool \<Rightarrow> ('w, 'c) use_pool" where
  "sp_put x p = p\<lparr>up_items := x # up_items p\<rparr>"

definition sp_drop :: "nat \<Rightarrow> ('w, 'c) use_pool \<Rightarrow> ('w, 'c) use_pool" where
  "sp_drop i p = p\<lparr>up_items := take i (up_items p) @ drop (Suc i) (up_items p)\<rparr>"

text \<open>\<^verbatim>\<open>Use\<close>: the item's emptiness is not looked at.\<close>

definition up_use ::
    "'c \<Rightarrow> ('w \<Rightarrow> ('c \<times> gerror option) \<times> 'w) \<Rightarrow> ('c \<Rightarrow> 'w \<Rightarrow> 'w) \<Rightarrow> nat option \<Rightarrow> ('c \<Rightarrow> ('w, 'r) goS) \<Rightarrow>
     (('w, 'c) use_pool, 'r) goS" where
  "up_use zero gen close pick useFn p =
    (if up_isClose p then (Err (sentinel_err ClosedError ''SyncExpirePool already closed''), p)
     else (case sp_get zero gen pick p of (x, p) \<Rightarrow>
       (case pi_err x of
         Some e \<Rightarrow> (Err (EWrap (Some e) ''get data failed''), p)
       | None \<Rightarrow>
           let p = add_stat 0 1 (- 1) 0 p in
           (case useFn (pi_data x) (up_world p) of
             (Panic q, w) \<Rightarrow> (Panic q, p\<lparr>up_world := w\<rparr>)
           | (Err e, w) \<Rightarrow>
               (Err (EWrap (Some e) ''useFn failed''),
                add_stat (- 1) 0 (- 1) 1 (add_stat 0 (- 1) 1 0 (p\<lparr>up_world := close (pi_data x) w\<rparr>)))
           | (Ok r, w) \<Rightarrow>
               let p = add_stat 0 (- 1) 1 0 (p\<lparr>up_world := w\<rparr>) in
               if \<not> up_isClose p then (Ok r, sp_put (x\<lparr>pi_isEmpty := False, pi_err := None\<rparr>) p)
               else (Ok r, add_stat (- 1) 0 (- 1) 0 (p\<lparr>up_world := close (pi_data x) (up_world p)\<rparr>))))))"

definition up_stats :: "('w, 'c) use_pool \<Rightarrow> int \<times> int \<times> int \<times> int" where
  "up_stats p = (us_full (up_stat p), us_use (up_stat p), us_idle (up_stat p), us_accumulatorErr (up_stat p))"

text \<open>\<^verbatim>\<open>Close\<close>: the counters go back to zero; the items are neither closed nor removed.\<close>

definition up_close :: "(('w, 'c) use_pool, unit) goS" where
  "up_close p =
    (if up_isClose p then (Err (sentinel_err ClosedError ''SyncExpirePool already closed''), p)
     else (let p = p\<lparr>up_isClose := True\<rparr> in
       case up_stats p of (full, use, idle, err) \<Rightarrow> (Ok (), add_stat (- full) (- use) (- idle) (- err) p)))"

section \<open>The pool as a closer\<close>

definition up_call ::
    "'c \<Rightarrow> ('w \<Rightarrow> ('c \<times> gerror option) \<times> 'w) \<Rightarrow> ('c \<Rightarrow> 'w \<Rightarrow> 'w) \<Rightarrow> (nat option \<times> ('c \<Rightarrow> ('w, 'r) goS)) option \<Rightarrow>
     (('w, 'c) use_pool, unit) goS" where
  "up_call zero gen close op p =
    (case op of None \<Rightarrow> up_close p | Some (pick, f) \<Rightarrow> forget (up_use zero gen close pick f p))"

interpretation objects: closable_once "up_call zero gen close" None up_isClose for zero gen close
  by unfold_locales
    (auto simp: up_call_def up_close_def up_use_def add_stat_def Let_def split: if_splits prod.splits option.splits)

section \<open>The counters\<close>

text \<open>Calls in any order, among them the runtime dropping an item.\<close>

datatype ('w, 'c, 'r) pool_op =
  OpUse "nat option" "'c \<Rightarrow> ('w, 'r) goS"
| OpDrop nat
| OpClose

fun pool_do ::
    "'c \<Rightarrow> ('w \<Rightarrow> ('c \<times> gerror option) \<times> 'w) \<Rightarrow> ('c \<Rightarrow> 'w \<Rightarrow> 'w) \<Rightarrow> ('w, 'c, 'r) pool_op \<Rightarrow>
     ('w, 'c) use_pool \<Rightarrow> ('w, 'c) use_pool" where
  "pool_do zero gen close (OpUse pick f) p = snd (up_use zero gen close pick f p)"
| "pool_do zero gen close (OpDrop i) p = sp_drop i p"
| "pool_do zero gen close OpClose p = snd (up_close p)"

text \<open>\<open>counted k d p\<close>: \<open>k\<close> uses have panicked and \<open>d\<close> items have been dropped.\<close>

definition counted :: "nat \<Rightarrow> nat \<Rightarrow> ('w, 'c) use_pool \<Rightarrow> bool" where
  "counted k d p \<longleftrightarrow>
    (\<forall>x \<in> set (up_items p). pi_err x = None) \<and>
    (if up_isClose p then up_stats p = (0, 0, 0, 0)
     else us_use (up_stat p) = int k \<and> us_full (up_stat p) = int (length (up_items p) + k + d) \<and>
       us_idle (up_stat p) = us_full (up_stat p) - us_use (up_stat p) \<and> 0 \<le> us_accumulatorErr (up_stat p))"

lemma add_stat_sel [simp]:
  "up_items (add_stat a b c d p) = up_items p" "up_isClose (add_stat a b c d p) = up_isClose p"
  "up_world (add_stat a b c d p) = up_world p"
  "us_full (up_stat (add_stat a b c d p)) = us_full (up_stat p) + a"
  "us_use (up_stat (add_stat a b c d p)) = us_use (up_stat p) + b"
  "us_idle (up_stat (add_stat a b c d p)) = us_idle (up_stat p) + c"
  "us_accumulatorErr (up_stat (add_stat a b c d p)) = us_accumulatorErr (up_stat p) + d"
  by (simp_all add: add_stat_def Let_def)

text \<open>An item taken without error is one more than the pool then holds.\<close>

lemma counted_get:
  assumes "counted k d p" "\<not> up_isClose p" "sp_get zero gen pick p = (x, q)"
  shows "\<not> up_isClose q \<and> (\<forall>y \<in> set (up_items q). pi_err y = None) \<and> us_use (up_stat q) = int k \<and>
    us_idle (up_stat q) = us_full (up_stat q) - us_use (up_stat q) \<and> 0 \<le> us_accumulatorErr (up_stat q) \<and>
    us_full (up_stat q) = int (length (up_items q) + k + d) + (if pi_err x = None then 1 else 0)"
proof -
  have gen: ?thesis if "wrap_gen zero gen p = (x, q)"
    using assms(1,2) that
    by (auto simp: wrap_gen_def counted_def Let_def split: prod.splits if_splits)
  show ?thesis
  proof (cases pick)
    case (Some i)
    show ?thesis
    proof (cases "i < length (up_items p)")
      case True
      with assms Some have "pi_err x = None" "x = up_items p ! i" "q = p\<lparr>up_items := take i (up_items p) @ drop (Suc i) (up_items p)\<rparr>"
        by (auto simp: sp_get_def counted_def)
      note q = this
      have len: "length (up_items p) = length (up_items q) + 1"
        using True q(3) by simp
      have items: "\<forall>y \<in> set (up_items q). pi_err y = None"
        using assms(1) q(3) by (auto simp: counted_def dest: in_set_takeD in_set_dropD)
      have "up_stat q = up_stat p" "up_isClose q = up_isClose p" using q(3) by simp_all
      with assms(1,2) items len q(1) show ?thesis by (simp add: counted_def)
    qed (use assms(3) Some gen in \<open>simp add: sp_get_def\<close>)
  qed (use assms(3) gen in \<open>simp add: sp_get_def\<close>)
qed

text \<open>What a call adds to the panicked uses and to the dropped items.\<close>

definition op_panics ::
    "'c \<Rightarrow> ('w \<Rightarrow> ('c \<times> gerror option) \<times> 'w) \<Rightarrow> ('c \<Rightarrow> 'w \<Rightarrow> 'w) \<Rightarrow> ('w, 'c, 'r) pool_op \<Rightarrow> ('w, 'c) use_pool \<Rightarrow> nat" where
  "op_panics zero gen close op p =
    (case op of OpUse pick f \<Rightarrow> if is_panic (fst (up_use zero gen close pick f p)) then 1 else 0 | _ \<Rightarrow> 0)"

definition op_drops :: "('w, 'c, 'r) pool_op \<Rightarrow> ('w, 'c) use_pool \<Rightarrow> nat" where
  "op_drops op p = (case op of OpDrop i \<Rightarrow> if i < length (up_items p) then 1 else 0 | _ \<Rightarrow> 0)"

lemma counted_use:
  assumes "counted k d p"
  shows "counted (k + op_panics zero gen close (OpUse pick f) p) d (snd (up_use zero gen close pick f p))"
proof (cases "up_isClose p")
  case True
  with assms show ?thesis by (auto simp: up_use_def op_panics_def counted_def)
next
  case False
  obtain x q where g: "sp_get zero gen pick p = (x, q)" by fastforce
  obtain r w where f: "f (pi_data x) (up_world q) = (r, w)" by fastforce
  note q = counted_get[OF assms False g]
  show ?thesis
  proof (cases "pi_err x")
    case (Some e)
    with False g q show ?thesis by (simp add: up_use_def counted_def op_panics_def)
  next
    case None
    with False g q f show ?thesis
      by (cases r) (simp_all add: up_use_def counted_def op_panics_def Let_def sp_put_def)
  qed
qed

lemma counted_step:
  assumes "counted k d p"
  shows "counted (k + op_panics zero gen close op p) (d + op_drops op p) (pool_do zero gen close op p)"
proof (cases op)
  case (OpUse pick f)
  with counted_use[OF assms] show ?thesis by (simp add: op_drops_def)
next
  case (OpDrop i)
  with assms show ?thesis
    by (auto simp: counted_def sp_drop_def op_panics_def op_drops_def up_stats_def dest: in_set_takeD in_set_dropD)
next
  case OpClose
  with assms show ?thesis
    by (auto simp: up_close_def counted_def op_panics_def op_drops_def up_stats_def Let_def)
qed

text \<open>The calls of a list, with the panicked uses and the dropped items counted beside the pool.\<close>

fun pool_run ::
    "'c \<Rightarrow> ('w \<Rightarrow> ('c \<times> gerror option) \<times> 'w) \<Rightarrow> ('c \<Rightarrow> 'w \<Rightarrow> 'w) \<Rightarrow> ('w, 'c, 'r) pool_op list \<Rightarrow>
     nat \<times> nat \<times> ('w, 'c) use_pool \<Rightarrow> nat \<times> nat \<times> ('w, 'c) use_pool" where
  "pool_run zero gen close [] s = s"
| "pool_run zero gen close (op # ops) (k, d, p) =
    pool_run zero gen close ops
      (k + op_panics zero gen close op p, d + op_drops op p, pool_do zero gen close op p)"

lemma counted_run:
  "counted k d p \<Longrightarrow> pool_run zero gen close ops (k, d, p) = (k', d', q) \<Longrightarrow> counted k' d' q"
  by (induction ops arbitrary: k d p) (auto dest: counted_step)

text \<open>The counters of a pool are exact between calls, in any order of uses, drops by the runtime
  and closes: \<open>full\<close> counts the items in the pool, those the runtime dropped and those whose use
  panicked, \<open>use\<close> the panicked ones, \<open>idle\<close> the others; after the close all are zero and stay so.\<close>

theorem use_pool_counted:
  "case pool_run zero gen close ops (0, 0, new_use_pool w) of (panicked, dropped, p) \<Rightarrow>
    up_stats p = (if up_isClose p then (0, 0, 0, 0)
      else (int (length (up_items p) + panicked + dropped), int panicked, int (length (up_items p) + dropped),
        us_accumulatorErr (up_stat p)))"
proof -
  obtain k d p where r: "pool_run zero gen close ops (0, 0, new_use_pool w) = (k, d, p)"
    by (metis surj_pair)
  have "counted 0 0 (new_use_pool w)" by (simp add: counted_def new_use_pool_def)
  from counted_run[OF this r] show ?thesis
    by (auto simp: r counted_def up_stats_def)
qed

end
