(* ===== verification/NewPlan.thy ===== *)
theory NewPlan
  imports ScriptPlan PlanBufferV1 Syncd
begin

text \<open>
  \<^verbatim>\<open>cmd/oncecall_sync/plan/new/plan_impl.go\<close>, the unfinished second version of the plan,
  function by function; \<^verbatim>\<open>readRunPrevBind\<close>, whose callback has no return statement and
  which nothing calls, is left out.  A pool is represented by the identifier it was asked for with; a
  query that fails gives no rows and no names.
\<close>

section \<open>State\<close>

record plan_v1 =
  p1_flag :: bool
  p1_once :: bool
  p1_useConf :: script_config
  p1_readConnPool :: "string list"
  p1_indexMap :: "(string \<times> int) list option"
  p1_syncPool :: "string option"
  p1_colBufCapSize :: int
  p1_rowBufCapSize :: int
  p1_bufIdleTime :: int

definition zero_plan_v1 :: plan_v1 where
  "zero_plan_v1 = \<lparr>p1_flag = False, p1_once = False, p1_useConf = snd zero_script, p1_readConnPool = [],
    p1_indexMap = None, p1_syncPool = None, p1_colBufCapSize = 0, p1_rowBufCapSize = 0, p1_bufIdleTime = 0\<rparr>"

section \<open>Initialisation\<close>

text \<open>The pools of the read plans; writing to the nil map panics after the pool was appended.\<close>

fun p1_read_pools :: "(string \<Rightarrow> unit go) \<Rightarrow> read_entry list \<Rightarrow> (plan_v1, unit) goS" where
  "p1_read_pools get [] p = (Ok (), p)"
| "p1_read_pools get (e # es) p =
    (case get (re_Ident e) of
      Err _ \<Rightarrow> (Err (sentinel_err SentinelCatchError ''not find pool %s''), p)
    | Panic x \<Rightarrow> (Panic x, p)
    | Ok _ \<Rightarrow>
        let p = p\<lparr>p1_readConnPool := p1_readConnPool p @ [re_Ident e]\<rparr> in
        (case p1_indexMap p of
          None \<Rightarrow> (Panic PNilMap, p)
        | Some m \<Rightarrow> p1_read_pools get es
            (p\<lparr>p1_indexMap := Some (AList.update (re_Ident e) (int (length (p1_readConnPool p)) - 1) m)\<rparr>)))"

definition p1_set_option :: "script_option option \<Rightarrow> plan_v1 \<Rightarrow> plan_v1" where
  "p1_set_option opt p = (case opt of None \<Rightarrow> p
    | Some so \<Rightarrow> p\<lparr>p1_bufIdleTime := so_PlanRowBufIdleTime so, p1_colBufCapSize := so_PlanColsBufAlloc so,
        p1_rowBufCapSize := so_PlanRowBufCap so\<rparr>)"

text \<open>The body of \<^verbatim>\<open>once.Do\<close>, which counts as done however it ends.\<close>

definition p1_init_once :: "(string \<Rightarrow> unit go) \<Rightarrow> string \<Rightarrow> script_config \<Rightarrow> (plan_v1, unit) goS" where
  "p1_init_once get syncIdent conf =
    bindS (p1_read_pools get (sc_Read conf)) (\<lambda>_ p.
      case get syncIdent of
        Err _ \<Rightarrow> (Err (sentinel_err SentinelCatchError ''not find pool %s''), p)
      | Panic x \<Rightarrow> (Panic x, p)
      | Ok _ \<Rightarrow> (Ok (), (p1_set_option (sc_Option conf) p)
          \<lparr>p1_syncPool := Some syncIdent, p1_useConf := conf, p1_flag := True\<rparr>))"

definition p1_init :: "(string \<Rightarrow> unit go) \<Rightarrow> string \<Rightarrow> script_config \<Rightarrow> (plan_v1, unit) goS" where
  "p1_init get syncIdent conf p =
    (if \<not> p1_flag p then (Err (sentinel_err SentinelCatchError ''already init''), p)
     else if p1_once p then (Ok (), p)
     else p1_init_once get syncIdent conf (p\<lparr>p1_once := True\<rparr>))"

text \<open>\<^verbatim>\<open>initSelf\<close> and \<^verbatim>\<open>initOther\<close>; nothing sets the flags of the plan state that they ask.\<close>

definition p1_init_self :: "'w plan_ctl \<Rightarrow> plan_v1 \<Rightarrow> bool \<Rightarrow> ('w, unit) goS" where
  "p1_init_self ctl p isInitSelf =
    (if isInitSelf then retS ()
     else case sc_Init (p1_useConf p) of
       None \<Rightarrow> panicS PNilDeref
     | Some ini \<Rightarrow> forS (in_Self ini) (\<lambda>q. case p1_syncPool p of
         None \<Rightarrow> panicS PNilDeref
       | Some ident \<Rightarrow> init_self_query ctl ident q))"

definition p1_init_other_query :: "'w plan_ctl \<Rightarrow> plan_v1 \<Rightarrow> string \<times> other_init \<Rightarrow> ('w, unit) goS" where
  "p1_init_other_query ctl p kv =
    (case Option.bind (p1_indexMap p) (\<lambda>m. map_of m (fst kv)) of
      None \<Rightarrow> failS (sentinel_err SentinelCatchError ''not exists %s'')
    | Some pIdx \<Rightarrow>
        bindS (liftS (go_index (p1_readConnPool p) pIdx)) (\<lambda>db.
        bindS (wrapS ''init failed, trigger query failed db[%s]''
            (ctl_query ctl db (plain_args (oi_Trigger (snd kv))))) (\<lambda>(data, _).
          if data = [] then retS ()
          else forS (oi_Query (snd kv)) (\<lambda>q.
            wrapS ''init failed, init query failed db[%s] idx[%d]'' (ctl_exec ctl db (plain_args q))))))"

definition p1_init_other :: "'w plan_ctl \<Rightarrow> plan_v1 \<Rightarrow> bool \<Rightarrow> ('w, unit) goS" where
  "p1_init_other ctl p isInitOther =
    (if isInitOther then retS ()
     else case sc_Init (p1_useConf p) of
       None \<Rightarrow> panicS PNilDeref
     | Some ini \<Rightarrow> forS (in_Other ini) (p1_init_other_query ctl p))"

text \<open>An error of either is replaced; the sleep before them has no effect.\<close>

definition replace_err :: "('w, 'a) goS \<Rightarrow> ('w, 'a) goS" where
  "replace_err m w = (case m w of
      (Err _, w') \<Rightarrow> (Err (sentinel_err SentinelCatchError ''''), w')
    | (r, w') \<Rightarrow> (r, w'))"

definition p1_run :: "'w plan_ctl \<Rightarrow> plan_v1 \<Rightarrow> bool \<Rightarrow> bool \<Rightarrow> ('w, unit) goS" where
  "p1_run ctl p isInitSelf isInitOther =
    bindS (replace_err (p1_init_self ctl p isInitSelf)) (\<lambda>_.
      replace_err (p1_init_other ctl p isInitOther))"

section \<open>Reading\<close>

definition upsize_bind :: "nat \<Rightarrow> goval list \<Rightarrow> goval list" where
  "upsize_bind n data = (if n \<le> length data then data else go_copy (replicate n GNil) data)"

definition p1_pos_value :: "ppbuf \<Rightarrow> read_pos \<Rightarrow> goval go" where
  "p1_pos_value buf v =
    (case rp_Static v of
      Some s \<Rightarrow> Ok (GString s)
    | None \<Rightarrow>
        (case rp_Dynamic v of
          Some d \<Rightarrow> wrap_err '''' (nb_get buf (dr_PlanIdx d) (dr_Col d) (dr_RowIdx d) 0)
        | None \<Rightarrow> Ok GNil))"

fun p1_fix_loop :: "ppbuf \<Rightarrow> (string \<times> read_pos) list \<Rightarrow> goval list \<Rightarrow> goval list go" where
  "p1_fix_loop buf [] data = Ok data"
| "p1_fix_loop buf ((k, v) # fx) data =
    (case atoi k of
      Ok n \<Rightarrow>
        if n \<le> 0 then Err (sentinel_err SentinelCatchError '''')
        else let data = upsize_bind (nat n) data in
          bind_go (p1_pos_value buf v) (\<lambda>x. bind_go (go_store data (n - 1) x) (p1_fix_loop buf fx))
    | Err _ \<Rightarrow> Err (sentinel_err SentinelCatchError '''')
    | Panic x \<Rightarrow> Panic x)"

definition p1_fix_bind :: "goval list option \<Rightarrow> ppbuf \<Rightarrow> read_bind \<Rightarrow> goval list option go" where
  "p1_fix_bind oldData buf b =
    (case rb_Fix b of
      Some (kv # fx) \<Rightarrow> bind_go (p1_fix_loop buf (kv # fx) (replicate 10 GNil)) (\<lambda>data. Ok (Some data))
    | _ \<Rightarrow> Ok oldData)"

text \<open>\<^verbatim>\<open>readRun\<close>: the error of the query is overwritten by that of the buffer, and a
  statement with a bind table is not executed.\<close>

definition p1_read_unbound :: "'w plan_ctl \<Rightarrow> string \<Rightarrow> nat \<Rightarrow> read_plan \<Rightarrow> int64 \<Rightarrow> ('w \<times> ppbuf, unit) goS" where
  "p1_read_unbound ctl db idx rp seq = (\<lambda>(w, buf).
    case ctl_query ctl db \<lparr>a_Query = rd_Query rp, a_Args = None, a_IsTransaction = rd_Tran rp\<rparr> w of
      (Panic x, w) \<Rightarrow> (Panic x, (w, buf))
    | (r, w) \<Rightarrow>
        let (data, name) = (case r of Ok d \<Rightarrow> d | _ \<Rightarrow> ([], [])) in
        (case nb_set_table (int idx) name data seq buf of
          (Err _, buf) \<Rightarrow> (Err (sentinel_err SentinelCatchError ''''), (w, buf))
        | (r, buf) \<Rightarrow> (r, (w, buf))))"

fun p1_read_loop :: "'w plan_ctl \<Rightarrow> plan_v1 \<Rightarrow> int64 \<Rightarrow> (nat \<times> read_entry) list \<Rightarrow> ('w \<times> ppbuf, unit) goS" where
  "p1_read_loop ctl p seq [] = retS ()"
| "p1_read_loop ctl p seq ((idx, e) # es) =
    bindS (liftS (go_index (p1_readConnPool p) (int idx))) (\<lambda>db.
    bindS (case rd_Bind (re_Plan e) of
        None \<Rightarrow> p1_read_unbound ctl db idx (re_Plan e) seq
      | Some b \<Rightarrow> (\<lambda>(w, buf). (wrap_err '''' (bind_go (p1_fix_bind None buf b) (\<lambda>_. Ok ())), (w, buf)))) (\<lambda>_.
      p1_read_loop ctl p seq es))"

definition p1_read_run :: "'w plan_ctl \<Rightarrow> plan_v1 \<Rightarrow> int64 \<Rightarrow> ('w \<times> ppbuf, unit) goS" where
  "p1_read_run ctl p seq = p1_read_loop ctl p seq (enumerate 0 (sc_Read (p1_useConf p)))"

section \<open>A plan that can never be used\<close>

text \<open>Calls of \<^verbatim>\<open>Init\<close> one after the other, with their errors.\<close>

fun p1_inits :: "((string \<Rightarrow> unit go) \<times> string \<times> script_config) list \<Rightarrow> plan_v1 \<Rightarrow> unit go list \<times> plan_v1" where
  "p1_inits [] p = ([], p)"
| "p1_inits ((get, ident, conf) # cs) p =
    (case p1_init get ident conf p of (r, p) \<Rightarrow> case p1_inits cs p of (rs, p) \<Rightarrow> (r # rs, p))"

lemma p1_inits_refused:
  "\<not> p1_flag p \<Longrightarrow> p1_inits cs p = (replicate (length cs) (Err (sentinel_err SentinelCatchError ''already init'')), p)"
  by (induction cs) (auto simp: p1_init_def)

text \<open>However often a new plan of the second version is initialised, with whatever pools and
  scripts, every call says that it is initialised already and changes nothing, and running the plan is
  a nil dereference.\<close>

theorem new_plan_never_runs:
  "p1_inits cs zero_plan_v1 = (replicate (length cs) (Err (sentinel_err SentinelCatchError ''already init'')), zero_plan_v1) \<and>
    p1_run ctl zero_plan_v1 False isInitOther w = (Panic PNilDeref, w)"
  using p1_inits_refused[of zero_plan_v1 cs]
  by (simp add: zero_plan_v1_def p1_run_def p1_init_self_def zero_script_def replace_err_def bindS_def)

text \<open>With the guard turned round the first script with a read plan would meet the nil map.\<close>

lemma init_once_nil_map:
  assumes "sc_Read conf = e # es" "get (re_Ident e) = Ok ()" "p1_indexMap p = None"
  shows "fst (p1_init_once get syncIdent conf p) = Panic PNilMap"
  using assms by (simp add: p1_init_once_def bindS_def Let_def)

section \<open>Fixed parameters in both versions\<close>

definition bind_cell :: "goval list \<Rightarrow> nat \<Rightarrow> goval" where
  "bind_cell data i = (if i < length data then data ! i else GNil)"

lemma bind_cell_upsize [simp]: "bind_cell (upsize_bind n data) = bind_cell data"
  by (auto simp: fun_eq_iff bind_cell_def upsize_bind_def nth_go_copy length_go_copy)

lemma length_upsize [simp]: "length (upsize_bind n data) = max n (length data)"
  by (simp add: upsize_bind_def length_go_copy)

lemma go_store_cell:
  assumes "go_store data (n - 1) x = Ok data'"
  shows "bind_cell data' = (bind_cell data)(nat (n - 1) := x)" "length data' = length data"
    "1 \<le> n" "n \<le> int (length data)"
  using assms by (auto simp: go_store_def bind_cell_def fun_eq_iff split: if_splits)

lemma fix_max_ge: "fix_max fx m = Ok M \<Longrightarrow> m \<le> M"
  by (induction fx m rule: fix_max.induct) (auto simp: bind_go_Ok_iff)

lemma fix_loop_agrees:
  assumes "fix_fill b1 seq fx E = Ok E'" "fix_max fx m = Ok M" "m \<le> int (length D)"
    and "\<And>k v. (k, v) \<in> set fx \<Longrightarrow> read_pos_value b1 seq v = p1_pos_value b2 v" "bind_cell D = bind_cell E"
  shows "\<exists>D'. p1_fix_loop b2 fx D = Ok D' \<and> bind_cell D' = bind_cell E' \<and>
    int (length D') = max (int (length D)) M \<and> length E' = length E"
  using assms
proof (induction b1 seq fx E arbitrary: D m rule: fix_fill.induct)
  case (2 buf seq k v fx E)
  from 2(2) obtain n x F where n: "atoi k = Ok n" "1 \<le> n" "read_pos_value buf seq v = Ok x"
      "go_store E (n - 1) x = Ok F" "fix_fill buf seq fx F = Ok E'"
    by (auto simp: bind_go_Ok_iff split: if_splits)
  note F = go_store_cell[OF n(4)]
  define G where "G = (upsize_bind (nat n) D)[nat (n - 1) := x]"
  have store: "go_store (upsize_bind (nat n) D) (n - 1) x = Ok G"
    using n(2) by (simp add: go_store_def G_def)
  note G = go_store_cell[OF store]
  from 2(3) n(1) have mx: "fix_max fx (max m n) = Ok M" by simp
  have "\<exists>D'. p1_fix_loop b2 fx G = Ok D' \<and> bind_cell D' = bind_cell E' \<and>
      int (length D') = max (int (length G)) M \<and> length E' = length F"
    by (rule 2(1)[of n x F "max m n"]) (use 2(4,5,6) n F G mx in auto)
  moreover have "p1_fix_loop b2 ((k, v) # fx) D = p1_fix_loop b2 fx G"
    using n store 2(5)[of k v] by simp
  moreover have "max (int (length G)) M = max (int (length D)) M"
    using G(2) n(2) fix_max_ge[OF mx] by (auto simp: max_def split: if_splits)
  ultimately show ?case using F(2) by auto
qed simp

text \<open>Where the first version of the plan makes a row of parameters from a \<^verbatim>\<open>fix\<close> table, and
  the values are the same in both buffers, the second makes the same row filled up with nil to at least
  ten parameters, in whatever order it visits the table.\<close>

theorem fix_bind_pads_to_ten:
  assumes "make_read_fix b1 seq fx = Ok (Some [row])" "rb_Fix b = Some fx" "fx \<noteq> []"
    and "\<And>k v. (k, v) \<in> set fx \<Longrightarrow> read_pos_value b1 seq v = p1_pos_value b2 v"
  shows "p1_fix_bind old b2 b = Ok (Some (row @ replicate (10 - length row) GNil))"
proof -
  from assms(1) obtain M where M: "fix_max fx 0 = Ok M" "0 \<le> M" "fix_fill b1 seq fx (replicate (nat M) GNil) = Ok row"
    by (auto simp: make_read_fix_def bind_go_Ok_iff go_make_def split: if_splits)
  have cells: "bind_cell (replicate n GNil) = (\<lambda>_. GNil)" for n
    by (simp add: bind_cell_def fun_eq_iff)
  have "\<exists>D'. p1_fix_loop b2 fx (replicate 10 GNil) = Ok D' \<and> bind_cell D' = bind_cell row \<and>
      int (length D') = max (int (length (replicate 10 GNil :: goval list))) M \<and> length row = length (replicate (nat M) (GNil :: goval))"
    by (rule fix_loop_agrees[OF M(3,1)]) (simp_all add: assms(4) cells)
  then obtain D where D: "p1_fix_loop b2 fx (replicate 10 GNil) = Ok D" "bind_cell D = bind_cell row"
    "int (length D) = max 10 M" "length row = nat M" by auto
  have "D = row @ replicate (10 - length row) GNil"
  proof (rule nth_equalityI)
    show "length D = length (row @ replicate (10 - length row) GNil)" using D(3,4) M(2) by auto
    fix i assume "i < length D"
    moreover have "bind_cell D i = bind_cell row i" by (simp add: D(2))
    ultimately show "D ! i = (row @ replicate (10 - length row) GNil) ! i"
      using D(3,4) M(2) by (auto simp: bind_cell_def nth_append split: if_splits)
  qed
  with D(1) assms(2,3) show ?thesis by (cases fx) (auto simp: p1_fix_bind_def)
qed

section \<open>Lost errors\<close>

lemma nb_set_table_nothing: "valid_idx b (int i) \<Longrightarrow> nb_set_table (int i) [] [] seq b = (Ok (), delete_idle b seq)"
  by (simp add: nb_set_table_def validate_index_valid)

lemma delete_idle_twice [simp]: "delete_idle (delete_idle b seq) seq = delete_idle b seq"
  by (simp add: delete_idle_def is_idle_def)

lemma read_loop_loses_errors:
  assumes "\<And>i e. (i, e) \<in> set es \<Longrightarrow> rd_Bind (re_Plan e) = None \<and> i < length (p1_readConnPool p) \<and> valid_idx b (int i)"
    and "\<And>db arg w. db \<in> set (p1_readConnPool p) \<Longrightarrow> \<exists>x w'. ctl_query ctl db arg w = (Err x, w')"
  shows "\<exists>w'. p1_read_loop ctl p seq es (w, b) = (Ok (), (w', if es = [] then b else delete_idle b seq))"
  using assms(1)
proof (induction es arbitrary: w b)
  case (Cons ie es)
  obtain i e where ie: "ie = (i, e)" by fastforce
  with Cons.prems[of i e] have e: "rd_Bind (re_Plan e) = None" "i < length (p1_readConnPool p)" "valid_idx b (int i)" by auto
  then have "p1_readConnPool p ! i \<in> set (p1_readConnPool p)" by simp
  then obtain x w1 where q: "ctl_query ctl (p1_readConnPool p ! i)
      \<lparr>a_Query = rd_Query (re_Plan e), a_Args = None, a_IsTransaction = rd_Tran (re_Plan e)\<rparr> w = (Err x, w1)"
    using assms(2) by blast
  have "\<exists>w'. p1_read_loop ctl p seq es (w1, delete_idle b seq) =
      (Ok (), (w', if es = [] then delete_idle b seq else delete_idle (delete_idle b seq) seq))"
    by (rule Cons.IH) (use Cons.prems in auto)
  with e q show ?case
    by (auto simp: ie bindS_def p1_read_unbound_def nb_set_table_nothing go_index_int split: if_splits)
qed simp

text \<open>Reading in the second version succeeds although every query fails: the buffer's answer
  replaces the error, and nothing but the dropping of idle columns happens to the buffer.\<close>

theorem new_plan_loses_query_errors:
  assumes "\<And>e. e \<in> set (sc_Read (p1_useConf p)) \<Longrightarrow> rd_Bind (re_Plan e) = None"
    and "length (sc_Read (p1_useConf p)) \<le> length (p1_readConnPool p)"
    and "length (sc_Read (p1_useConf p)) \<le> length (nb_table buf)"
    and "\<And>db arg w. db \<in> set (p1_readConnPool p) \<Longrightarrow> \<exists>x w'. ctl_query ctl db arg w = (Err x, w')"
  shows "\<exists>w'. p1_read_run ctl p seq (w, buf) =
    (Ok (), (w', if sc_Read (p1_useConf p) = [] then buf else delete_idle buf seq))"
proof -
  have "\<exists>w'. p1_read_loop ctl p seq (enumerate 0 (sc_Read (p1_useConf p))) (w, buf) =
      (Ok (), (w', if enumerate 0 (sc_Read (p1_useConf p)) = [] then buf else delete_idle buf seq))"
    by (rule read_loop_loses_errors[OF _ assms(4)])
      (use assms(1-3) in \<open>fastforce simp: in_set_enumerate_eq valid_idx_def\<close>)
  then show ?thesis by (simp add: p1_read_run_def enumerate_eq_zip)
qed

section \<open>The theorems at work\<close>

lemma fix_bind_pads_to_ten_witness:
  "p1_fix_bind None (new_plan_param_buffer_v1 1 0 0 0)
      \<lparr>rb_Fix = Some [(''2'', \<lparr>rp_Dynamic = None, rp_Static = Some ''x''\<rparr>)], rb_PrevVm = None, rb_Prev = False\<rparr> =
    Ok (Some ([GNil, GString ''x''] @ replicate (10 - length [GNil, GString ''x'']) GNil))"
proof -
  let ?fx = "[(''2'', \<lparr>rp_Dynamic = None, rp_Static = Some ''x''\<rparr>)]"
  have at: "atoi ''2'' = Ok 2" by code_simp
  have "make_read_fix \<lparr>pb_m = [[]], pb_rowCap = 1, pb_rowIdleSec = 0\<rparr> 5 ?fx = Ok (Some [[GNil, GString ''x'']])"
    by (simp add: make_read_fix_def at go_make_def go_store_def read_pos_value_def numeral_2_eq_2)
  from fix_bind_pads_to_ten[OF this, of _ "new_plan_param_buffer_v1 1 0 0 0" None] show ?thesis
    by (simp add: read_pos_value_def p1_pos_value_def)
qed

text \<open>One read of a database that refuses everything.\<close>

lemma new_plan_loses_query_errors_witness:
  "\<exists>w'. p1_read_run ((probe_ctl [] [])\<lparr>ctl_query := \<lambda>_ _ w. (Err (ESys ''down''), w)\<rparr>)
      (zero_plan_v1\<lparr>p1_useConf := probe_config None None, p1_readConnPool := [''src'']\<rparr>) 5
      ([], new_plan_param_buffer_v1 1 0 0 0) =
    (Ok (), (w', if sc_Read (probe_config None None) = [] then new_plan_param_buffer_v1 1 0 0 0
      else delete_idle (new_plan_param_buffer_v1 1 0 0 0) 5))"
  using new_plan_loses_query_errors[of "zero_plan_v1\<lparr>p1_useConf := probe_config None None, p1_readConnPool := [''src'']\<rparr>"
      "new_plan_param_buffer_v1 1 0 0 0" "(probe_ctl [] [])\<lparr>ctl_query := \<lambda>_ _ w. (Err (ESys ''down''), w)\<rparr>" 5 "[]"]
  by (simp add: probe_config_def probe_read_def new_plan_param_buffer_v1_def Let_def)

end
