(* ===== verification/ProcWindows.thy ===== *)
theory ProcWindows
  imports Master
begin

text \<open>
  The variants for Windows: \<^verbatim>\<open>entry/master/proc_exec_windows.go\<close>, which asks PowerShell
  about a process, and \<^verbatim>\<open>entry/syncd/proc_sync_windows.go\<close>.  PowerShell is a function from
  the script and the system to what running it gave.
\<close>

section \<open>Asking about a process\<close>

datatype ps_result = PsOutput string | PsExit int | PsFailed gerror

type_synonym 'o powershell = "string \<Rightarrow> 'o \<Rightarrow> ps_result"

definition find_script :: "int \<Rightarrow> string" where
  "find_script pid =
    ''$p = Get-CimInstance Win32_Process -Filter '' @ [CHR 0x27] @ ''ProcessId = '' @ itoa pid @ [CHR 0x27] @
    '' -ErrorAction Stop; '' @ ''if ($null -eq $p) { exit 2 }''"

definition parent_script :: "int \<Rightarrow> string" where
  "parent_script pid = find_script pid @ ''; '' @ ''[Console]::Write($p.ParentProcessId)''"

definition ps_err :: "ps_result \<Rightarrow> gerror" where
  "ps_err r = (case r of PsFailed e \<Rightarrow> e | _ \<Rightarrow> ESys ''exit status'')"

definition win_read_ppid :: "'o powershell \<Rightarrow> int \<Rightarrow> 'o \<Rightarrow> int go" where
  "win_read_ppid ps pid os =
    (case ps (parent_script pid) os of
      PsOutput out \<Rightarrow> wrap_err ''parse PPID failed'' (atoi (trim_space out))
    | r \<Rightarrow> Err (EWrap (Some (ps_err r)) ''read process PPID failed''))"

definition win_exists_proc_pid :: "'o powershell \<Rightarrow> int \<Rightarrow> 'o \<Rightarrow> bool go" where
  "win_exists_proc_pid ps pid os =
    (case ps (find_script pid) os of
      PsOutput _ \<Rightarrow> Ok True
    | r \<Rightarrow> if r = PsExit 2 then Ok False else Err (EWrap (Some (ps_err r)) ''exists process failed''))"

text \<open>\<^verbatim>\<open>Alive\<close> and \<^verbatim>\<open>Kill\<close> of \<^verbatim>\<open>proc_exec.go\<close> over them.\<close>

definition win_alive :: "'o powershell \<Rightarrow> string \<Rightarrow> 'o proc_manager \<Rightarrow> bool" where
  "win_alive ps syncIdent pm =
    (case map_of (pm_procs pm) syncIdent of
      None \<Rightarrow> False
    | Some pid \<Rightarrow>
        (case win_exists_proc_pid ps pid (pm_os pm) of
          Ok True \<Rightarrow> (case win_read_ppid ps pid (pm_os pm) of Ok ppid \<Rightarrow> ppid = pm_rootPid pm | _ \<Rightarrow> False)
        | _ \<Rightarrow> False))"

definition win_kill :: "'o powershell \<Rightarrow> 'o os_ctl \<Rightarrow> string \<Rightarrow> ('o proc_manager, unit) goS" where
  "win_kill ps ctl syncIdent pm =
    (case map_of (pm_procs pm) syncIdent of
      None \<Rightarrow> (Err (sentinel_err NotExistsError ''process not found: %s''), pm)
    | Some pid \<Rightarrow>
        bindS (\<lambda>pm. (wrap_err ''check process failed'' (win_exists_proc_pid ps pid (pm_os pm)), pm)) (\<lambda>exists.
          if \<not> exists then failS (sentinel_err NotExistsError ''process not found: %s'')
          else bindS (\<lambda>pm. (wrap_err ''read process PPID failed'' (win_read_ppid ps pid (pm_os pm)), pm)) (\<lambda>ppid.
            if ppid \<noteq> pm_rootPid pm then failS (sentinel_err NotExistsError ''process parent mismatch: %s'')
            else bindS (wrapS ''kill process failed'' (on_os (oc_kill ctl pid))) (\<lambda>_.
              \<lambda>pm. (Ok (), pm\<lparr>pm_procs := AList.delete syncIdent (pm_procs pm)\<rparr>)))) pm)"

text \<open>\<^verbatim>\<open>IsParentRunning\<close>, given the parent's pid and what opening it and reading its exit
  code gave; 259 is \<^verbatim>\<open>STILL_ACTIVE\<close>.\<close>

definition win_is_parent_running :: "int \<Rightarrow> unit go \<Rightarrow> 32 word go \<Rightarrow> bool" where
  "win_is_parent_running ppid opened exitCode =
    (if ppid \<le> 0 then False
     else (case opened of Ok _ \<Rightarrow> (case exitCode of Ok c \<Rightarrow> c = 259 | _ \<Rightarrow> False) | _ \<Rightarrow> False))"

section \<open>A child that has died\<close>

text \<open>PowerShell as documented: a process that has ended is not found, another one's parent is written
  as a number, here with a line end after it.\<close>

definition tells :: "os_table powershell \<Rightarrow> os_table \<Rightarrow> int \<Rightarrow> bool" where
  "tells ps os pid \<longleftrightarrow>
    (case map_of (os_procs os) pid of
      Some p \<Rightarrow> if op_running p then (\<exists>out. ps (find_script pid) os = PsOutput out) \<and>
          ps (parent_script pid) os = PsOutput (itoa (op_ppid p) @ [CHR 0x0A])
        else ps (find_script pid) os = PsExit 2 \<and> ps (parent_script pid) os = PsExit 2
    | None \<Rightarrow> ps (find_script pid) os = PsExit 2 \<and> ps (parent_script pid) os = PsExit 2)"

lemma is_space_itoa: "c \<in> set (itoa i) \<Longrightarrow> \<not> is_space c"
  using itoa_chars[of c i] by (auto simp: is_space_def digit_val_def split: if_splits)

lemma drop_spaces: "(\<And>c. c \<in> set s \<Longrightarrow> \<not> is_space c) \<Longrightarrow> dropWhile is_space s = s"
  by (cases s) auto

lemma trim_itoa_line: "trim_space (itoa i @ [CHR 0x0A]) = itoa i"
proof -
  have ne: "itoa i \<noteq> []" by (simp add: itoa_def)
  have "dropWhile is_space (itoa i @ [CHR 0x0A]) = itoa i @ [CHR 0x0A]"
    using ne is_space_itoa[of "hd (itoa i)" i] by (cases "itoa i") auto
  moreover have "dropWhile is_space (CHR 0x0A # rev (itoa i)) = rev (itoa i)"
    using drop_spaces[of "rev (itoa i)"] is_space_itoa by (simp add: is_space_def)
  ultimately show ?thesis by (simp add: trim_space_def)
qed

lemma win_read_ppid_running:
  assumes "tells ps os pid" "map_of (os_procs os) pid = Some p" "op_running p" "in_int64 (op_ppid p)"
  shows "win_read_ppid ps pid os = Ok (op_ppid p)" "win_exists_proc_pid ps pid os = Ok True"
  using assms by (auto simp: tells_def win_read_ppid_def win_exists_proc_pid_def trim_itoa_line)

lemma win_exists_gone:
  "tells ps os pid \<Longrightarrow> map_of (os_procs os) pid = Some p \<Longrightarrow> \<not> op_running p \<Longrightarrow> win_exists_proc_pid ps pid os = Ok False"
  by (simp add: tells_def win_exists_proc_pid_def)

text \<open>On Windows a tracked child is alive exactly as long as it runs; on Linux, where the master never
  waits for its children, it is alive for good.\<close>

theorem windows_alive_is_running:
  assumes "pm_wf pm" "map_of (pm_procs pm) s = Some pid" "tells ps (pm_os pm) pid"
  shows "(win_alive ps s pm \<longleftrightarrow> (\<exists>p. map_of (os_procs (pm_os pm)) pid = Some p \<and> op_running p)) \<and>
    pm_alive table_ctl s pm"
proof
  obtain p where p: "map_of (os_procs (pm_os pm)) pid = Some p" "op_ppid p = os_self (pm_os pm)"
    using pm_wf_tracked[OF assms(1,2)] by (auto simp: is_child_def)
  have self: "pm_rootPid pm = os_self (pm_os pm)" "in_int64 (os_self (pm_os pm))"
    using assms(1) by (simp_all add: pm_wf_def os_wf_def)
  show "win_alive ps s pm \<longleftrightarrow> (\<exists>p. map_of (os_procs (pm_os pm)) pid = Some p \<and> op_running p)"
  proof (cases "op_running p")
    case True
    with p self win_read_ppid_running[OF assms(3) p(1) True] assms(2) show ?thesis by (simp add: win_alive_def)
  next
    case False
    with p win_exists_gone[OF assms(3) p(1)] assms(2) show ?thesis by (simp add: win_alive_def)
  qed
  show "pm_alive table_ctl s pm"
    using alive_iff_tracked[OF assms(1), of s] assms(2) by (force simp: pm_list_def dest: map_of_SomeD)
qed

text \<open>A kill takes the child out of the table, and one that has died by itself cannot be killed.\<close>

theorem windows_kill:
  assumes "pm_wf pm" "map_of (pm_procs pm) s = Some pid" "map_of (os_procs (pm_os pm)) pid = Some p"
    and "tells ps (pm_os pm) pid"
  shows "win_kill ps table_ctl s pm =
    (if op_running p then (Ok (), pm\<lparr>pm_os := os_exit pid (pm_os pm), pm_procs := AList.delete s (pm_procs pm)\<rparr>)
     else (Err (sentinel_err NotExistsError ''process not found: %s''), pm))"
proof -
  have "op_ppid p = os_self (pm_os pm)"
    using pm_wf_tracked[OF assms(1,2)] assms(3) by (auto simp: is_child_def)
  then have self: "pm_rootPid pm = op_ppid p" "in_int64 (op_ppid p)"
    using assms(1) by (simp_all add: pm_wf_def os_wf_def)
  show ?thesis
  proof (cases "op_running p")
    case True
    with self win_read_ppid_running[OF assms(4,3) True] assms(2,3) show ?thesis
      by (simp add: win_kill_def bindS_def wrapS_def on_os_def table_ctl_def table_kill_def os_exit_def)
  next
    case False
    with win_exists_gone[OF assms(4,3)] assms(2) show ?thesis by (simp add: win_kill_def bindS_def)
  qed
qed

section \<open>The theorems at work\<close>

text \<open>Process 1 with the tracked child 7, which has died.\<close>

definition dead_child :: "os_table proc_manager" where
  "dead_child = \<lparr>pm_rootFlagStr = [], pm_rootPid = 1, pm_procs = [(''db'', 7)],
    pm_os = \<lparr>os_self = 1, os_procs = [(7, \<lparr>op_ppid = 1, op_running = False\<rparr>)], os_pids = []\<rparr>\<rparr>"

lemma dead_child_wf: "pm_wf dead_child" "tells (\<lambda>_ _. PsExit 2) (pm_os dead_child) 7"
  by (simp_all add: dead_child_def pm_wf_def os_wf_def pm_list_def is_child_def in_int64_def tells_def)

lemma windows_alive_is_running_witness:
  "\<not> win_alive (\<lambda>_ _. PsExit 2) ''db'' dead_child \<and> pm_alive table_ctl ''db'' dead_child"
  using windows_alive_is_running[OF dead_child_wf(1) _ dead_child_wf(2), of "''db''"]
  by (simp add: dead_child_def)

lemma windows_kill_witness:
  "win_kill (\<lambda>_ _. PsExit 2) table_ctl ''db'' dead_child =
    (Err (sentinel_err NotExistsError ''process not found: %s''), dead_child)"
  using windows_kill[OF dead_child_wf(1) _ _ dead_child_wf(2), of "''db''" "\<lparr>op_ppid = 1, op_running = False\<rparr>"]
  by (simp add: dead_child_def)

end
