(* ===== verification/Waiting.thy ===== *)
theory Waiting
  imports Prelude
begin

text \<open>
  \<^verbatim>\<open>utils/context.go\<close> and \<^verbatim>\<open>utils/sleep.go\<close>: merging contexts with goroutines that
  watch them, a step relation, and the sleep to the next multiple of an interval.
\<close>

section \<open>Merging contexts\<close>

text \<open>\<open>mc_spawned\<close> counts the watchers the first goroutine has started, \<open>mc_ended\<close> are the ones that have
  returned; \<open>mc_main\<close> says that the first goroutine has returned.\<close>

record merge_ctx =
  mc_done :: "bool list"
  mc_cancelled :: bool
  mc_merged :: bool
  mc_spawned :: nat
  mc_ended :: "nat set"
  mc_main :: bool

definition any_context :: "bool list \<Rightarrow> merge_ctx" where
  "any_context ctxs = \<lparr>mc_done = ctxs, mc_cancelled = False, mc_merged = False, mc_spawned = 0,
    mc_ended = {}, mc_main = False\<rparr>"

text \<open>What the outside does, a context ending or the caller calling the cancel function; and what the
  goroutines do.\<close>

datatype mc_act = CtxDone nat | CallCancel | MainStep | WatchStep nat

fun mc_step :: "mc_act \<Rightarrow> merge_ctx \<Rightarrow> merge_ctx option" where
  "mc_step (CtxDone i) s =
    (if i < length (mc_done s) then Some (s\<lparr>mc_done := (mc_done s)[i := True]\<rparr>) else None)"
| "mc_step CallCancel s = Some (s\<lparr>mc_cancelled := True, mc_merged := True\<rparr>)"
| "mc_step MainStep s =
    (if mc_main s then None
     else if mc_spawned s < length (mc_done s) then Some (s\<lparr>mc_spawned := Suc (mc_spawned s)\<rparr>)
     else if mc_merged s then Some (s\<lparr>mc_main := True\<rparr>) else None)"
| "mc_step (WatchStep i) s =
    (if i < mc_spawned s \<and> i \<notin> mc_ended s \<and> (mc_done s ! i \<or> mc_merged s)
     then Some (s\<lparr>mc_merged := True, mc_ended := insert i (mc_ended s)\<rparr>) else None)"

fun by_program :: "mc_act \<Rightarrow> bool" where
  "by_program MainStep = True"
| "by_program (WatchStep i) = True"
| "by_program _ = False"

fun mc_run :: "mc_act list \<Rightarrow> merge_ctx \<Rightarrow> merge_ctx option" where
  "mc_run [] s = Some s"
| "mc_run (a # acts) s = Option.bind (mc_step a s) (mc_run acts)"

definition settled :: "merge_ctx \<Rightarrow> bool" where
  "settled s \<longleftrightarrow> mc_step MainStep s = None \<and> (\<forall>i < length (mc_done s). mc_step (WatchStep i) s = None)"

definition asked :: "merge_ctx \<Rightarrow> bool" where
  "asked s \<longleftrightarrow> mc_cancelled s \<or> True \<in> set (mc_done s)"

definition mc_inv :: "nat \<Rightarrow> merge_ctx \<Rightarrow> bool" where
  "mc_inv n s \<longleftrightarrow> length (mc_done s) = n \<and> mc_spawned s \<le> n \<and> mc_ended s \<subseteq> {..<mc_spawned s} \<and>
    (mc_merged s \<longrightarrow> asked s) \<and> (mc_cancelled s \<longrightarrow> mc_merged s) \<and>
    (mc_ended s \<noteq> {} \<longrightarrow> mc_merged s) \<and> (mc_main s \<longrightarrow> mc_merged s \<and> mc_spawned s = n)"

text \<open>How many steps the goroutines still have.\<close>

definition mc_left :: "nat \<Rightarrow> merge_ctx \<Rightarrow> nat" where
  "mc_left n s = (n - mc_spawned s) + (n - card (mc_ended s)) + (if mc_main s then 0 else 1)"

lemma mc_inv_start: "mc_inv (length ctxs) (any_context ctxs)" "mc_left (length ctxs) (any_context ctxs) = 2 * length ctxs + 1"
  by (simp_all add: mc_inv_def any_context_def mc_left_def)

lemma asked_update: "True \<in> set xs \<Longrightarrow> True \<in> set (xs[i := True])"
proof -
  assume "True \<in> set xs"
  then obtain j where "j < length xs" "xs ! j" by (auto simp: in_set_conv_nth)
  then have "j < length (xs[i := True])" "xs[i := True] ! j = True" by (cases "i = j"; simp)+
  then show ?thesis by (metis nth_mem)
qed

lemma mc_inv_step:
  assumes "mc_inv n s" "mc_step a s = Some s'"
  shows "mc_inv n s' \<and> mc_left n s' + (if by_program a then 1 else 0) = mc_left n s"
proof (cases a)
  case (CtxDone i)
  with assms show ?thesis by (auto simp: mc_inv_def mc_left_def asked_def asked_update split: if_splits)
next
  case CallCancel
  with assms show ?thesis by (auto simp: mc_inv_def mc_left_def asked_def)
next
  case MainStep
  with assms show ?thesis by (auto simp: mc_inv_def mc_left_def asked_def split: if_splits)
next
  case (WatchStep i)
  with assms have s': "s' = s\<lparr>mc_merged := True, mc_ended := insert i (mc_ended s)\<rparr>" "i < mc_spawned s" "i \<notin> mc_ended s"
    "mc_done s ! i \<or> mc_merged s" by (auto split: if_splits)
  have "mc_ended s' \<subseteq> {..<n}" "finite (mc_ended s)" using assms(1) s' finite_subset[of "mc_ended s" "{..<mc_spawned s}"]
    by (auto simp: mc_inv_def)
  then have "card (insert i (mc_ended s)) \<le> n" "card (insert i (mc_ended s)) = Suc (card (mc_ended s))"
    using s'(1,3) card_mono[of "{..<n}" "mc_ended s'"] by auto
  moreover have "asked s"
    using assms(1) s'(2,4) by (auto simp: mc_inv_def asked_def in_set_conv_nth)
  ultimately show ?thesis
    using assms(1) s' WatchStep by (auto simp: mc_inv_def mc_left_def asked_def)
qed

lemma mc_run_inv:
  "mc_inv n s \<Longrightarrow> mc_run acts s = Some s' \<Longrightarrow>
    mc_inv n s' \<and> mc_left n s' + length (filter by_program acts) = mc_left n s"
proof (induction acts arbitrary: s)
  case (Cons a acts)
  from Cons.prems(2) obtain t where t: "mc_step a s = Some t" "mc_run acts t = Some s'"
    by (auto simp: bind_eq_Some_conv)
  from mc_inv_step[OF Cons.prems(1) t(1)] have "mc_inv n t" by blast
  from Cons.IH[OF this t(2)] mc_inv_step[OF Cons.prems(1) t(1)] show ?case by auto
qed simp

lemma settled_ended:
  assumes "mc_inv n s" "settled s"
  shows "mc_merged s = asked s" "mc_merged s \<Longrightarrow> mc_main s \<and> mc_ended s = {..<n}"
proof -
  have main: "mc_main s \<or> \<not> mc_merged s" and all: "mc_spawned s = n"
    using assms by (auto simp: settled_def mc_inv_def split: if_splits)
  have w: "i \<in> mc_ended s \<or> \<not> (mc_done s ! i \<or> mc_merged s)" if "i < n" for i
    using assms that all by (auto simp: settled_def mc_inv_def split: if_splits)
  have "mc_merged s" if "asked s"
  proof (rule ccontr)
    assume "\<not> mc_merged s"
    with that assms(1) obtain i where "i < n" "mc_done s ! i"
      by (auto simp: asked_def mc_inv_def in_set_conv_nth)
    with w[of i] \<open>\<not> mc_merged s\<close> assms(1) show False by (auto simp: mc_inv_def)
  qed
  with assms(1) show "mc_merged s = asked s" by (auto simp: mc_inv_def)
  assume "mc_merged s"
  with main w all assms(1) show "mc_main s \<and> mc_ended s = {..<n}" by (auto simp: mc_inv_def)
qed

text \<open>C32: However contexts end, the caller cancels and the goroutines are scheduled, the goroutines take at
  most two steps per context and one more.  When none can go on, the merged context is done exactly
  when one of the contexts is or the caller has cancelled, and then every goroutine has returned.\<close>

theorem any_context_merges:
  assumes "mc_run acts (any_context ctxs) = Some s"
  shows "length (filter by_program acts) \<le> 2 * length ctxs + 1 \<and>
    (settled s \<longrightarrow> mc_merged s = asked s \<and>
      (mc_merged s \<longrightarrow> mc_main s \<and> mc_ended s = {..<length ctxs}))"
proof -
  note run = mc_run_inv[OF mc_inv_start(1) assms]
  then have "length (filter by_program acts) \<le> 2 * length ctxs + 1"
    using mc_inv_start(2)[of ctxs] by simp
  with settled_ended[of "length ctxs" s] run show ?thesis by blast
qed

section \<open>Sleeping to the next tick\<close>

text \<open>In nanoseconds of the wall clock.  \<^verbatim>\<open>Truncate\<close> leaves a time alone when the interval is
  not positive.\<close>

definition truncate_time :: "int \<Rightarrow> int \<Rightarrow> int" where
  "truncate_time now interval = (if interval \<le> 0 then now else now - now mod interval)"

text \<open>When the call returns: the clock is read once for the next tick (\<open>now\<close>) and again in
  \<^verbatim>\<open>time.Until\<close> (\<open>now'\<close>); \<^verbatim>\<open>time.Sleep\<close> takes at least the time it is given, here \<open>late\<close> more,
  and nothing but that for a negative one.\<close>

definition interval_sleep :: "int \<Rightarrow> int \<Rightarrow> int \<Rightarrow> int \<Rightarrow> int \<Rightarrow> int" where
  "interval_sleep now now' late interval offset =
    (let nxt = truncate_time now interval + interval + offset in now' + max 0 (nxt - now') + late)"

text \<open>Rounds of work, each followed by the sleep: when they start.  A round is the time of its work, the
  time between the two readings, and how late the sleep ends.\<close>

type_synonym round_times = "int \<times> int \<times> int"

fun round_starts :: "int \<Rightarrow> int \<Rightarrow> int \<Rightarrow> round_times list \<Rightarrow> int list" where
  "round_starts interval offset t [] = [t]"
| "round_starts interval offset t ((work, gap, late) # rounds) =
    t # round_starts interval offset (interval_sleep (t + work) (t + work + gap) late interval offset) rounds"

definition next_tick :: "int \<Rightarrow> int \<Rightarrow> int \<Rightarrow> int" where
  "next_tick interval offset now = (now div interval + 1) * interval + offset"

text \<open>A round that fits between the offset and the next tick, up to a lateness \<open>d\<close>.\<close>

definition round_fits :: "int \<Rightarrow> int \<Rightarrow> int \<Rightarrow> round_times \<Rightarrow> bool" where
  "round_fits interval offset d r \<longleftrightarrow> (case r of (work, gap, late) \<Rightarrow>
    0 \<le> work \<and> 0 \<le> gap \<and> 0 \<le> late \<and> gap + late \<le> d \<and> offset + d + work < interval)"

lemma sleep_tick:
  assumes "0 < interval" "0 \<le> offset" "0 \<le> gap" "0 \<le> late"
  shows "next_tick interval offset now \<le> interval_sleep now (now + gap) late interval offset"
    and "interval_sleep now (now + gap) late interval offset \<le> next_tick interval offset now + gap + late"
proof -
  have "now - now mod interval = now div interval * interval" by (simp add: minus_mod_eq_div_mult)
  then have nxt: "truncate_time now interval + interval + offset = next_tick interval offset now"
    using assms(1) by (simp add: truncate_time_def next_tick_def distrib_right)
  have "now mod interval < interval" using assms(1) by simp
  moreover have "now - now mod interval + interval + offset = next_tick interval offset now"
    using nxt assms(1) by (simp add: truncate_time_def)
  ultimately have "now \<le> next_tick interval offset now" using assms(2) by linarith
  with assms(3,4) show "next_tick interval offset now \<le> interval_sleep now (now + gap) late interval offset"
    "interval_sleep now (now + gap) late interval offset \<le> next_tick interval offset now + gap + late"
    by (simp_all add: interval_sleep_def nxt Let_def)
qed

text \<open>A round that starts at most \<open>d\<close> after a tick and fits ends at most \<open>d\<close> after the next one.\<close>

lemma tick_after:
  assumes "0 < interval" "0 \<le> offset" "round_fits interval offset d (work, gap, late)"
    and "k * interval + offset \<le> t" "t \<le> k * interval + offset + d"
  shows "next_tick interval offset (t + work) = (k + 1) * interval + offset"
proof -
  have "k * interval \<le> t + work" "t + work < k * interval + interval"
    using assms by (auto simp: round_fits_def)
  then have "t + work = k * interval + (t + work - k * interval)" "0 \<le> t + work - k * interval" "t + work - k * interval < interval"
    by simp_all
  then have "(t + work) div interval = k"
    by (metis add.right_neutral assms(1) div_mult_self3 div_pos_pos_trivial less_irrefl)
  then show ?thesis by (simp add: next_tick_def)
qed

lemma starts_near_ticks:
  assumes "0 < interval" "0 \<le> offset" "\<forall>r \<in> set rounds. round_fits interval offset d r"
    and "k * interval + offset \<le> t" "t \<le> k * interval + offset + d" "i \<le> length rounds"
  shows "(k + int i) * interval + offset \<le> round_starts interval offset t rounds ! i \<and>
    round_starts interval offset t rounds ! i \<le> (k + int i) * interval + offset + d"
  using assms(3-6)
proof (induction rounds arbitrary: t k i)
  case (Cons r rounds)
  obtain work gap late where r: "r = (work, gap, late)" by (metis prod_cases3)
  with Cons.prems(1) have f: "round_fits interval offset d (work, gap, late)" by simp
  show ?case
  proof (cases i)
    case (Suc j)
    let ?t = "interval_sleep (t + work) (t + work + gap) late interval offset"
    have "(k + 1) * interval + offset \<le> ?t" "?t \<le> (k + 1) * interval + offset + d"
      using sleep_tick[OF assms(1,2), of gap late "t + work"] tick_after[OF assms(1,2) f Cons.prems(2,3)] f
      by (auto simp: round_fits_def)
    from Cons.IH[OF _ this, of j] Cons.prems(1,4) Suc r show ?thesis by (simp add: add.assoc)
  qed (use Cons.prems r in simp)
qed simp

text \<open>C39: A loop that sleeps between its rounds does not drift, whenever it starts.  As long as the work of a
  round and the delays of the clock fit between the offset and the next tick (\<open>round_fits\<close>), round number
  \<open>i + 1\<close> starts \<open>i\<close> intervals after the first tick, at most as much later as one round's own delays
  (\<open>gap\<close> between the readings of the clock, \<open>late\<close> in the wake-up, together at most \<open>d\<close>), however
  many rounds have been late before it.\<close>

theorem rounds_do_not_drift:
  assumes "0 < interval" "0 \<le> offset" "\<forall>r \<in> set rounds. round_fits interval offset d r" "i < length rounds"
  shows "next_tick interval offset (t + fst (hd rounds)) + int i * interval \<le> round_starts interval offset t rounds ! Suc i \<and>
    round_starts interval offset t rounds ! Suc i \<le> next_tick interval offset (t + fst (hd rounds)) + int i * interval + d"
proof -
  obtain work gap late rest where r: "rounds = (work, gap, late) # rest"
    using assms(4) by (cases rounds) auto
  then have f: "round_fits interval offset d (work, gap, late)" using assms(3) by simp
  let ?k = "(t + work) div interval + 1" and ?t = "interval_sleep (t + work) (t + work + gap) late interval offset"
  have "?k * interval + offset \<le> ?t" "?t \<le> ?k * interval + offset + d"
    using sleep_tick[OF assms(1,2), of gap late "t + work"] f by (auto simp: round_fits_def next_tick_def)
  from starts_near_ticks[OF assms(1,2) _ this, of rest i] assms(3,4) r show ?thesis
    by (simp add: next_tick_def algebra_simps)
qed

section \<open>The theorems at work\<close>

text \<open>Two contexts, the second of which ends; the run is complete.\<close>

definition second_ends :: merge_ctx where
  "second_ends = the (mc_run [MainStep, MainStep, CtxDone 1, WatchStep 1, WatchStep 0, MainStep] (any_context [False, False]))"

lemma any_context_merges_witness:
  "settled second_ends \<and> mc_merged second_ends \<and> mc_ended second_ends = {..<2}"
proof -
  have r: "mc_run [MainStep, MainStep, CtxDone 1, WatchStep 1, WatchStep 0, MainStep] (any_context [False, False]) = Some second_ends"
    by (simp add: second_ends_def any_context_def)
  have "settled second_ends" "asked second_ends"
    by (simp_all add: second_ends_def any_context_def settled_def asked_def All_less_Suc numeral_2_eq_2)
  with any_context_merges[OF r] show ?thesis by (simp add: numeral_2_eq_2)
qed

lemma rounds_do_not_drift_witness:
  "130 \<le> round_starts 60 10 30 [(5, 1, 2), (40, 0, 0), (20, 0, 3)] ! Suc 1 \<and>
    round_starts 60 10 30 [(5, 1, 2), (40, 0, 0), (20, 0, 3)] ! Suc 1 \<le> 133"
  using rounds_do_not_drift[of 60 10 "[(5, 1, 2), (40, 0, 0), (20, 0, 3)]" 3 1 30]
  by (simp add: round_fits_def next_tick_def)

end
