(* ===== verification/Messages.thy ===== *)
theory Messages
  imports Prelude
begin

text \<open>
  \<^verbatim>\<open>msg\<close>: the table of message texts, a package variable that is never made.
\<close>

record message_desc =
  md_Level :: string
  md_Name :: string
  md_Text :: string

type_synonym message_table = "(int \<times> (int \<times> message_desc) list) list"

definition zero_desc :: message_desc where
  "zero_desc = \<lparr>md_Level = [], md_Name = [], md_Text = []\<rparr>"

text \<open>\<^verbatim>\<open>var messageMap\<close> without a value: the nil map.\<close>

definition message_map :: "message_table option" where
  "message_map = None"

text \<open>The target, the codes and the levels.\<close>

definition COMMON_TAGET :: int where "COMMON_TAGET = 0"
definition PROC_STARTUP :: int where "PROC_STARTUP = 1"
definition PROC_CORE :: int where "PROC_CORE = 99999"
definition PROC_WARNING :: int where "PROC_WARNING = 2"
definition PROC_ERROR :: int where "PROC_ERROR = 3"

lemmas msg_codes = COMMON_TAGET_def PROC_STARTUP_def PROC_CORE_def PROC_WARNING_def PROC_ERROR_def

datatype message_level = LevelC | LevelN | LevelW | LevelE

fun level_text :: "message_level \<Rightarrow> string" where
  "level_text LevelC = ''Critical''"
| "level_text LevelN = ''Normal''"
| "level_text LevelW = ''Warn''"
| "level_text LevelE = ''Error''"

definition common_messages :: "(int \<times> message_desc) list" where
  "common_messages =
    [(PROC_STARTUP, \<lparr>md_Level = level_text LevelN, md_Name = ''PROC_STARTUP'', md_Text = ''start up process''\<rparr>),
     (PROC_CORE, \<lparr>md_Level = level_text LevelC, md_Name = ''PROC_CORE'', md_Text = ''process is sigfault''\<rparr>),
     (PROC_WARNING, \<lparr>md_Level = level_text LevelW, md_Name = ''PROC_WARNING'', md_Text = ''warning message''\<rparr>),
     (PROC_ERROR, \<lparr>md_Level = level_text LevelE, md_Name = ''PROC_ERROR'', md_Text = ''error message''\<rparr>)]"

definition store_messages :: "int \<Rightarrow> (int \<times> message_desc) list \<Rightarrow> (message_table option, unit) goS" where
  "store_messages target ms t = (case t of None \<Rightarrow> (Panic PNilMap, t) | Some m \<Rightarrow> (Ok (), Some (AList.update target ms m)))"

definition msg_init :: "(message_table option, unit) goS" where
  "msg_init = store_messages COMMON_TAGET common_messages"

definition get_message :: "message_table option \<Rightarrow> int \<Rightarrow> int \<Rightarrow> message_desc" where
  "get_message t target code =
    (case Option.bind (Option.bind t (\<lambda>m. map_of m target)) (\<lambda>ms. map_of ms code) of
      None \<Rightarrow> zero_desc | Some d \<Rightarrow> d)"

text \<open>The start of the package panics; with a map that had been made every message would be read
  back, and every other code give the empty one.\<close>

theorem messages_read_back:
  "msg_init message_map = (Panic PNilMap, message_map) \<and>
    (\<exists>t. msg_init (Some m) = (Ok (), Some t) \<and>
      get_message (Some t) target code =
        (if target = 0 then (case map_of common_messages code of None \<Rightarrow> zero_desc | Some d \<Rightarrow> d)
         else get_message (Some m) target code))"
  by (auto simp: msg_init_def store_messages_def message_map_def get_message_def update_conv' COMMON_TAGET_def)

end
