(* ===== verification/MetricPrint.thy ===== *)
theory MetricPrint
  imports Metric "HOL-Library.Multiset" "HOL-Library.List_Lexorder" "HOL-Library.Char_ord"
begin

text \<open>
  \<^verbatim>\<open>Print\<close> of \<^verbatim>\<open>extension/metric/simple.go\<close>: the text \<^verbatim>\<open>encoding/json\<close> makes of
  the maps, with its fields in the order of their names.  The quoting of a string and the text of
  a number (an error for infinities and NaN) are parameters.
\<close>

fun json_fields :: "(string \<Rightarrow> string) \<Rightarrow> (string \<times> string go) list \<Rightarrow> string go" where
  "json_fields quote [] = Ok []"
| "json_fields quote ((k, r) # kvs) =
    bind_go r (\<lambda>v. bind_go (json_fields quote kvs) (\<lambda>rest.
      Ok (quote k @ '':'' @ v @ (if kvs = [] then [] else '','' @ rest))))"

definition json_object :: "(string \<Rightarrow> string) \<Rightarrow> ('v \<Rightarrow> string go) \<Rightarrow> (string \<times> 'v) list \<Rightarrow> string go" where
  "json_object quote enc kvs =
    bind_go (json_fields quote (sort_key fst (map (\<lambda>(k, v). (k, enc v)) kvs))) (\<lambda>t. Ok (''{'' @ t @ ''}''))"

definition sme_print :: "(string \<Rightarrow> string) \<Rightarrow> ('f \<Rightarrow> string go) \<Rightarrow> 'f simple_metric \<Rightarrow> string go" where
  "sme_print quote num s =
    (case s of None \<Rightarrow> Ok ''{}''
    | Some m \<Rightarrow> (case json_object quote (json_object quote num) m of
        Err e \<Rightarrow> Panic (PExplicit ''marshal'') | r \<Rightarrow> r))"

section \<open>The text says what the store holds\<close>

lemma json_object_cong:
  assumes "distinct (map fst xs)" "distinct (map fst ys)"
    and "(\<lambda>(k, v). (k, enc v)) ` set xs = (\<lambda>(k, v). (k, enc v)) ` set ys"
  shows "json_object quote enc xs = json_object quote enc ys"
proof -
  let ?f = "\<lambda>(k, v). (k, enc v)"
  have fst: "map fst (map ?f zs) = map fst zs" for zs by (induction zs) auto
  then have d: "distinct (map ?f xs)" "distinct (map ?f ys)"
    using assms(1,2) by (metis distinct_map)+
  with assms(3) have "mset (map ?f xs) = mset (map ?f ys)"
    by (intro iffD1[OF set_eq_iff_mset_eq_distinct]) simp_all
  moreover have "inj_on fst (set (map ?f xs))" using assms(1) fst by (metis distinct_map)
  ultimately have "sort_key fst (map ?f xs) = sort_key fst (map ?f ys)"
    by (intro sort_key_inj_key_eq) simp_all
  then show ?thesis by (simp add: json_object_def)
qed

lemma alist_set: "distinct (map fst xs) \<Longrightarrow> (k, v) \<in> set xs \<longleftrightarrow> map_of xs k = Some v"
  by simp

text \<open>Two stores with the same names, keys and values print the same text, however they came about.\<close>

theorem print_is_canonical:
  assumes "sme_wf s" "sme_wf t" "fst ` set (sme_init s) = fst ` set (sme_init t)" "sme_lookup s = sme_lookup t"
  shows "sme_print quote num s = sme_print quote num t"
proof -
  let ?enc = "json_object quote num"
  have print: "sme_print quote num u = (case json_object quote ?enc (sme_init u) of
      Err e \<Rightarrow> Panic (PExplicit ''marshal'') | r \<Rightarrow> r)" for u
    by (simp add: sme_print_def sme_init_def json_object_def split: option.split)
  have sub: "(\<lambda>(k, v). (k, ?enc v)) ` set (sme_init u) \<subseteq> (\<lambda>(k, v). (k, ?enc v)) ` set (sme_init v)"
    if "sme_wf u" "sme_wf v" "fst ` set (sme_init u) = fst ` set (sme_init v)" "sme_lookup u = sme_lookup v" for u v
  proof (clarsimp)
    fix k a
    assume a: "(k, a) \<in> set (sme_init u)"
    with that(3) obtain b where b: "(k, b) \<in> set (sme_init v)" by force
    have wf: "distinct (map fst (sme_init x)) \<and> (\<forall>(n, sub) \<in> set (sme_init x). distinct (map fst sub))" if "sme_wf x" for x
      using that by (auto simp: sme_wf_def sme_init_def split: option.splits)
    have "map_of a = map_of b"
      using fun_cong[OF that(4), of k] a b wf[OF that(1)] wf[OF that(2)]
      by (simp add: sme_lookup_def sme_sub_def)
    moreover have "distinct (map fst a)" "distinct (map fst b)" using wf[OF that(1)] wf[OF that(2)] a b by auto
    ultimately have "?enc a = ?enc b" by (intro json_object_cong) (auto simp: map_of_inject_set)
    with b show "(k, ?enc a) \<in> (\<lambda>(k, v). (k, ?enc v)) ` set (sme_init v)" by force
  qed
  have "json_object quote ?enc (sme_init s) = json_object quote ?enc (sme_init t)"
    by (rule json_object_cong)
      (use assms sub[OF assms] sub[OF assms(2,1) assms(3)[symmetric] assms(4)[symmetric]] in
        \<open>auto simp: sme_wf_def sme_init_def split: option.splits\<close>)
  then show ?thesis by (simp add: print)
qed

text \<open>Two ways to the same counters; an empty store prints as a new one.\<close>

lemma print_is_canonical_witness:
  "sme_print id (\<lambda>n. Ok (itoa n)) (sme_add ''q'' ''a'' 1 (sme_add ''p'' ''b'' 2 None)) =
    sme_print id (\<lambda>n. Ok (itoa n)) (sme_add ''p'' ''b'' 2 (sme_add ''q'' ''a'' (1 :: int) None))"
proof (rule print_is_canonical)
qed (simp_all add: sme_wf_def sme_init_def sme_lookup_def sme_add_def sme_sub_def sme_put_add_def Let_def fun_eq_iff insert_commute)

lemma print_example:
  "sme_print id (\<lambda>n. Ok (itoa n)) (sme_add ''q'' ''a'' 1 (sme_add ''p'' ''b'' (2 :: int) None)) = Ok ''{p:{b:2},q:{a:1}}''"
  by code_simp

end
