(* ===== verification/SharedPlan.thy ===== *)
theory SharedPlan
  imports ScriptPlan ConnPool SharedState
begin

text \<open>
  A plan on what the program gives it: the pools of the shared state
  (\<^verbatim>\<open>state/state.go\<close>), each the pool of \<^verbatim>\<open>connpool/factory.go\<close> over some driver.
  The world of the shared state is the number of clock readings so far.
\<close>

section \<open>The plan's interface to the shared state\<close>

text \<open>The map holds pointers, so a call changes the pool in the map.\<close>

definition on_shared_pool :: "string \<Rightarrow> ('p, 'a) goS \<Rightarrow> (('n, 'p) shared_state, 'a) goS" where
  "on_shared_pool ident m s =
    (case get_conn_pool ident s of
      Ok c \<Rightarrow> (case m c of (r, c') \<Rightarrow> (r, s\<lparr>ss_connPool := sm_store (ss_connPool s) ident c'\<rparr>))
    | Err e \<Rightarrow> (Err e, s)
    | Panic x \<Rightarrow> (Panic x, s))"

definition timed :: "(nat \<Rightarrow> int) \<Rightarrow> (int \<Rightarrow> int \<Rightarrow> ((nat, 'p) shared_state, 'a) goS) \<Rightarrow> ((nat, 'p) shared_state, 'a) goS" where
  "timed clock m s = m (clock (ss_world s)) (clock (Suc (ss_world s))) (s\<lparr>ss_world := Suc (Suc (ss_world s))\<rparr>)"

text \<open>\<^verbatim>\<open>GetVm\<close> makes a new engine whatever the language.\<close>

definition get_vm :: "string \<Rightarrow> ('n, 'p) shared_state \<Rightarrow> unit go" where
  "get_vm lang s = Ok ()"

definition shared_ctl ::
    "('w, 'c) conn_ops \<Rightarrow> (nat \<Rightarrow> int) \<Rightarrow> (string \<Rightarrow> string \<Rightarrow> rows option \<Rightarrow> (script_cache, rows option) goS) \<Rightarrow>
     (nat, ('w, 'c, 'm) conn_pool) shared_state plan_ctl" where
  "shared_ctl ops clock vm =
    \<lparr>ctl_get = (\<lambda>ident s. bind_go (get_conn_pool ident s) (\<lambda>_. Ok ())),
     ctl_query = (\<lambda>ident arg. timed clock (\<lambda>sec sec'. on_shared_pool ident (cp_run_query ops sec sec' arg))),
     ctl_exec = (\<lambda>ident arg. timed clock (\<lambda>sec sec'. on_shared_pool ident (cp_run_execute ops sec sec' arg))),
     ctl_get_vm = get_vm, ctl_vm = vm\<rparr>"

section \<open>Plans whose queries have no rows\<close>

locale rowless_ctl =
  fixes ctl :: "'w plan_ctl"
  assumes no_rows: "ctl_query ctl ident arg w = (Ok (data, cols), w') \<Longrightarrow> data = []"
begin

lemma read_no_rows:
  "get_read_plan_data_from_conn ctl e param w = (Ok (data, cols, next), w') \<Longrightarrow> data = []"
  by (auto simp: get_read_plan_data_from_conn_def wrapS_Ok_iff elim!: bindS_cases split: option.splits)
    (metis no_rows)+

text \<open>A read stores nothing.\<close>

lemma read_loop_Cons:
  "run_read_loop ctl seq ((i, e) # plans) prev =
    bindS (wrapS '''' (make_read_plan_param ctl (re_Plan e) prev seq)) (\<lambda>param.
    bindS (wrapS '''' (on_world (get_read_plan_data_from_conn ctl e param))) (\<lambda>(_, _, isNext).
      if isNext then run_read_loop ctl seq plans prev else retS prev))"
proof -
  have step: "bindS (wrapS '''' (on_buf (alloc_current_data_to_state i [] cols seq))) k = k ()" for cols and k :: "unit \<Rightarrow> ('w run_state, rows option) goS"
    by (simp add: fun_eq_iff alloc_current_data_to_state_def on_buf_def wrapS_def bindS_def)
  have "bindS (wrapS '''' (on_world (get_read_plan_data_from_conn ctl e param))) (\<lambda>(data, cols, isNext).
      bindS (wrapS '''' (on_buf (alloc_current_data_to_state i data cols seq))) (\<lambda>_. k isNext)) =
    bindS (wrapS '''' (on_world (get_read_plan_data_from_conn ctl e param))) (\<lambda>(_, _, isNext). k isNext)"
    for param and k :: "bool \<Rightarrow> ('w run_state, rows option) goS"
    by (rule bindS_cong_Ok) (auto simp: wrapS_Ok_iff step dest!: on_world_Ok read_no_rows)
  then show ?thesis by simp
qed

end

lemma keeps_buf_look [go_inv, simp]:
  "keepsS (\<lambda>s. ps_buf (rs_plan s) = b) (on_world m)" "keepsS (\<lambda>s. ps_buf (rs_plan s) = b) (on_cache mc)"
  by (simp_all add: keepsS_def on_world_def on_cache_def split: prod.splits)

lemma keeps_buf_param [go_inv]:
  "keepsS (\<lambda>s. ps_buf (rs_plan s) = b) (make_read_plan_param ctl c prev seq)"
  "keepsS (\<lambda>s. ps_buf (rs_plan s) = b) (make_sync_plan_param ctl sy prev seq)"
  unfolding make_read_plan_param_def make_sync_plan_param_def run_vm_def
  by (auto intro!: go_inv split: param_type.splits option.splits)

lemma keeps_buf_write [go_inv]: "keepsS (\<lambda>s. ps_buf (rs_plan s) = b) (run_write ctl p d seq)"
proof -
  have "keepsS (\<lambda>s. ps_buf (rs_plan s) = b) (\<lambda>s. bindS (\<lambda>s. (g s (rs_world s), s)) (\<lambda>_. wrapS m (on_world (f s))) s)"
    for g :: "'a run_state \<Rightarrow> 'a \<Rightarrow> unit go" and f :: "'a run_state \<Rightarrow> ('a, unit) goS" and m
    by (rule keepsSI) (auto simp: bindS_def wrapS_def on_world_def split: go.splits prod.splits)
  then show ?thesis
    unfolding run_write_def Let_def
    by (intro keepsS_bind keepsS_wrap keeps_buf_param) (simp add: bindS_def)
qed

text \<open>What reading and writing keep, a whole run keeps.\<close>

lemma sp_run_keeps:
  assumes "keepsS I (run_read ctl p now)" "\<And>d. keepsS I (run_write ctl p d now)" "\<And>s w. I (s\<lparr>rs_world := w\<rparr>) = I s"
    and "\<And>s i. I (s\<lparr>rs_plan := (rs_plan s)\<lparr>ps_isInit := i\<rparr>\<rparr>) = I s"
    and "\<And>s n. I (s\<lparr>rs_plan := (rs_plan s)\<lparr>ps_seq := n\<rparr>\<rparr>) = I s"
  shows "keepsS I (sp_run ctl p now)"
proof -
  have "keepsS I (\<lambda>s. wrapS m (on_world (f s)) s)" for m and f :: "'a run_state \<Rightarrow> ('a, unit) goS"
    by (rule keepsSI) (simp add: wrapS_eq on_world_def assms(3) split: prod.splits)
  moreover have "keepsS I (\<lambda>t. (Ok (), t\<lparr>rs_plan := (rs_plan t)\<lparr>ps_isInit := True\<rparr>\<rparr>))"
    "keepsS I (\<lambda>t. (Ok (), t\<lparr>rs_plan := (rs_plan t)\<lparr>ps_seq := now\<rparr>\<rparr>))"
    using assms(4,5) by (simp_all add: keepsS_def)
  ultimately show ?thesis
    unfolding sp_run_def by (intro keepsS_bind keepsS_wrap assms(1,2))
qed

lemma sp_run_Ok:
  assumes "sp_run ctl p now s = (Ok (), s')"
  shows "\<exists>w d t t'. run_read ctl p now (s\<lparr>rs_world := w, rs_plan := (rs_plan s)\<lparr>ps_isInit := True\<rparr>\<rparr>) = (Ok d, t) \<and>
    run_write ctl p d now t = (Ok (), t') \<and> rs_world s' = rs_world t'"
  using assms by (auto simp: sp_run_def wrapS_Ok_iff on_world_def elim!: bindS_cases split: prod.splits) (metis (full_types))

lemma keeps_same_ident:
  fixes m :: "('w run_state, 'a) goS"
  assumes "\<And>q. keepsS (same_plan q) m"
  shows "keepsS (\<lambda>s. ps_syncIdent (rs_plan s) = i) m"
proof (rule keepsSI)
  fix s :: "'w run_state"
  assume i: "ps_syncIdent (rs_plan s) = i"
  have "same_plan (rs_plan s) (snd (m s))"
    using assms[of "rs_plan s"] unfolding keepsS_def by (rule allE[of _ s]) (simp add: same_plan_def)
  with i show "ps_syncIdent (rs_plan (snd (m s))) = i" by (simp add: same_plan_def)
qed

lemma run_keeps_ident: "ps_syncIdent (rs_plan (snd (sp_run ctl p now s))) = ps_syncIdent (rs_plan s)"
proof -
  have "keepsS (\<lambda>t. ps_syncIdent (rs_plan t) = ps_syncIdent (rs_plan s)) (sp_run ctl p now)"
    by (rule sp_run_keeps) (simp_all add: keeps_same_ident keeps_run_read keeps_run_write)
  then show ?thesis by (simp add: keepsS_def)
qed

context rowless_ctl
begin

lemma keeps_buf_loop: "keepsS (\<lambda>s. ps_buf (rs_plan s) = b) (run_read_loop ctl seq plans prev)"
proof (induction plans arbitrary: prev)
  case (Cons pl plans)
  show ?case
    by (cases pl) (auto simp: read_loop_Cons simp del: run_read_loop.simps intro!: go_inv Cons split: prod.splits)
qed simp

text \<open>No run of a plan ever puts a cell into its buffer.\<close>

lemma run_read_keeps_buf: "keepsS (\<lambda>t. ps_buf (rs_plan t) = b) (run_read ctl p now)"
  unfolding run_read_def by (intro keepsS_bind keeps_buf_loop) (auto split: option.splits)

lemma run_keeps_buf: "ps_buf (rs_plan (snd (sp_run ctl p now s))) = ps_buf (rs_plan s)"
proof -
  from run_read_keeps_buf have "keepsS (\<lambda>t. ps_buf (rs_plan t) = ps_buf (rs_plan s)) (sp_run ctl p now)"
    by (rule sp_run_keeps) (simp_all add: keeps_buf_write)
  then show ?thesis by (simp add: keepsS_def)
qed

text \<open>No query of an \<^verbatim>\<open>[init]\<close> table is executed, only the triggers: a change of \<open>ctl_exec\<close>
  changes nothing.\<close>

lemma init_executes_nothing: "sp_init (ctl\<lparr>ctl_exec := x\<rparr>) p ident isInit = sp_init ctl p ident isInit"
proof -
  have "bindS (wrapS msg (ctl_query ctl i arg)) (\<lambda>(data, _). if data = [] then retS () else k) =
      bindS (wrapS msg (ctl_query ctl i arg)) (\<lambda>_. retS ())" for msg i arg and k :: "('w, unit) goS"
    by (rule bindS_cong_Ok) (auto simp: wrapS_Ok_iff dest: no_rows)
  then have "init_self_query (ctl\<lparr>ctl_exec := x\<rparr>) self = init_self_query ctl self"
    "init_other_query (ctl\<lparr>ctl_exec := x\<rparr>) = init_other_query ctl" for self
    by (intro ext; simp add: init_self_query_def init_other_query_def)+
  then show ?thesis by (cases "sc_Init p") (simp_all add: sp_init_def)
qed

end

section \<open>What a sync statement gets from a buffer without cells\<close>

definition no_cells :: "plan_buffer \<Rightarrow> bool" where
  "no_cells b \<longleftrightarrow> (\<forall>pm \<in> set (pb_m b). pm = [])"

lemma no_cells_size: "no_cells b \<Longrightarrow> max_size b seq = Ok (0, 0)"
proof -
  assume b: "no_cells b"
  then have "pb_m b ! i = []" if "i < length (pb_m b)" for i using that by (simp add: no_cells_def)
  then have "\<forall>i \<in> set is. i < length (pb_m b) \<Longrightarrow> max_size_loop b seq is 0 0 = Ok (0, 0)" for "is"
    by (induction "is") (auto simp: max_col_size_def max_row_size_def go_index_def)
  then show ?thesis by (simp add: max_size_def)
qed

lemma no_cells_sync_fix:
  assumes "make_sync_fix b seq pos = Ok param" "no_cells b"
  shows "pos = [] \<and> param = Some []"
proof (cases pos)
  case Nil
  with assms show ?thesis by (simp add: make_sync_fix_def no_cells_size)
next
  case (Cons kv pos')
  with assms show ?thesis
    by (cases kv) (auto simp: make_sync_fix_def no_cells_size bind_go_Ok_iff split: if_splits)
qed

lemma new_plan_state_no_cells: "new_plan_state ident n cc rc idle = Ok st \<Longrightarrow> no_cells (ps_buf st)"
  by (auto simp: new_plan_state_def new_plan_param_buffer_def go_make_def bind_go_Ok_iff no_cells_def split: if_splits)

text \<open>What is executed at the end of a run.\<close>

definition sync_args :: "script_config \<Rightarrow> rows option \<Rightarrow> conn_args" where
  "sync_args p param = \<lparr>a_Query = sy_Query (sc_Sync p), a_Args = param, a_IsTransaction = sy_Tran (sc_Sync p)\<rparr>"

text \<open>The parameters it can have then: none, no rows, or what the script engine makes of no input.\<close>

definition args_without_cells ::
    "(string \<Rightarrow> string \<Rightarrow> rows option \<Rightarrow> (script_cache, rows option) goS) \<Rightarrow> script_config \<Rightarrow> rows option \<Rightarrow> bool" where
  "args_without_cells vm p param \<longleftrightarrow>
    (case sy_Bind (sc_Sync p) of None \<Rightarrow> param = None
    | Some b \<Rightarrow>
        (case sb_PrevVm b of Some v \<Rightarrow> \<exists>c c'. vm (pv_Lang v) (pv_Script v) None c = (Ok param, c')
        | None \<Rightarrow> (case sb_Fix b of Some pos \<Rightarrow> pos = [] \<and> param = Some [] | None \<Rightarrow> param = None)))"

lemma write_without_cells:
  assumes "run_write ctl p None seq s = (Ok (), s')" "no_cells (ps_buf (rs_plan s))"
  shows "\<exists>param w. ctl_exec ctl (db_id (ps_syncIdent (rs_plan s))) (sync_args p param) w = (Ok (), rs_world s') \<and>
    args_without_cells (ctl_vm ctl) p param"
proof -
  from assms(1) obtain param t where t: "make_sync_plan_param ctl (sc_Sync p) None seq s = (Ok param, t)"
    and w: "ctl_exec ctl (db_id (ps_syncIdent (rs_plan t))) (sync_args p param) (rs_world t) = (Ok (), rs_world s')"
    by (auto simp: run_write_def Let_def wrapS_Ok_iff on_world_def sync_args_def elim!: bindS_cases split: prod.splits)
  have "same_plan (rs_plan s) t" by (rule keepsSD[OF keeps_sync_param _ t]) (simp add: same_plan_def)
  then have ident: "ps_syncIdent (rs_plan t) = ps_syncIdent (rs_plan s)" by (simp add: same_plan_def)
  have "args_without_cells (ctl_vm ctl) p param"
    using t assms(2)
    by (auto simp: args_without_cells_def make_sync_plan_param_def sync_param_type_def run_vm_def wrapS_Ok_iff on_cache_def
      split: option.splits if_splits prod.splits elim!: bindS_cases dest!: no_cells_sync_fix) blast+
  with w ident show ?thesis by metis
qed

section \<open>Rounds of a plan on the program's pools\<close>

interpretation shared: rowless_ctl "shared_ctl ops clock vm :: (nat, ('w, 'c, 'm) conn_pool) shared_state plan_ctl"
  for ops clock vm
  by unfold_locales (auto simp: shared_ctl_def timed_def on_shared_pool_def
    split: go.splits prod.splits dest: cp_run_query_rowless)

text \<open>The clock readings of the rounds so far, each with the result ignored, as the background loop does.\<close>

fun plan_rounds :: "'w plan_ctl \<Rightarrow> script_config \<Rightarrow> int64 list \<Rightarrow> 'w run_state \<Rightarrow> 'w run_state" where
  "plan_rounds ctl p [] s = s"
| "plan_rounds ctl p (now # nows) s = plan_rounds ctl p nows (snd (sp_run ctl p now s))"

lemma rounds_without_cells:
  "no_cells (ps_buf (rs_plan s)) \<Longrightarrow> no_cells (ps_buf (rs_plan (plan_rounds (shared_ctl ops clock vm) p nows s)))"
  by (induction nows arbitrary: s) (simp_all add: shared.run_keeps_buf)

lemma rounds_ident: "ps_syncIdent (rs_plan (plan_rounds ctl p nows s)) = ps_syncIdent (rs_plan s)"
proof (induction nows arbitrary: s)
  case (Cons now nows)
  have "ps_syncIdent (rs_plan (snd (sp_run ctl p now s))) = ps_syncIdent (rs_plan s)" by (rule run_keeps_ident)
  with Cons show ?case by simp
qed simp

text \<open>C2: With the pools the program uses, no script ever copies anything, whatever the databases hold and
  for however many rounds it has run: its buffer stays without a cell, none of its \<^verbatim>\<open>[init]\<close>
  queries is executed, and in a round that returns no error its sync statement gets no parameters at
  all, or those a script engine makes of no input; with a \<^verbatim>\<open>[bind.fix]\<close> table that is not
  empty every round fails.\<close>

theorem plan_copies_nothing:
  assumes "new_plan_state ident n cc rc idle = Ok st"
    and "s = plan_rounds (shared_ctl ops clock vm) p nows \<lparr>rs_world = w, rs_plan = st\<rparr>"
    and "sp_run (shared_ctl ops clock vm) p now s = (r, s')"
  shows "no_cells (ps_buf (rs_plan s')) \<and>
    sp_init ((shared_ctl ops clock vm)\<lparr>ctl_exec := e\<rparr>) p ident b = sp_init (shared_ctl ops clock vm) p ident b \<and>
    (r = Ok () \<longrightarrow> (\<exists>param w. ctl_exec (shared_ctl ops clock vm) (db_id ident) (sync_args p param) w = (Ok (), rs_world s') \<and>
      args_without_cells vm p param)) \<and>
    (\<forall>b kv pos. sy_Bind (sc_Sync p) = Some b \<and> sb_PrevVm b = None \<and> sb_Fix b = Some (kv # pos) \<longrightarrow> r \<noteq> Ok ())"
proof -
  let ?ctl = "shared_ctl ops clock vm"
  have none: "no_cells (ps_buf (rs_plan s))" and ident: "ps_syncIdent (rs_plan s) = ident"
    using rounds_without_cells[of "\<lparr>rs_world = w, rs_plan = st\<rparr>"] new_plan_state_no_cells[OF assms(1)] assms(1,2)
    by (auto simp: rounds_ident new_plan_state_def bind_go_Ok_iff)
  have after: "no_cells (ps_buf (rs_plan s'))"
    using shared.run_keeps_buf[of ops clock vm p now s] none assms(3) by simp
  have args: "\<exists>param w. ctl_exec ?ctl (db_id ident) (sync_args p param) w = (Ok (), rs_world s') \<and>
      args_without_cells vm p param" if "r = Ok ()"
  proof -
    from assms(3) that have "sp_run ?ctl p now s = (Ok (), s')" by simp
    from sp_run_Ok[OF this] obtain v d t t' where
      u: "run_read ?ctl p now (s\<lparr>rs_world := v, rs_plan := (rs_plan s)\<lparr>ps_isInit := True\<rparr>\<rparr>) = (Ok d, t)"
      and t: "run_write ?ctl p d now t = (Ok (), t')" "rs_world s' = rs_world t'" by blast
    have "ps_buf (rs_plan t) = ps_buf (rs_plan s)" by (rule keepsSD[OF shared.run_read_keeps_buf _ u]) simp
    moreover have "ps_syncIdent (rs_plan t) = ident"
      by (rule keepsSD[OF keeps_same_ident[OF keeps_run_read] _ u]) (simp add: ident)
    ultimately show ?thesis
      using write_without_cells[of ?ctl p now t t'] t none run_read_none[OF u] by (simp add: shared_ctl_def)
  qed
  then show ?thesis
    using after shared.init_executes_nothing[where x = e] by (auto simp: args_without_cells_def)
qed

text \<open>A script that copies one column, between two pools whose driver succeeds, after one round.\<close>

definition copy_script :: script_config where
  "copy_script = probe_config (Some \<lparr>in_Self = [], in_Other = []\<rparr>)
    (Some \<lparr>sb_Fix = Some [(''1'', \<lparr>sp_Dynamic = Some \<lparr>ds_PlanIdx = 0, ds_Col = ''c'', ds_StartSyncOffset = 0\<rparr>, sp_Static = None\<rparr>)],
      sb_PrevVm = None, sb_Prev = False\<rparr>)"

definition easy_ops :: "(nat, nat) conn_ops" where
  "easy_ops = \<lparr>co_execute = (\<lambda>_ _ w. (Ok (), Suc w)), co_query = (\<lambda>_ _. retS ([[GInt 1]], [''c'']))\<rparr>"

definition two_pools :: "(nat, (nat, nat, int simple_metric) conn_pool) shared_state" where
  "two_pools = (new_shared_state 0)\<lparr>ss_connPool := map (\<lambda>i. (i, \<lparr>cp_ident = i, cp_conf = zero_conn_config, cp_env = probe_env 1,
     cp_pool = new_pool None 5\<rparr>)) [''src'', ''dst'']\<rparr>"

definition first_state :: "(nat, (nat, nat, int simple_metric) conn_pool) shared_state run_state" where
  "first_state = \<lparr>rs_world = two_pools, rs_plan = \<lparr>ps_seq = 0, ps_syncIdent = (''dst'', ''s''), ps_isInit = False,
     ps_buf = \<lparr>pb_m = [[]], pb_rowCap = 1, pb_rowIdleSec = 1\<rparr>, ps_cache = new_sync_map\<rparr>\<rparr>"

text \<open>The same script without its \<^verbatim>\<open>[bind]\<close> table runs.\<close>

lemma plan_copies_nothing_witness:
  "fst (sp_run (shared_ctl easy_ops int (\<lambda>_ _. retS)) copy_script 8
      (plan_rounds (shared_ctl easy_ops int (\<lambda>_ _. retS)) copy_script [7] first_state)) \<noteq> Ok () \<and>
    fst (sp_run (shared_ctl easy_ops int (\<lambda>_ _. retS)) (probe_config (Some \<lparr>in_Self = [], in_Other = []\<rparr>) None) 8 first_state) = Ok ()"
proof
  let ?ctl = "shared_ctl easy_ops int (\<lambda>_ _. retS)"
  let ?s = "plan_rounds ?ctl copy_script [7] first_state"
  have st: "new_plan_state (''dst'', ''s'') 1 1 1 1 = Ok (rs_plan first_state)"
    by (simp add: new_plan_state_def new_plan_param_buffer_def go_make_def first_state_def)
  have s: "?s = plan_rounds ?ctl copy_script [7] \<lparr>rs_world = two_pools, rs_plan = rs_plan first_state\<rparr>"
    by (simp add: first_state_def)
  have "sp_run ?ctl copy_script 8 ?s = (fst (sp_run ?ctl copy_script 8 ?s), snd (sp_run ?ctl copy_script 8 ?s))" by simp
  from plan_copies_nothing[OF st s this] show "fst (sp_run ?ctl copy_script 8 ?s) \<noteq> Ok ()"
    by (auto simp: copy_script_def probe_config_def)
  show "fst (sp_run ?ctl (probe_config (Some \<lparr>in_Self = [], in_Other = []\<rparr>) None) 8 first_state) = Ok ()"
    by code_simp
qed

end
