(* ===== verification/Shared_Interleaving.thy ===== *)
theory Shared_Interleaving
  imports SharedState
begin

text \<open>
  The pool map of \<^verbatim>\<open>state/state.go\<close> under several goroutines, one step per access to the map:
  \<^verbatim>\<open>PushConnPool\<close> looks the identifier up, closes what it found, deletes and stores, with no lock
  around them; \<^verbatim>\<open>GetConnPool\<close> is one look-up, and its pool is used later.  Pools are numbered
  in the order they are made; \<open>si_refused\<close> and \<open>si_missing\<close> count the uses of a closed pool and the
  look-ups that found none.
\<close>

section \<open>The steps\<close>

datatype gpc = GIdle | PLoad string nat | PClose string nat nat | PDelete string nat | PStore string nat | GUse nat

record pool_map =
  si_map :: "(string, nat) sync_map"
  si_closed :: "nat list"
  si_next :: nat
  si_threads :: "gpc list"
  si_refused :: nat
  si_missing :: nat

definition si_start :: "nat \<Rightarrow> pool_map" where
  "si_start n = \<lparr>si_map = new_sync_map, si_closed = [], si_next = 0, si_threads = replicate n GIdle, si_refused = 0, si_missing = 0\<rparr>"

definition jump :: "nat \<Rightarrow> gpc \<Rightarrow> pool_map \<Rightarrow> pool_map" where
  "jump t p s = s\<lparr>si_threads := (si_threads s)[t := p]\<rparr>"

definition look_up :: "pool_map \<Rightarrow> string \<Rightarrow> nat option" where
  "look_up s ident = (case sm_load (\<lambda>_. False) (si_map s) ident of Ok p \<Rightarrow> p | _ \<Rightarrow> None)"

datatype sact = BeginPush string | Push | Get string | UsePool

fun sexec :: "sact \<Rightarrow> nat \<Rightarrow> gpc \<Rightarrow> pool_map \<Rightarrow> pool_map option" where
  "sexec (BeginPush ident) t p s =
    (case p of GIdle \<Rightarrow> Some (jump t (PLoad ident (si_next s)) (s\<lparr>si_next := Suc (si_next s)\<rparr>)) | _ \<Rightarrow> None)"
| "sexec Push t p s =
    (case p of
      PLoad ident n \<Rightarrow> Some (jump t (case look_up s ident of None \<Rightarrow> PStore ident n | Some old \<Rightarrow> PClose ident n old) s)
    | PClose ident n old \<Rightarrow> Some (jump t (PDelete ident n) (s\<lparr>si_closed := List.insert old (si_closed s)\<rparr>))
    | PDelete ident n \<Rightarrow> Some (jump t (PStore ident n) (s\<lparr>si_map := sm_delete (si_map s) ident\<rparr>))
    | PStore ident n \<Rightarrow> Some (jump t GIdle (s\<lparr>si_map := sm_store (si_map s) ident n\<rparr>))
    | _ \<Rightarrow> None)"
| "sexec (Get ident) t p s =
    (case p of GIdle \<Rightarrow> Some (case look_up s ident of
        None \<Rightarrow> s\<lparr>si_missing := Suc (si_missing s)\<rparr> | Some n \<Rightarrow> jump t (GUse n) s)
    | _ \<Rightarrow> None)"
| "sexec UsePool t p s =
    (case p of GUse n \<Rightarrow> Some (jump t GIdle (if n \<in> set (si_closed s) then s\<lparr>si_refused := Suc (si_refused s)\<rparr> else s))
    | _ \<Rightarrow> None)"

fun sruns :: "(nat \<times> sact) list \<Rightarrow> pool_map \<Rightarrow> pool_map option" where
  "sruns [] s = Some s"
| "sruns ((t, a) # moves) s =
    (if t < length (si_threads s) then Option.bind (sexec a t (si_threads s ! t) s) (sruns moves) else None)"

section \<open>One goroutine pushes\<close>

text \<open>Goroutine 0 is the loop of the sync process.\<close>

definition one_pusher :: "(nat \<times> sact) list \<Rightarrow> bool" where
  "one_pusher moves \<longleftrightarrow> (\<forall>(t, a) \<in> set moves. t \<noteq> 0 \<longrightarrow> (\<forall>ident. a \<noteq> BeginPush ident))"

definition reader :: "gpc \<Rightarrow> bool" where
  "reader p \<longleftrightarrow> p = GIdle \<or> (\<exists>n. p = GUse n)"

text \<open>What the pusher holds of the map: the identifier it works on, and its new pool.\<close>

fun pushing :: "gpc \<Rightarrow> (string \<times> nat) option" where
  "pushing (PLoad i n) = Some (i, n)"
| "pushing (PClose i n old) = Some (i, n)"
| "pushing (PDelete i n) = Some (i, n)"
| "pushing (PStore i n) = Some (i, n)"
| "pushing _ = None"

definition held_new :: "gpc \<Rightarrow> nat set" where
  "held_new p = (case pushing p of None \<Rightarrow> {} | Some (i, n) \<Rightarrow> {n})"

lemma look_up_eq [simp]: "look_up s ident = map_of (si_map s) ident"
  by (simp add: look_up_def)

text \<open>Every pool made is in the map, closed, or the new one of the pusher \<open>p\<close>; a closed one is in the map
  only between the pusher's close and its delete; what was pushed is in the map, except while it is
  pushed again.\<close>

definition parted :: "nat \<Rightarrow> nat set \<Rightarrow> (string \<rightharpoonup> nat) \<Rightarrow> nat set \<Rightarrow> bool" where
  "parted next C M new \<longleftrightarrow> {..<next} = C \<union> ran M \<union> new \<and> new \<inter> (ran M \<union> C) = {} \<and>
    (\<forall>i j n. M i = Some n \<longrightarrow> M j = Some n \<longrightarrow> i = j)"

fun window :: "nat set \<Rightarrow> (string \<rightharpoonup> nat) \<Rightarrow> gpc \<Rightarrow> bool" where
  "window C M (PDelete i n) \<longleftrightarrow> (\<exists>old. M i = Some old \<and> ran M \<inter> C = {old})"
| "window C M (PClose i n old) \<longleftrightarrow> M i = Some old \<and> ran M \<inter> C = {}"
| "window C M (PStore i n) \<longleftrightarrow> M i = None \<and> ran M \<inter> C = {}"
| "window C M p \<longleftrightarrow> ran M \<inter> C = {}"

definition all_there :: "string set \<Rightarrow> (string \<rightharpoonup> nat) \<Rightarrow> gpc \<Rightarrow> bool" where
  "all_there pushed M p \<longleftrightarrow> (\<forall>i \<in> pushed. M i \<noteq> None \<or> (\<exists>n. pushing p = Some (i, n)))"

definition accounted :: "string set \<Rightarrow> pool_map \<Rightarrow> gpc \<Rightarrow> bool" where
  "accounted pushed s p \<longleftrightarrow> parted (si_next s) (set (si_closed s)) (map_of (si_map s)) (held_new p) \<and>
    window (set (si_closed s)) (map_of (si_map s)) p \<and> all_there pushed (map_of (si_map s)) p"

text \<open>One access of the pusher, case by case.\<close>

lemma ran_without:
  assumes "M i = Some old" "\<forall>i j n. M i = Some n \<longrightarrow> M j = Some n \<longrightarrow> i = j"
  shows "ran (M(i := None)) = ran M - {old}"
proof -
  have "j \<noteq> i \<longleftrightarrow> n \<noteq> old" if "M j = Some n" for j n using assms that by (metis option.inject)
  then show ?thesis by (auto simp: ran_def)
qed

lemma accounted_begin:
  assumes "accounted P s GIdle"
  shows "accounted (insert i P) (s\<lparr>si_next := Suc (si_next s)\<rparr>) (PLoad i (si_next s))"
proof -
  have "{..<si_next s} = set (si_closed s) \<union> ran (map_of (si_map s))"
    using assms by (simp add: accounted_def parted_def held_new_def)
  then have "parted (Suc (si_next s)) (set (si_closed s)) (map_of (si_map s)) {si_next s}"
    using assms by (auto simp: accounted_def parted_def held_new_def lessThan_Suc)
  with assms show ?thesis by (simp add: accounted_def held_new_def all_there_def)
qed

lemma accounted_load:
  assumes "accounted P s (PLoad i n)"
  shows "accounted P s (case map_of (si_map s) i of None \<Rightarrow> PStore i n | Some old \<Rightarrow> PClose i n old)"
  using assms by (simp add: accounted_def held_new_def all_there_def split: option.split)

lemma accounted_close:
  assumes "accounted P s (PClose i n old)"
  shows "accounted P (s\<lparr>si_closed := List.insert old (si_closed s)\<rparr>) (PDelete i n)"
proof -
  have old: "map_of (si_map s) i = Some old" "ran (map_of (si_map s)) \<inter> set (si_closed s) = {}"
    using assms by (simp_all add: accounted_def)
  then have "old \<in> ran (map_of (si_map s))" by (intro ranI)
  then have "parted (si_next s) (insert old (set (si_closed s))) (map_of (si_map s)) {n}"
      "ran (map_of (si_map s)) \<inter> insert old (set (si_closed s)) = {old}"
    using assms old(2) by (auto simp: accounted_def parted_def held_new_def)
  with assms old(1) show ?thesis by (simp add: accounted_def held_new_def all_there_def)
qed

lemma accounted_delete:
  assumes "accounted P s (PDelete i n)"
  shows "accounted P (s\<lparr>si_map := sm_delete (si_map s) i\<rparr>) (PStore i n)"
proof -
  let ?M = "map_of (si_map s)"
  obtain old where old: "?M i = Some old" "ran ?M \<inter> set (si_closed s) = {old}"
    using assms by (auto simp: accounted_def)
  have part: "parted (si_next s) (set (si_closed s)) ?M {n}" using assms by (simp add: accounted_def held_new_def)
  then have ran: "ran (?M(i := None)) = ran ?M - {old}" using old(1) by (intro ran_without) (simp_all add: parted_def)
  have "parted (si_next s) (set (si_closed s)) (?M(i := None)) {n}"
    using part old(2) unfolding parted_def ran by auto
  moreover have "ran (?M(i := None)) \<inter> set (si_closed s) = {}" using old(2) unfolding ran by auto
  moreover have "all_there P (?M(i := None)) (PStore i n)" using assms by (auto simp: accounted_def all_there_def)
  ultimately show ?thesis by (simp add: accounted_def held_new_def)
qed

lemma accounted_store:
  assumes "accounted P s (PStore i n)"
  shows "accounted P (s\<lparr>si_map := sm_store (si_map s) i n\<rparr>) GIdle"
proof -
  let ?M = "map_of (si_map s)"
  have none: "?M i = None" and part: "parted (si_next s) (set (si_closed s)) ?M {n}"
    using assms by (simp_all add: accounted_def held_new_def)
  then have ran: "ran (?M(i \<mapsto> n)) = insert n (ran ?M)" by simp
  have "n \<notin> ran ?M" using part by (simp add: parted_def)
  then have new: "?M j \<noteq> Some n" for j by (metis ranI)
  have "parted (si_next s) (set (si_closed s)) (?M(i \<mapsto> n)) {}"
    using part new unfolding parted_def ran by auto
  moreover have "ran (?M(i \<mapsto> n)) \<inter> set (si_closed s) = {}"
    using assms part unfolding ran by (auto simp: accounted_def parted_def)
  ultimately show ?thesis using assms by (auto simp: accounted_def held_new_def all_there_def)
qed

section \<open>Every interleaving\<close>

definition pushed_by :: "sact \<Rightarrow> string set" where
  "pushed_by a = (case a of BeginPush i \<Rightarrow> {i} | _ \<Rightarrow> {})"

lemma jump_sel [simp]:
  "si_map (jump t p s) = si_map s" "si_closed (jump t p s) = si_closed s" "si_next (jump t p s) = si_next s"
  "si_threads (jump t p s) = (si_threads s)[t := p]"
  by (simp_all add: jump_def)

definition map_inv :: "string set \<Rightarrow> pool_map \<Rightarrow> bool" where
  "map_inv P s \<longleftrightarrow> si_threads s \<noteq> [] \<and> accounted P s (si_threads s ! 0) \<and> (\<forall>t < length (si_threads s). t \<noteq> 0 \<longrightarrow> reader (si_threads s ! t))"

lemma accounted_same [simp]:
  "accounted P (jump t q s) p = accounted P s p" "accounted P (s\<lparr>si_refused := k\<rparr>) p = accounted P s p"
  "accounted P (s\<lparr>si_missing := k\<rparr>) p = accounted P s p"
  by (simp_all add: accounted_def)

lemma accounted_reader: "reader p \<Longrightarrow> reader p' \<Longrightarrow> accounted P s p \<Longrightarrow> accounted P s p'"
  by (auto simp: reader_def accounted_def held_new_def all_there_def)

lemma pusher_step:
  assumes "sexec a 0 (si_threads s ! 0) s = Some s'" "si_threads s \<noteq> []" "accounted P s (si_threads s ! 0)"
  shows "accounted (P \<union> pushed_by a) s' (si_threads s' ! 0)"
proof (cases a)
  case (BeginPush i)
  with assms accounted_begin[of P s i] show ?thesis
    by (auto simp: pushed_by_def split: gpc.splits)
next
  case Push
  then have P: "P \<union> pushed_by a = P" by (simp add: pushed_by_def)
  show ?thesis
    unfolding P
  proof (cases "si_threads s ! 0")
    case (PLoad i n)
    with assms Push accounted_load[of P s i n] show "accounted P s' (si_threads s' ! 0)" by auto
  next
    case (PClose i n old)
    with assms Push accounted_close[of P s i n old] show "accounted P s' (si_threads s' ! 0)" by auto
  next
    case (PDelete i n)
    with assms Push accounted_delete[of P s i n] show "accounted P s' (si_threads s' ! 0)" by auto
  next
    case (PStore i n)
    with assms Push accounted_store[of P s i n] show "accounted P s' (si_threads s' ! 0)" by auto
  qed (use assms Push in simp_all)
next
  case (Get i)
  with assms accounted_reader[of GIdle _ P s] show ?thesis
    by (auto simp: pushed_by_def reader_def split: gpc.splits option.splits)
next
  case UsePool
  with assms obtain n where "si_threads s ! 0 = GUse n" by (auto split: gpc.splits)
  with UsePool assms accounted_reader[of "GUse n" GIdle P s] show ?thesis
    by (auto simp: pushed_by_def reader_def split: if_splits)
qed

lemma other_threads:
  "sexec a t p s = Some s' \<Longrightarrow> length (si_threads s') = length (si_threads s) \<and> (\<forall>u. u \<noteq> t \<longrightarrow> si_threads s' ! u = si_threads s ! u)"
  by (cases a) (auto split: gpc.splits option.splits if_splits)

lemma reader_step:
  assumes "sexec a t (si_threads s ! t) s = Some s'" "reader (si_threads s ! t)" "\<And>i. a \<noteq> BeginPush i" "t < length (si_threads s)"
  shows "si_map s' = si_map s \<and> si_closed s' = si_closed s \<and> si_next s' = si_next s \<and> pushed_by a = {} \<and> reader (si_threads s' ! t)"
  using assms by (cases a) (auto simp: reader_def pushed_by_def split: option.splits)

lemma map_inv_step:
  assumes "sexec a t (si_threads s ! t) s = Some s'" "t < length (si_threads s)" "map_inv P s" "t \<noteq> 0 \<longrightarrow> (\<forall>i. a \<noteq> BeginPush i)"
  shows "map_inv (P \<union> pushed_by a) s'"
proof (cases "t = 0")
  case True
  have "accounted (P \<union> pushed_by a) s' (si_threads s' ! 0)"
    using pusher_step[of a s s' P] assms True by (simp add: map_inv_def)
  with other_threads[OF assms(1)] assms(3) True show ?thesis by (auto simp: map_inv_def)
next
  case False
  then have "reader (si_threads s ! t)" using assms(2,3) by (simp add: map_inv_def)
  from reader_step[OF assms(1) this _ assms(2)] False assms(4) have r: "si_map s' = si_map s" "si_closed s' = si_closed s"
    "si_next s' = si_next s" "pushed_by a = {}" "reader (si_threads s' ! t)" by simp_all
  from r(1-3) have "accounted P s' p = accounted P s p" for p by (simp add: accounted_def)
  moreover have "reader (si_threads s' ! u)" if "u < length (si_threads s)" "u \<noteq> 0" for u
    using that r(5) assms(3) other_threads[OF assms(1)] by (cases "u = t") (simp_all add: map_inv_def)
  ultimately show ?thesis using r(4) False assms(3) other_threads[OF assms(1)] by (auto simp: map_inv_def)
qed

lemma map_inv_runs:
  "sruns moves s = Some s' \<Longrightarrow> one_pusher moves \<Longrightarrow> map_inv P s \<Longrightarrow> map_inv (P \<union> (\<Union>(t, a) \<in> set moves. pushed_by a)) s'"
proof (induction moves arbitrary: s P)
  case (Cons m moves)
  obtain t a where m: "m = (t, a)" by fastforce
  with Cons.prems(1) obtain u where u: "t < length (si_threads s)" "sexec a t (si_threads s ! t) s = Some u" "sruns moves u = Some s'"
    by (auto simp: bind_eq_Some_conv split: if_splits)
  have "map_inv (P \<union> pushed_by a) u"
    by (rule map_inv_step[OF u(2,1) Cons.prems(3)]) (use Cons.prems(2) m in \<open>auto simp: one_pusher_def\<close>)
  from Cons.IH[OF u(3) _ this] Cons.prems(2) m show ?case by (simp add: one_pusher_def Un_assoc)
qed simp

text \<open>C22: While one goroutine registers pools and any number look them up, in every interleaving: no pool is
  lost, since each one ever made is in the map, closed, or the one being registered; and whenever no
  registration is under way, the pools in the map are open and those of different identifiers are
  different, and every identifier that was ever registered is found.\<close>

theorem one_pusher_loses_nothing:
  assumes "sruns moves (si_start n) = Some s" "one_pusher moves" "0 < n"
  shows "(\<forall>k < si_next s. k \<in> set (si_closed s) \<or> (\<exists>i. look_up s i = Some k) \<or> (\<exists>i. pushing (si_threads s ! 0) = Some (i, k))) \<and>
    (pushing (si_threads s ! 0) = None \<longrightarrow>
      (\<forall>i k. look_up s i = Some k \<longrightarrow> k \<notin> set (si_closed s) \<and> (\<forall>j. look_up s j = Some k \<longrightarrow> j = i)) \<and>
      (\<forall>i. (0, BeginPush i) \<in> set moves \<longrightarrow> look_up s i \<noteq> None))"
proof -
  have "map_inv {} (si_start n)"
    using assms(3) by (auto simp: map_inv_def si_start_def accounted_def parted_def held_new_def all_there_def reader_def new_sync_map_def)
  from map_inv_runs[OF assms(1,2) this] have acc: "accounted (\<Union>(t, a) \<in> set moves. pushed_by a) s (si_threads s ! 0)"
    by (simp add: map_inv_def)
  let ?p = "si_threads s ! 0"
  have part: "parted (si_next s) (set (si_closed s)) (map_of (si_map s)) (held_new ?p)" using acc by (simp add: accounted_def)
  have "k \<in> set (si_closed s) \<or> (\<exists>i. look_up s i = Some k) \<or> (\<exists>i. pushing ?p = Some (i, k))" if "k < si_next s" for k
  proof -
    have "k \<in> set (si_closed s) \<union> ran (map_of (si_map s)) \<union> held_new ?p" using part that by (auto simp: parted_def)
    then show ?thesis by (auto simp: held_new_def ran_def split: option.splits)
  qed
  moreover have "k \<notin> set (si_closed s) \<and> (\<forall>j. look_up s j = Some k \<longrightarrow> j = i)" if "pushing ?p = None" "look_up s i = Some k" for i k
  proof -
    have "ran (map_of (si_map s)) \<inter> set (si_closed s) = {}" using acc that(1) by (cases ?p) (simp_all add: accounted_def)
    with that(2) part show ?thesis by (auto simp: parted_def dest: ranI)
  qed
  moreover have "look_up s i \<noteq> None" if "pushing ?p = None" "(0, BeginPush i) \<in> set moves" for i
  proof -
    have "i \<in> (\<Union>(t, a) \<in> set moves. pushed_by a)" using that(2) by (force simp: pushed_by_def)
    with acc that(1) show ?thesis by (auto simp: accounted_def all_there_def)
  qed
  ultimately show ?thesis by blast
qed

lemma one_pusher_loses_nothing_witness:
  "\<exists>s. sruns (map (Pair 0) [BeginPush ''a'', Push, Push, BeginPush ''a'', Push, Push, Push, Push] @ [(1, Get ''a'')]) (si_start 2) = Some s \<and>
    look_up s ''a'' \<noteq> None \<and> (\<forall>k < 2. k \<in> set (si_closed s) \<or> (\<exists>i. look_up s i = Some k))"
proof -
  let ?moves = "map (Pair 0) [BeginPush ''a'', Push, Push, BeginPush ''a'', Push, Push, Push, Push] @ [(1, Get ''a'')]"
  have "case sruns ?moves (si_start 2) of Some s \<Rightarrow> si_next s = 2 \<and> si_threads s ! 0 = GIdle | None \<Rightarrow> False" by code_simp
  then obtain s where s: "sruns ?moves (si_start 2) = Some s" "si_next s = 2" "si_threads s ! 0 = GIdle" by (auto split: option.splits)
  from one_pusher_loses_nothing[OF s(1)] s(2,3) have "look_up s ''a'' \<noteq> None \<and> (\<forall>k < 2. k \<in> set (si_closed s) \<or> (\<exists>i. look_up s i = Some k))"
    by (simp add: one_pusher_def)
  with s(1) show ?thesis by blast
qed

section \<open>What can go wrong\<close>

definition get_during_push :: "(nat \<times> sact) list" where
  "get_during_push = map (Pair 0) [BeginPush ''a'', Push, Push, BeginPush ''a'', Push] @ [(1, Get ''a'')] @
    map (Pair 0) [Push, Push] @ [(2, Get ''a''), (1, UsePool), (0, Push)]"

definition two_pushers :: "(nat \<times> sact) list" where
  "two_pushers = [(0, BeginPush ''a''), (1, BeginPush ''a''), (0, Push), (1, Push), (0, Push), (1, Push)]"

text \<open>A plan that asks for a pool while its configuration is being replaced can find none, although the
  database has been registered all along, or get one that is closed when it uses it; and two
  goroutines that registered one identifier at the same time would lose a pool that nobody closes.\<close>

theorem pool_map_races:
  "(case sruns get_during_push (si_start 3) of Some s \<Rightarrow> si_missing s = 1 \<and> si_refused s = 1 \<and> look_up s ''a'' = Some 1 | None \<Rightarrow> False) \<and>
   (case sruns two_pushers (si_start 2) of Some s \<Rightarrow>
      si_next s = 2 \<and> look_up s ''a'' = Some 1 \<and> si_closed s = [] \<and> si_threads s = [GIdle, GIdle] | None \<Rightarrow> False)"
  by code_simp

end
