(* ===== verification/UsePool_Interleaving.thy ===== *)
theory UsePool_Interleaving
  imports SyncPool Pool_Interleaving
begin

text \<open>
  \<^verbatim>\<open>SyncUsePool\<close> of \<^verbatim>\<open>utils/generic/sync.go\<close> used by several goroutines: the
  interleavings of \<^verbatim>\<open>Use\<close> and \<^verbatim>\<open>Close\<close>, one step per access to the shared state (the
  flag, the \<^verbatim>\<open>sync.Pool\<close>, the counters under their lock).  Connections are numbered as in
  \<open>Pool_Interleaving\<close>; a panic ends the process.  \<open>uz_zeros\<close>, \<open>uz_sub\<close>, \<open>uz_dropped\<close> and \<open>uz_closed\<close> are not in
  the code: they record the zero items that were counted off, what closers have subtracted, and where
  connections went.
\<close>

section \<open>The steps\<close>

datatype upc =
    UIdle
  | UGet
  | UNew
  | UGen
  | UCount item
  | UHave item
  | UIn item
  | ULeft item bool
  | UFail item
  | UUncountErr item
  | ULoad item
  | UPut item
  | UUncount item
  | UClose item
  | CStore
  | CRead
  | CSub use_stat

record upool =
  uz_isClose :: bool
  uz_stat :: use_stat
  uz_pool :: "item list"
  uz_threads :: "upc list"
  uz_next :: nat
  uz_panic :: "panic option"
  uz_zeros :: nat
  uz_sub :: use_stat
  uz_dropped :: "item list"
  uz_closed :: "item list"

definition zero_stat :: use_stat where
  "zero_stat = \<lparr>us_full = 0, us_use = 0, us_idle = 0, us_accumulatorErr = 0\<rparr>"

definition uz_start :: "nat \<Rightarrow> upool" where
  "uz_start n = \<lparr>uz_isClose = False, uz_stat = zero_stat, uz_pool = [], uz_threads = replicate n UIdle, uz_next = 0,
    uz_panic = None, uz_zeros = 0, uz_sub = zero_stat, uz_dropped = [], uz_closed = []\<rparr>"

definition plus_stat :: "use_stat \<Rightarrow> int \<Rightarrow> int \<Rightarrow> int \<Rightarrow> int \<Rightarrow> use_stat" where
  "plus_stat s full use idle err = \<lparr>us_full = us_full s + full, us_use = us_use s + use, us_idle = us_idle s + idle,
    us_accumulatorErr = us_accumulatorErr s + err\<rparr>"

definition count :: "int \<Rightarrow> int \<Rightarrow> int \<Rightarrow> int \<Rightarrow> upool \<Rightarrow> upool" where
  "count full use idle err s = s\<lparr>uz_stat := plus_stat (uz_stat s) full use idle err\<rparr>"

definition moved :: "nat \<Rightarrow> upc \<Rightarrow> upool \<Rightarrow> upool" where
  "moved t p s = s\<lparr>uz_threads := (uz_threads s)[t := p]\<rparr>"

definition close_item_of :: "item \<Rightarrow> upool \<Rightarrow> upool" where
  "close_item_of x s = (case x of ZeroVal \<Rightarrow> s\<lparr>uz_panic := Some PNilDeref\<rparr> | Conn c \<Rightarrow> s\<lparr>uz_closed := x # uz_closed s\<rparr>)"

definition zero_of :: "item \<Rightarrow> nat" where
  "zero_of x = (if x = ZeroVal then 1 else 0)"

text \<open>What a goroutine can do next; \<open>Take i\<close> is \<^verbatim>\<open>Get\<close> finding item \<open>i\<close>.\<close>

datatype uact =
    BeginUse | Take nat | MakeNew | LoadForNew | GenItem | GenFails | CountNew | EnterUse | Callback bool | LeaveUse
  | CloseFailed | CountFailed | LoadIsCloseU | PutBack | CountOff | CloseOff
  | BeginClose | StoreClose | ReadStat | SubStat

fun uexec :: "uact \<Rightarrow> nat \<Rightarrow> upc \<Rightarrow> upool \<Rightarrow> upool option" where
  "uexec BeginUse t p s = 
    (case p of UIdle \<Rightarrow> Some (if uz_isClose s then s else moved t UGet s) | _ \<Rightarrow> None)"
| "uexec (Take i) t p s = 
    (case p of UGet \<Rightarrow>
      (if i < length (uz_pool s) then Some (moved t (UHave (uz_pool s ! i)) (s\<lparr>uz_pool := take i (uz_pool s) @ drop (Suc i) (uz_pool s)\<rparr>)) else None) | _ \<Rightarrow> None)"
| "uexec MakeNew t p s = (case p of UGet \<Rightarrow> Some (moved t UNew s) | _ \<Rightarrow> None)"
| "uexec LoadForNew t p s = 
    (case p of UNew \<Rightarrow>
      Some (moved t (if uz_isClose s then UHave ZeroVal else UGen) s) | _ \<Rightarrow> None)"
| "uexec GenItem t p s = 
    (case p of UGen \<Rightarrow>
      Some (moved t (UCount (Conn (uz_next s))) (s\<lparr>uz_next := Suc (uz_next s)\<rparr>)) | _ \<Rightarrow> None)"
| "uexec GenFails t p s = (case p of UGen \<Rightarrow> Some (moved t UIdle (count 0 0 0 1 s)) | _ \<Rightarrow> None)"
| "uexec CountNew t p s = 
    (case p of UCount x \<Rightarrow> Some (moved t (UHave x) (count 1 0 1 0 s)) | _ \<Rightarrow> None)"
| "uexec EnterUse t p s = 
    (case p of UHave x \<Rightarrow> Some (moved t (UIn x) (count 0 1 (- 1) 0 s)) | _ \<Rightarrow> None)"
| "uexec (Callback ok) t p s = (case p of UIn x \<Rightarrow> Some (moved t (ULeft x ok) s) | _ \<Rightarrow> None)"
| "uexec LeaveUse t p s = 
    (case p of ULeft x ok \<Rightarrow>
      Some (moved t (if ok then ULoad x else UFail x) (count 0 (- 1) 1 0 s)) | _ \<Rightarrow> None)"
| "uexec CloseFailed t p s = 
    (case p of UFail x \<Rightarrow> Some (moved t (UUncountErr x) (close_item_of x s)) | _ \<Rightarrow> None)"
| "uexec CountFailed t p s = 
    (case p of UUncountErr x \<Rightarrow> Some (moved t UIdle (count (- 1) 0 (- 1) 1 s)) | _ \<Rightarrow> None)"
| "uexec LoadIsCloseU t p s = 
    (case p of ULoad x \<Rightarrow>
      Some (moved t (if uz_isClose s then UUncount x else UPut x) s) | _ \<Rightarrow> None)"
| "uexec PutBack t p s = 
    (case p of UPut x \<Rightarrow>
      Some (moved t UIdle (s\<lparr>uz_pool := x # uz_pool s\<rparr>)) | _ \<Rightarrow> None)"
| "uexec CountOff t p s = 
    (case p of UUncount x \<Rightarrow>
      Some (moved t (UClose x) ((count (- 1) 0 (- 1) 0 s)\<lparr>uz_zeros := uz_zeros s + zero_of x\<rparr>)) | _ \<Rightarrow> None)"
| "uexec CloseOff t p s = 
    (case p of UClose x \<Rightarrow> Some (moved t UIdle (close_item_of x s)) | _ \<Rightarrow> None)"
| "uexec BeginClose t p s = 
    (case p of UIdle \<Rightarrow> Some (if uz_isClose s then s else moved t CStore s) | _ \<Rightarrow> None)"
| "uexec StoreClose t p s = 
    (case p of CStore \<Rightarrow> Some (moved t CRead (s\<lparr>uz_isClose := True\<rparr>)) | _ \<Rightarrow> None)"
| "uexec ReadStat t p s = (case p of CRead \<Rightarrow> Some (moved t (CSub (uz_stat s)) s) | _ \<Rightarrow> None)"
| "uexec SubStat t p s = 
    (case p of CSub r \<Rightarrow>
      Some (moved t UIdle ((count (- us_full r) (- us_use r) (- us_idle r) (- us_accumulatorErr r) s) \<lparr>uz_sub := plus_stat (uz_sub s) (us_full r) (us_use r) (us_idle r) (us_accumulatorErr r)\<rparr>)) | _ \<Rightarrow> None)"

text \<open>A step of goroutine \<open>t\<close>, or the runtime dropping item \<open>i\<close> of the pool.\<close>

datatype umove = Go nat uact | Collect nat

fun ustep :: "umove \<Rightarrow> upool \<Rightarrow> upool option" where
  "ustep (Go t a) s = (if t < length (uz_threads s) \<and> uz_panic s = None then uexec a t (uz_threads s ! t) s else None)"
| "ustep (Collect i) s =
    (if i < length (uz_pool s) \<and> uz_panic s = None
     then Some (s\<lparr>uz_dropped := uz_pool s ! i # uz_dropped s, uz_pool := take i (uz_pool s) @ drop (Suc i) (uz_pool s)\<rparr>)
     else None)"

fun uruns :: "umove list \<Rightarrow> upool \<Rightarrow> upool option" where
  "uruns [] s = Some s"
| "uruns (m # ms) s = Option.bind (ustep m s) (uruns ms)"

section \<open>The counters\<close>

text \<open>What a goroutine adds to the three counters, and what it holds.\<close>

definition real :: "item \<Rightarrow> int" where
  "real x = (if x = ZeroVal then 0 else 1)"

fun adds :: "upc \<Rightarrow> int \<times> int \<times> int" where
  "adds (UHave x) = (real x, 0, real x)"
| "adds (UIn x) = (real x, 1, real x - 1)"
| "adds (ULeft x ok) = (real x, 1, real x - 1)"
| "adds (UFail x) = (real x, 0, real x)"
| "adds (UUncountErr x) = (1, 0, 1)"
| "adds (ULoad x) = (real x, 0, real x)"
| "adds (UPut x) = (real x, 0, real x)"
| "adds (UUncount x) = (real x, 0, real x)"
| "adds p = (0, 0, 0)"

fun uheld :: "upc \<Rightarrow> item list" where
  "uheld (UCount x) = [x]"
| "uheld (UHave x) = [x]"
| "uheld (UIn x) = [x]"
| "uheld (ULeft x ok) = [x]"
| "uheld (UFail x) = [x]"
| "uheld (ULoad x) = [x]"
| "uheld (UPut x) = [x]"
| "uheld (UUncount x) = [x]"
| "uheld (UClose x) = [x]"
| "uheld p = []"

definition total :: "upc list \<Rightarrow> int \<times> int \<times> int" where
  "total ps = (sum_list (map (fst \<circ> adds) ps), sum_list (map (fst \<circ> snd \<circ> adds) ps), sum_list (map (snd \<circ> snd \<circ> adds) ps))"

text \<open>The counters are what goroutines, pool and dropped items make of them, less what was taken off.\<close>

definition counters_ok :: "upool \<Rightarrow> bool" where
  "counters_ok s \<longleftrightarrow>
    us_full (uz_stat s) + us_full (uz_sub s) + int (uz_zeros s) =
      fst (total (uz_threads s)) + int (length (uz_pool s)) + int (length (uz_dropped s)) \<and>
    us_use (uz_stat s) + us_use (uz_sub s) = fst (snd (total (uz_threads s))) \<and>
    us_idle (uz_stat s) + us_idle (uz_sub s) + int (uz_zeros s) =
      snd (snd (total (uz_threads s))) + int (length (uz_pool s)) + int (length (uz_dropped s))"

text \<open>The zero item is only made after the close, and only on its way through a callback.\<close>

fun zero_ok :: "bool \<Rightarrow> upc \<Rightarrow> bool" where
  "zero_ok closed (UPut x) \<longleftrightarrow> x \<noteq> ZeroVal"
| "zero_ok closed (UCount x) \<longleftrightarrow> x \<noteq> ZeroVal"
| "zero_ok closed (UUncountErr x) \<longleftrightarrow> x \<noteq> ZeroVal"
| "zero_ok closed p \<longleftrightarrow> closed \<or> ZeroVal \<notin> set (uheld p)"

definition zeros_ok :: "upool \<Rightarrow> bool" where
  "zeros_ok s \<longleftrightarrow> (\<forall>p \<in> set (uz_threads s). zero_ok (uz_isClose s) p) \<and>
    ZeroVal \<notin> set (uz_pool s) \<and> ZeroVal \<notin> set (uz_dropped s)"

definition conns_ok :: "upool \<Rightarrow> bool" where
  "conns_ok s \<longleftrightarrow> conns (concat (map uheld (uz_threads s))) + conns (uz_pool s) + conns (uz_dropped s) + conns (uz_closed s)
    = conns (map Conn [0..<uz_next s])"

lemma total_simps [simp]:
  "total [] = (0, 0, 0)"
  "fst (total (p # ps)) = fst (adds p) + fst (total ps)"
  "fst (snd (total (p # ps))) = fst (snd (adds p)) + fst (snd (total ps))"
  "snd (snd (total (p # ps))) = snd (snd (adds p)) + snd (snd (total ps))"
  "fst (total (ps @ qs)) = fst (total ps) + fst (total qs)"
  "fst (snd (total (ps @ qs))) = fst (snd (total ps)) + fst (snd (total qs))"
  "snd (snd (total (ps @ qs))) = snd (snd (total ps)) + snd (snd (total qs))"
  by (simp_all add: total_def)

lemma step_sel [simp]:
  "uz_isClose (moved t p s) = uz_isClose s" "uz_stat (moved t p s) = uz_stat s" "uz_pool (moved t p s) = uz_pool s"
  "uz_next (moved t p s) = uz_next s" "uz_panic (moved t p s) = uz_panic s" "uz_zeros (moved t p s) = uz_zeros s"
  "uz_sub (moved t p s) = uz_sub s" "uz_dropped (moved t p s) = uz_dropped s" "uz_closed (moved t p s) = uz_closed s"
  "uz_threads (moved t p s) = (uz_threads s)[t := p]"
  "uz_isClose (count a b c d s) = uz_isClose s" "uz_pool (count a b c d s) = uz_pool s"
  "uz_stat (count a b c d s) = plus_stat (uz_stat s) a b c d"
  "uz_next (count a b c d s) = uz_next s" "uz_panic (count a b c d s) = uz_panic s" "uz_zeros (count a b c d s) = uz_zeros s"
  "uz_sub (count a b c d s) = uz_sub s" "uz_dropped (count a b c d s) = uz_dropped s" "uz_closed (count a b c d s) = uz_closed s"
  "uz_threads (count a b c d s) = uz_threads s"
  "uz_isClose (close_item_of x s) = uz_isClose s" "uz_pool (close_item_of x s) = uz_pool s"
  "uz_stat (close_item_of x s) = uz_stat s" "uz_next (close_item_of x s) = uz_next s"
  "uz_zeros (close_item_of x s) = uz_zeros s" "uz_sub (close_item_of x s) = uz_sub s"
  "uz_dropped (close_item_of x s) = uz_dropped s" "uz_threads (close_item_of x s) = uz_threads s"
  "conns (uz_closed (close_item_of x s)) = conns1 x + conns (uz_closed s)"
  "uz_panic (close_item_of x s) = (if x = ZeroVal then Some PNilDeref else uz_panic s)"
  by (simp_all add: moved_def count_def close_item_of_def split: item.split)

lemma plus_stat_sel [simp]:
  "us_full (plus_stat s a b c d) = us_full s + a" "us_use (plus_stat s a b c d) = us_use s + b"
  "us_idle (plus_stat s a b c d) = us_idle s + c" "us_accumulatorErr (plus_stat s a b c d) = us_accumulatorErr s + d"
  by (simp_all add: plus_stat_def)

lemma zero_mono: "zero_ok c p \<Longrightarrow> (c \<Longrightarrow> c') \<Longrightarrow> zero_ok c' p"
  by (cases p) auto

lemma real_simps [simp]: "real (Conn c) = 1" "real ZeroVal = 0" "x \<noteq> ZeroVal \<Longrightarrow> real x = 1"
  by (simp_all add: real_def)

lemma zero_of_real: "int (zero_of x) = 1 - real x"
  by (simp add: zero_of_def real_def)

lemma uexec_zeros:
  assumes "uexec a t (uz_threads s ! t) s = Some s'" "t < length (uz_threads s)" "zeros_ok s" "uz_panic s' = None"
  shows "zeros_ok s'"
proof -
  obtain ps p qs where ts: "uz_threads s = ps @ p # qs" "length ps = t"
    using split_thread[OF assms(2)] by metis
  have mono: "zero_ok True q" if "q \<in> set ps \<union> set qs" for q
    using assms(3) ts that zero_mono[of "uz_isClose s" q True] by (auto simp: zeros_ok_def)
  have pool: "uz_pool s ! i \<noteq> ZeroVal" if "i < length (uz_pool s)" for i
    using assms(3) nth_mem[OF that] by (metis zeros_ok_def)
  show ?thesis
    using assms(1,3,4) ts mono pool pool[symmetric]
    by (cases a) (auto simp: zeros_ok_def nth_append list_update_append split: upc.splits if_splits
      dest: in_set_takeD in_set_dropD)
qed

lemma uexec_counters:
  assumes "uexec a t (uz_threads s ! t) s = Some s'" "t < length (uz_threads s)" "zeros_ok s" "counters_ok s" "uz_panic s' = None"
  shows "counters_ok s'"
proof -
  obtain ps p qs where ts: "uz_threads s = ps @ p # qs" "length ps = t"
    using split_thread[OF assms(2)] by metis
  have pool: "real (uz_pool s ! i) = 1" if "i < length (uz_pool s)" for i
    using assms(3) nth_mem[OF that] by (metis zeros_ok_def real_simps(3))
  show ?thesis
    using assms(1,3-5) ts pool
    by (cases a) (auto simp: counters_ok_def zeros_ok_def nth_append list_update_append zero_of_real
      split: upc.splits if_splits)
qed

lemma conns_take_out: "i < length xs \<Longrightarrow> conns xs = conns1 (xs ! i) + conns (take i xs @ drop (Suc i) xs)"
  by (subst id_take_nth_drop[of i xs]) simp_all

lemma uexec_conns:
  assumes "uexec a t (uz_threads s ! t) s = Some s'" "t < length (uz_threads s)" "conns_ok s"
  shows "conns_ok s'"
proof -
  obtain ps p qs where ts: "uz_threads s = ps @ p # qs" "length ps = t"
    using split_thread[OF assms(2)] by metis
  show ?thesis
    using assms(1,3) ts conns_take_out[of _ "uz_pool s"]
    by (cases a) (auto simp: conns_ok_def nth_append list_update_append ac_simps split: upc.splits if_splits)
qed

section \<open>Every interleaving\<close>

definition upool_inv :: "upool \<Rightarrow> bool" where
  "upool_inv s \<longleftrightarrow> conns_ok s \<and> (uz_panic s = None \<longrightarrow> zeros_ok s \<and> counters_ok s)"

lemma ustep_inv:
  assumes "ustep m s = Some s'" "upool_inv s"
  shows "upool_inv s'"
proof (cases m)
  case (Go t a)
  with assms(1) have e: "uexec a t (uz_threads s ! t) s = Some s'" "t < length (uz_threads s)" "uz_panic s = None"
    by (auto split: if_splits)
  with assms(2) uexec_zeros[OF e(1,2)] uexec_counters[OF e(1,2)] uexec_conns[OF e(1,2)] show ?thesis
    by (simp add: upool_inv_def)
next
  case (Collect i)
  with assms(1) have i: "i < length (uz_pool s)" "uz_panic s = None"
    and s': "s' = s\<lparr>uz_dropped := uz_pool s ! i # uz_dropped s, uz_pool := take i (uz_pool s) @ drop (Suc i) (uz_pool s)\<rparr>"
    by (auto split: if_splits)
  have "conns_ok s'" using assms(2) s' conns_take_out[OF i(1)] by (simp add: upool_inv_def conns_ok_def ac_simps)
  moreover have "zeros_ok s'"
    using assms(2) i s' nth_mem[OF i(1)]
    by (cases "uz_pool s ! i") (auto simp: upool_inv_def zeros_ok_def dest: in_set_takeD in_set_dropD)
  moreover have "counters_ok s'" using assms(2) i s' by (simp add: upool_inv_def counters_ok_def)
  ultimately show ?thesis by (simp add: upool_inv_def)
qed

lemma uruns_inv: "upool_inv s \<Longrightarrow> uruns ms s = Some s' \<Longrightarrow> upool_inv s'"
  by (induction ms arbitrary: s) (auto simp: bind_eq_Some_conv dest: ustep_inv)

lemma upool_inv_start: "upool_inv (uz_start n)"
proof -
  have "conns (concat (map uheld (replicate n UIdle))) = {#}" "total (replicate n UIdle) = (0, 0, 0)"
    by (induction n) (simp_all add: prod_eq_iff)
  then show ?thesis
    by (simp add: upool_inv_def conns_ok_def zeros_ok_def counters_ok_def uz_start_def zero_stat_def)
qed

text \<open>Without a close nothing is ever taken off and no zero item made.\<close>

definition no_close :: "umove list \<Rightarrow> bool" where
  "no_close ms \<longleftrightarrow> (\<forall>t. Go t BeginClose \<notin> set ms)"

definition untouched :: "upool \<Rightarrow> bool" where
  "untouched s \<longleftrightarrow> \<not> uz_isClose s \<and> uz_sub s = zero_stat \<and> uz_zeros s = 0 \<and> uz_panic s = None \<and>
    zeros_ok s \<and> (\<forall>p \<in> set (uz_threads s). p \<noteq> CStore \<and> p \<noteq> CRead \<and> (\<forall>r. p \<noteq> CSub r))"

lemma ustep_untouched:
  assumes "ustep m s = Some s'" "untouched s" "\<And>t. m \<noteq> Go t BeginClose" "upool_inv s"
  shows "untouched s'"
proof (cases m)
  case (Collect i)
  have "upool_inv s'" by (rule ustep_inv[OF assms(1,4)])
  with Collect assms(1,2) show ?thesis by (auto simp: untouched_def upool_inv_def split: if_splits)
next
  case (Go t a)
  with assms(1) have e: "uexec a t (uz_threads s ! t) s = Some s'" "t < length (uz_threads s)"
    by (auto split: if_splits)
  obtain ps p qs where ts: "uz_threads s = ps @ p # qs" "length ps = t"
    using split_thread[OF e(2)] by metis
  have panic: "uz_panic s' = None \<and> \<not> uz_isClose s' \<and> uz_sub s' = zero_stat \<and> uz_zeros s' = 0 \<and>
      (\<forall>p \<in> set (uz_threads s'). p \<noteq> CStore \<and> p \<noteq> CRead \<and> (\<forall>r. p \<noteq> CSub r))"
    using e(1) ts assms(2,3) Go
    by (cases a) (auto simp: untouched_def zeros_ok_def zero_of_def nth_append list_update_append split: upc.splits if_splits)
  with ustep_inv[OF assms(1,4)] show ?thesis by (simp add: untouched_def upool_inv_def)
qed

lemma uruns_untouched:
  "upool_inv s \<Longrightarrow> untouched s \<Longrightarrow> no_close ms \<Longrightarrow> uruns ms s = Some s' \<Longrightarrow> untouched s'"
proof (induction ms arbitrary: s)
  case (Cons m ms)
  from Cons.prems(4) obtain u where u: "ustep m s = Some u" "uruns ms u = Some s'" by (auto simp: bind_eq_Some_conv)
  have "untouched u" by (rule ustep_untouched[OF u(1) Cons.prems(2) _ Cons.prems(1)]) (use Cons.prems(3) in \<open>auto simp: no_close_def\<close>)
  with Cons u ustep_inv[OF u(1) Cons.prems(1)] show ?case by (auto simp: no_close_def)
qed simp

section \<open>What the counters say\<close>

definition quiet :: "upool \<Rightarrow> bool" where
  "quiet s \<longleftrightarrow> (\<forall>p \<in> set (uz_threads s). p = UIdle)"

definition users :: "upool \<Rightarrow> nat" where
  "users s = length (filter (\<lambda>p. case p of UIn _ \<Rightarrow> True | ULeft _ _ \<Rightarrow> True | _ \<Rightarrow> False) (uz_threads s))"

lemma quiet_total: "quiet s \<Longrightarrow> total (uz_threads s) = (0, 0, 0) \<and> conns (concat (map uheld (uz_threads s))) = {#}"
proof -
  have "\<forall>p \<in> set ps. p = UIdle \<Longrightarrow> total ps = (0, 0, 0) \<and> conns (concat (map uheld ps)) = {#}" for ps
    by (induction ps) (auto simp: prod_eq_iff)
  then show "quiet s \<Longrightarrow> ?thesis" by (simp add: quiet_def)
qed

lemma total_use: "fst (snd (total ps)) = int (length (filter (\<lambda>p. case p of UIn _ \<Rightarrow> True | ULeft _ _ \<Rightarrow> True | _ \<Rightarrow> False) ps))"
proof (induction ps)
  case (Cons p ps)
  then show ?case by (cases p) simp_all
qed simp

text \<open>C35: However any number of goroutines use a pool without closing it, its counters are exact: \<open>use\<close> is
  the number of callbacks running, and when all calls have returned \<open>full\<close> and \<open>idle\<close> both count the
  items in the pool and those the runtime dropped.  At all times every connection is at exactly one
  place: held by one goroutine, in the pool, dropped, or closed; so no two share one.\<close>

theorem use_pool_exact:
  assumes "uruns ms (uz_start n) = Some s"
  shows "conns (concat (map uheld (uz_threads s))) + conns (uz_pool s) + conns (uz_dropped s) + conns (uz_closed s)
      = mset (map Conn [0..<uz_next s]) \<and>
    (no_close ms \<longrightarrow> us_use (uz_stat s) = int (users s) \<and>
      (quiet s \<longrightarrow> us_full (uz_stat s) = int (length (uz_pool s) + length (uz_dropped s)) \<and>
        us_idle (uz_stat s) = us_full (uz_stat s)))"
proof -
  have inv: "upool_inv s" by (rule uruns_inv[OF upool_inv_start assms])
  have "conns (map Conn ns) = mset (map Conn ns)" for ns by (induction ns) simp_all
  then have own: "conns (concat (map uheld (uz_threads s))) + conns (uz_pool s) + conns (uz_dropped s) + conns (uz_closed s)
      = mset (map Conn [0..<uz_next s])"
    using inv by (simp only: upool_inv_def conns_ok_def)
  have "untouched (uz_start n)"
    using upool_inv_start[of n] by (auto simp: untouched_def upool_inv_def uz_start_def)
  then have "untouched s" if "no_close ms" using uruns_untouched[OF upool_inv_start _ that assms] by blast
  with inv quiet_total[of s] own show ?thesis
    by (auto simp: untouched_def upool_inv_def counters_ok_def zero_stat_def users_def total_use)
qed

text \<open>After closes, when all calls have returned, the counters are short by what the closers read:
  \<open>use\<close> is minus the callbacks that were running when the counters were read, and \<open>full\<close> and \<open>idle\<close> count
  what lies in the pool unclosed, less what was read and the zero items that were handed out.\<close>

theorem use_pool_after_close:
  assumes "uruns ms (uz_start n) = Some s" "quiet s" "uz_panic s = None"
  shows "us_use (uz_stat s) = - us_use (uz_sub s) \<and>
    us_full (uz_stat s) = int (length (uz_pool s) + length (uz_dropped s)) - int (uz_zeros s) - us_full (uz_sub s) \<and>
    us_idle (uz_stat s) = int (length (uz_pool s) + length (uz_dropped s)) - int (uz_zeros s) - us_idle (uz_sub s)"
  using uruns_inv[OF upool_inv_start assms(1)] quiet_total[OF assms(2)] assms(3)
  by (auto simp: upool_inv_def counters_ok_def)

text \<open>Goroutine 0 uses the pool, goroutine 1 closes it.\<close>

definition use_during_close :: "umove list" where
  "use_during_close = map (Go 0) [BeginUse, MakeNew, LoadForNew, GenItem, CountNew, EnterUse] @
    map (Go 1) [BeginClose, StoreClose, ReadStat, SubStat] @
    map (Go 0) [Callback True, LeaveUse, LoadIsCloseU, CountOff, CloseOff]"

definition two_closers :: "umove list" where
  "two_closers = map (Go 0) [BeginUse, MakeNew, LoadForNew, GenItem, CountNew, EnterUse, Callback True, LeaveUse, LoadIsCloseU, PutBack] @
    map (Go 0) [BeginClose] @ map (Go 1) [BeginClose] @ map (Go 0) [StoreClose, ReadStat] @ map (Go 1) [StoreClose, ReadStat] @
    [Go 0 SubStat, Go 1 SubStat]"

definition nil_item :: "umove list" where
  "nil_item = [Go 0 BeginUse] @ map (Go 1) [BeginClose, StoreClose, ReadStat, SubStat] @
    map (Go 0) [MakeNew, LoadForNew, EnterUse, Callback False, LeaveUse, CloseFailed]"

text \<open>Three interleavings of a use with a close: a callback that is running when the pool is closed
  leaves every counter at minus one or zero with its connection closed; two closers both pass the
  check, take the counters off twice and leave the pooled connection open; and a use that has passed
  the check gets a nil connection, whose close panics when the callback fails.\<close>

theorem use_pool_close_races:
  "(case uruns use_during_close (uz_start 2) of Some s \<Rightarrow>
      quiet s \<and> uz_stat s = \<lparr>us_full = - 1, us_use = - 1, us_idle = 0, us_accumulatorErr = 0\<rparr> \<and> uz_closed s = [Conn 0] | None \<Rightarrow> False) \<and>
   (case uruns two_closers (uz_start 2) of Some s \<Rightarrow>
      quiet s \<and> uz_stat s = \<lparr>us_full = - 1, us_use = 0, us_idle = - 1, us_accumulatorErr = 0\<rparr> \<and>
      uz_pool s = [Conn 0] \<and> uz_closed s = [] | None \<Rightarrow> False) \<and>
   (case uruns nil_item (uz_start 2) of Some s \<Rightarrow> uz_panic s = Some PNilDeref \<and> uz_next s = 0 | None \<Rightarrow> False)"
  by code_simp

text \<open>A goroutine inside its callback while a second one has returned.\<close>

lemma use_pool_exact_witness:
  "\<exists>s. uruns (map (Go 0) [BeginUse, MakeNew, LoadForNew, GenItem, CountNew, EnterUse]) (uz_start 2) = Some s \<and>
    us_use (uz_stat s) = 1"
proof -
  let ?ms = "map (Go 0) [BeginUse, MakeNew, LoadForNew, GenItem, CountNew, EnterUse]"
  have "uruns ?ms (uz_start 2) \<noteq> None" by code_simp
  then obtain s where s: "uruns ?ms (uz_start 2) = Some s" by blast
  have "users (the (uruns ?ms (uz_start 2))) = 1" by code_simp
  with use_pool_exact[OF s] s show ?thesis by (auto simp: no_close_def)
qed

lemma use_pool_after_close_witness:
  "\<exists>s. uruns use_during_close (uz_start 2) = Some s \<and> us_use (uz_stat s) = - us_use (uz_sub s) \<and> us_use (uz_sub s) = 1"
proof -
  have "case uruns use_during_close (uz_start 2) of Some s \<Rightarrow> quiet s \<and> uz_panic s = None \<and> us_use (uz_sub s) = 1 | None \<Rightarrow> False"
    by code_simp
  then obtain s where s: "uruns use_during_close (uz_start 2) = Some s" "quiet s" "uz_panic s = None" "us_use (uz_sub s) = 1"
    by (auto split: option.splits)
  from use_pool_after_close[OF s(1-3)] s show ?thesis by blast
qed

end
