(* ===== verification/Entries.thy ===== *)
theory Entries
  imports Master Generators
begin

text \<open>
  The loops of \<^verbatim>\<open>entry/master.go\<close> and \<^verbatim>\<open>entry/syncd.go\<close> turn by turn, and
  \<^verbatim>\<open>main\<close>, which waits for a signal or the end of its entry and then closes what
  \<^verbatim>\<open>global/init.go\<close> has registered (its first line, which panics, is in \<open>Startup\<close>).  What happens outside between two
  turns is in the turn: whether the context is done, which child processes have ended, whether the
  parent still runs.
\<close>

section \<open>The master's loop\<close>

text \<open>The database, the manager, and how often the loop has slept.\<close>

record ('q, 'o) master_state =
  ms_query :: 'q
  ms_pm :: "'o proc_manager"
  ms_slept :: nat

text \<open>One turn: \<open>Ok False\<close> when the loop is left.  After a failed fetch it goes on without the sleep.\<close>

definition master_turn ::
    "'o os_ctl \<Rightarrow> (conn_args \<Rightarrow> ('q, rows \<times> string list) goS) \<Rightarrow> process_config \<Rightarrow> bool \<Rightarrow>
     (('q, 'o) master_state, bool) goS" where
  "master_turn ctl query conf ctxDone s =
    (if ctxDone then (Ok False, s)
     else (case master_round ctl query conf (ms_query s, ms_pm s) of (r, (q, pm)) \<Rightarrow>
       let slept = (case fst (db_list_ident query conf (ms_query s)) of Ok _ \<Rightarrow> Suc (ms_slept s) | _ \<Rightarrow> ms_slept s);
         s' = s\<lparr>ms_query := q, ms_pm := pm\<rparr> in
       (case r of Ok _ \<Rightarrow> (Ok True, s'\<lparr>ms_slept := slept\<rparr>) | Err e \<Rightarrow> (Err e, s') | Panic p \<Rightarrow> (Panic p, s'))))"

text \<open>A schedule: before every turn the outside changes the system.\<close>

fun master_entry ::
    "'o os_ctl \<Rightarrow> (conn_args \<Rightarrow> ('q, rows \<times> string list) goS) \<Rightarrow> process_config \<Rightarrow> (bool \<times> ('o \<Rightarrow> 'o)) list \<Rightarrow>
     (('q, 'o) master_state, bool) goS" where
  "master_entry ctl query conf [] s = (Ok True, s)"
| "master_entry ctl query conf ((ctxDone, outside) # turns) s =
    (case master_turn ctl query conf ctxDone (s\<lparr>ms_pm := (ms_pm s)\<lparr>pm_os := outside (pm_os (ms_pm s))\<rparr>\<rparr>) of
      (Ok True, s') \<Rightarrow> master_entry ctl query conf turns s'
    | r \<Rightarrow> r)"

section \<open>What the loop does\<close>

text \<open>The specification looks at the fetches only: the set of identifiers to run is that of the last fetch
  that succeeded, and the loop has slept once for each of these.\<close>

fun fetches :: "(conn_args \<Rightarrow> ('q, rows \<times> string list) goS) \<Rightarrow> process_config \<Rightarrow> nat \<Rightarrow> 'q \<Rightarrow> string list go list" where
  "fetches query conf 0 q = []"
| "fetches query conf (Suc k) q = (case db_list_ident query conf q of (r, q') \<Rightarrow> r # fetches query conf k q')"

fun listed :: "string list go list \<Rightarrow> string set \<Rightarrow> string set" where
  "listed [] ids = ids"
| "listed (Ok l # rs) ids = listed rs (set l)"
| "listed (r # rs) ids = listed rs ids"

definition fetched :: "string list go list \<Rightarrow> nat" where
  "fetched rs = length (filter (\<lambda>r. case r of Ok _ \<Rightarrow> True | _ \<Rightarrow> False) rs)"

definition pids_needed :: "string list go list \<Rightarrow> nat" where
  "pids_needed rs = sum_list (map (\<lambda>r. case r of Ok l \<Rightarrow> length l | _ \<Rightarrow> 0) rs)"

lemma fetch_counts [simp]:
  "fetched [] = 0" "pids_needed [] = 0"
  "fetched (Ok l # rs) = Suc (fetched rs)" "fetched (Err e # rs) = fetched rs"
  "pids_needed (Ok l # rs) = length l + pids_needed rs" "pids_needed (Err e # rs) = pids_needed rs"
  by (simp_all add: fetched_def pids_needed_def)

text \<open>Between turns children may end by themselves.\<close>

definition child_exits :: "bool \<times> (os_table \<Rightarrow> os_table) \<Rightarrow> bool" where
  "child_exits turn \<longleftrightarrow> \<not> fst turn \<and> (\<exists>dead. snd turn = fold os_exit dead)"

lemma list_ident_loop_no_panic: "\<not> is_panic (list_ident_loop data ret)"
  by (induction data arbitrary: ret) (auto split: goval.splits)

lemma db_list_ident_no_panic:
  assumes "\<And>arg q. \<not> is_panic (fst (query arg q))"
  shows "\<not> is_panic (fst (db_list_ident query conf q))"
  using assms[of "\<lparr>a_Query = pc_DbSyncList conf, a_Args = None, a_IsTransaction = False\<rparr>" q] list_ident_loop_no_panic
  by (auto simp: db_list_ident_def bindS_def wrapS_def is_panic_iff split: go.splits prod.splits)

lemma master_turn_ok:
  assumes "pm_wf (ms_pm s)" "\<not> is_panic r" "db_list_ident query conf (ms_query s) = (r, q')"
    and "pids_needed [r] \<le> length (os_pids (pm_os (ms_pm s)))"
  shows "\<exists>s'. master_turn table_ctl query conf False s = (Ok True, s') \<and> ms_query s' = q' \<and> pm_wf (ms_pm s') \<and>
    set (pm_list (ms_pm s')) = listed [r] (set (pm_list (ms_pm s))) \<and> ms_slept s' = ms_slept s + fetched [r] \<and>
    length (os_pids (pm_os (ms_pm s))) \<le> length (os_pids (pm_os (ms_pm s'))) + pids_needed [r]"
proof (cases r)
  case (Ok l)
  with assms(3,4) round_ok[OF assms(1), of query conf "ms_query s" l q'] show ?thesis
    by (auto simp: master_turn_def Let_def)
next
  case (Err e)
  with assms show ?thesis by (simp add: master_turn_def master_round_def Let_def)
qed (use assms(2) in simp)

lemma listed_Cons: "listed (r # rs) ids = listed rs (listed [r] ids)"
  by (cases r) simp_all

lemma counts_Cons: "\<not> is_panic r \<Longrightarrow> fetched (r # rs) = fetched [r] + fetched rs \<and> pids_needed (r # rs) = pids_needed [r] + pids_needed rs"
  by (cases r) simp_all

text \<open>C11: However long the master's loop runs, whatever its fetches answer or fail to, and whichever of its
  children end between the turns: it goes on, the processes it tracks are exactly those of the last list
  it could fetch (all alive to it), and it has slept once for each list and never after a failure, so a
  database that does not answer is asked again at once, without end.\<close>

theorem master_loop_tracks_list:
  assumes "pm_wf (ms_pm s)" "\<And>arg q. \<not> is_panic (fst (query arg q))" "\<forall>turn \<in> set turns. child_exits turn"
    and "pids_needed (fetches query conf (length turns) (ms_query s)) \<le> length (os_pids (pm_os (ms_pm s)))"
  shows "\<exists>s'. master_entry table_ctl query conf turns s = (Ok True, s') \<and>
    set (pm_list (ms_pm s')) = listed (fetches query conf (length turns) (ms_query s)) (set (pm_list (ms_pm s))) \<and>
    (\<forall>i \<in> set (pm_list (ms_pm s')). pm_alive table_ctl i (ms_pm s')) \<and>
    ms_slept s' = ms_slept s + fetched (fetches query conf (length turns) (ms_query s))"
  using assms(1,3,4)
proof (induction turns arbitrary: s)
  case Nil
  then show ?case using alive_iff_tracked by auto
next
  case (Cons turn turns)
  obtain r q' where r: "db_list_ident query conf (ms_query s) = (r, q')" by fastforce
  then have np: "\<not> is_panic r" using db_list_ident_no_panic[of query conf "ms_query s"] assms(2) by simp
  let ?rs = "fetches query conf (length turns) q'"
  have fs: "fetches query conf (length (turn # turns)) (ms_query s) = r # ?rs" using r by simp
  from Cons.prems(2) obtain dead where turn: "turn = (False, fold os_exit dead)"
    by (cases turn) (auto simp: child_exits_def)
  let ?t = "s\<lparr>ms_pm := (ms_pm s)\<lparr>pm_os := fold os_exit dead (pm_os (ms_pm s))\<rparr>\<rparr>"
  have t: "pm_wf (ms_pm ?t)" "os_pids (pm_os (ms_pm ?t)) = os_pids (pm_os (ms_pm s))" "pm_list (ms_pm ?t) = pm_list (ms_pm s)"
    using pm_wf_exits[OF Cons.prems(1)] os_exits[of "pm_os (ms_pm s)" dead] Cons.prems(1) by (simp_all add: pm_wf_def pm_list_def)
  obtain u where u: "master_turn table_ctl query conf False ?t = (Ok True, u)" "ms_query u = q'" "pm_wf (ms_pm u)"
      "set (pm_list (ms_pm u)) = listed [r] (set (pm_list (ms_pm s)))" "ms_slept u = ms_slept s + fetched [r]"
      "length (os_pids (pm_os (ms_pm s))) \<le> length (os_pids (pm_os (ms_pm u))) + pids_needed [r]"
    using master_turn_ok[OF t(1) np, of query conf q'] r Cons.prems(3) t(2,3) fs counts_Cons[OF np, of ?rs] by auto
  have "\<exists>s'. master_entry table_ctl query conf turns u = (Ok True, s') \<and>
      set (pm_list (ms_pm s')) = listed (fetches query conf (length turns) (ms_query u)) (set (pm_list (ms_pm u))) \<and>
      (\<forall>i \<in> set (pm_list (ms_pm s')). pm_alive table_ctl i (ms_pm s')) \<and>
      ms_slept s' = ms_slept u + fetched (fetches query conf (length turns) (ms_query u))"
    by (rule Cons.IH[OF u(3)]) (use Cons.prems(2,3) u(2,6) fs counts_Cons[OF np, of ?rs] in auto)
  then show ?case
    using u fs counts_Cons[OF np, of ?rs] listed_Cons[of r ?rs] by (auto simp: turn add.assoc)
qed

text \<open>Two lists with a failure between them; a child ends before the last turn.\<close>

definition three_answers :: "conn_args \<Rightarrow> (nat, rows \<times> string list) goS" where
  "three_answers arg n =
    (if n = 0 then Ok ([[GString ''a''], [GString ''b'']], []) else if n = 1 then Err (ESys ''down'') else Ok ([[GString ''b'']], []), Suc n)"

lemma master_loop_tracks_list_witness:
  "\<exists>s'. master_entry table_ctl three_answers default_process_config
      [(False, fold os_exit []), (False, fold os_exit []), (False, fold os_exit [7])] \<lparr>ms_query = 0, ms_pm = table_pm [7, 8, 9], ms_slept = 0\<rparr> = (Ok True, s') \<and>
    set (pm_list (ms_pm s')) = {''b''} \<and> ms_slept s' = 2"
proof -
  let ?s = "\<lparr>ms_query = 0, ms_pm = table_pm [7, 8, 9], ms_slept = 0\<rparr> :: (nat, os_table) master_state"
  let ?turns = "[(False, fold os_exit []), (False, fold os_exit []), (False, fold os_exit [7])]"
  have f: "fetches three_answers default_process_config 3 0 = [Ok [''a'', ''b''], Err (EWrap (Some (ESys ''down'')) ''db list ident failed : %s''), Ok [''b'']]"
    by (simp add: numeral_3_eq_3 db_list_ident_def three_answers_def bindS_def wrapS_def)
  have turns: "\<forall>turn \<in> set ?turns. child_exits turn"
    unfolding child_exits_def by (simp only: list.simps ball_simps fst_conv snd_conv) blast
  have wf: "pm_wf (ms_pm ?s)" by (simp add: table_pm_wf)
  have np: "\<not> is_panic (fst (three_answers arg q))" for arg q by (simp add: three_answers_def)
  have f': "fetches three_answers default_process_config (length ?turns) (ms_query ?s) =
      [Ok [''a'', ''b''], Err (EWrap (Some (ESys ''down'')) ''db list ident failed : %s''), Ok [''b'']]"
    using f by (simp add: numeral_3_eq_3)
  have need: "pids_needed (fetches three_answers default_process_config (length ?turns) (ms_query ?s)) \<le>
      length (os_pids (pm_os (ms_pm ?s)))"
    unfolding f' by (simp add: table_pm_def new_proc_manager_def)
  from master_loop_tracks_list[OF wf np turns need, unfolded f'] obtain s' where
    "master_entry table_ctl three_answers default_process_config ?turns ?s = (Ok True, s')"
    "set (pm_list (ms_pm s')) = {''b''}" "ms_slept s' = 2" by (elim exE conjE) simp
  then show ?thesis by blast
qed

section \<open>The loop of the sync process\<close>

text \<open>Each turn: whether the context is done and whether the parent runs; \<open>Ok False\<close> when the loop is left.\<close>

fun syncd_turns ::
    "('w, 'p) pool_ops \<Rightarrow> (string \<Rightarrow> conn_config \<Rightarrow> 'p go) \<Rightarrow> (string \<Rightarrow> script_config go) \<Rightarrow>
     (string \<Rightarrow> 8 word list) \<Rightarrow> 'q query \<Rightarrow> process_config \<Rightarrow> string \<Rightarrow> (bool \<times> bool) list \<Rightarrow>
     (('q, 'w, 'p) syncd_state, bool) goS" where
  "syncd_turns ops newPool parse md5 query conf syncIdent [] d = (Ok True, d)"
| "syncd_turns ops newPool parse md5 query conf syncIdent ((ctxDone, parentUp) # turns) d =
    (if ctxDone then (Ok False, d)
     else (case syncd_round ops newPool parse md5 query conf syncIdent parentUp d of
        (Ok True, d') \<Rightarrow> syncd_turns ops newPool parse md5 query conf syncIdent turns d'
      | r \<Rightarrow> r))"

text \<open>The entry: an empty shared and private state, the process's own pool, then the loop; the goroutine of
  the background loop is started with that pool (\<open>Background\<close>).\<close>

definition syncd_entry ::
    "('w, 'p) pool_ops \<Rightarrow> (string \<Rightarrow> conn_config \<Rightarrow> 'p go) \<Rightarrow> (string \<Rightarrow> script_config go) \<Rightarrow>
     (string \<Rightarrow> 8 word list) \<Rightarrow> 'q query \<Rightarrow> process_config \<Rightarrow> string \<Rightarrow> 'w \<Rightarrow> (bool \<times> bool) list \<Rightarrow> 'q \<Rightarrow>
     bool go \<times> ('q, 'w, 'p) syncd_state" where
  "syncd_entry ops newPool parse md5 query conf syncIdent w turns q =
    (case syncd_start newPool query conf syncIdent q of
      (Ok None, q') \<Rightarrow> (Ok False, \<lparr>sd_query = q', sd_shared = new_shared_state w, sd_plans = new_sync_map\<rparr>)
    | (Ok (Some p), q') \<Rightarrow> syncd_turns ops newPool parse md5 query conf syncIdent turns
        \<lparr>sd_query = q', sd_shared = new_shared_state w, sd_plans = new_sync_map\<rparr>
    | (Err e, q') \<Rightarrow> (Err e, \<lparr>sd_query = q', sd_shared = new_shared_state w, sd_plans = new_sync_map\<rparr>)
    | (Panic p, q') \<Rightarrow> (Panic p, \<lparr>sd_query = q', sd_shared = new_shared_state w, sd_plans = new_sync_map\<rparr>))"

text \<open>C33: Whatever the management database answers and the driver libraries do, the entry of a sync process
  returns (or panics in its first query) without one turn of its loop, with no pool and no plan: the
  connection information it fetches for itself loses its database type on the way, and no generator is
  made for an empty one.\<close>

theorem syncd_entry_never_loops:
  "\<exists>r q'. syncd_entry ops (\<lambda>ident info. new_conn_pool (new_generator libs) base ident info m w0) parse md5 query conf
      syncIdent w turns q = (r, \<lparr>sd_query = q', sd_shared = new_shared_state w, sd_plans = new_sync_map\<rparr>) \<and>
    r \<in> {Ok False} \<union> range Panic"
proof -
  let ?r = "syncd_start (\<lambda>ident info. new_conn_pool (new_generator libs) base ident info m w0) query conf syncIdent q"
  obtain x q' where x: "?r = (x, q')" by fastforce
  with no_own_pool[of libs base m w0 query conf syncIdent q] have "x \<in> {Ok None} \<union> range Panic" by simp
  with x show ?thesis by (auto simp: syncd_entry_def)
qed

section \<open>main\<close>

text \<open>\<^verbatim>\<open>main\<close> polls for a signal and for the end of its entry, cancels, and closes what start-up has
  registered, in this order.\<close>

datatype closer = ConnLog | ScriptLog | QueryLog | GenLog | ManageLog | ManagePool

definition main_closers :: "closer list" where
  "main_closers = [ConnLog, ScriptLog, QueryLog, GenLog, ManageLog, ManagePool]"

datatype main_pc = MWait | MCancel | MClosing nat | MExit

record main_state =
  mn_signals :: nat
  mn_entry :: bool
  mn_ctxDone :: bool
  mn_pc :: main_pc
  mn_closed :: "closer list"

definition main_start_state :: main_state where
  "main_start_state = \<lparr>mn_signals = 0, mn_entry = True, mn_ctxDone = False, mn_pc = MWait, mn_closed = []\<rparr>"

text \<open>A turn of the loop of \<^verbatim>\<open>GlobalClose\<close>, which ignores the errors.\<close>

definition global_close :: "nat \<Rightarrow> main_state \<Rightarrow> main_state" where
  "global_close i s =
    (if i < length main_closers then s\<lparr>mn_closed := mn_closed s @ [main_closers ! i], mn_pc := MClosing (Suc i)\<rparr>
     else s\<lparr>mn_pc := MExit\<rparr>)"

text \<open>A signal arrives (the channel holds one); the entry returns and its goroutine cancels; a step of
  \<^verbatim>\<open>main\<close>, which takes the signal or the end of the context in the order \<open>sigFirst\<close>.\<close>

datatype main_act = SignalArrives | EntryReturns | MainMoves bool

fun main_step :: "main_act \<Rightarrow> main_state \<Rightarrow> main_state option" where
  "main_step SignalArrives s = Some (s\<lparr>mn_signals := 1\<rparr>)"
| "main_step EntryReturns s = (if mn_entry s then Some (s\<lparr>mn_entry := False, mn_ctxDone := True\<rparr>) else None)"
| "main_step (MainMoves sigFirst) s =
    (case mn_pc s of
      MWait \<Rightarrow> Some (if mn_signals s > 0 \<and> (sigFirst \<or> \<not> mn_ctxDone s) then s\<lparr>mn_signals := 0, mn_pc := MCancel\<rparr>
        else if mn_ctxDone s then s\<lparr>mn_pc := MCancel\<rparr> else s)
    | MCancel \<Rightarrow> Some (s\<lparr>mn_ctxDone := True, mn_pc := MClosing 0\<rparr>)
    | MClosing i \<Rightarrow> Some (global_close i s)
    | MExit \<Rightarrow> None)"

fun main_run :: "main_act list \<Rightarrow> main_state \<Rightarrow> main_state option" where
  "main_run [] s = Some s"
| "main_run (a # acts) s = Option.bind (main_step a s) (main_run acts)"

definition main_inv :: "main_act list \<Rightarrow> main_state \<Rightarrow> bool" where
  "main_inv hist s \<longleftrightarrow>
    (mn_signals s > 0 \<longrightarrow> SignalArrives \<in> set hist) \<and> (mn_entry s = (EntryReturns \<notin> set hist)) \<and>
    (mn_ctxDone s \<longrightarrow> \<not> mn_entry s \<or> (mn_pc s \<noteq> MWait \<and> mn_pc s \<noteq> MCancel)) \<and>
    (mn_pc s \<noteq> MWait \<longrightarrow> SignalArrives \<in> set hist \<or> EntryReturns \<in> set hist) \<and>
    (case mn_pc s of MClosing i \<Rightarrow> i \<le> length main_closers \<and> mn_closed s = take i main_closers \<and> mn_ctxDone s
      | MExit \<Rightarrow> mn_closed s = main_closers \<and> mn_ctxDone s | _ \<Rightarrow> mn_closed s = [])"

lemma main_inv_step: "main_inv hist s \<Longrightarrow> main_step a s = Some s' \<Longrightarrow> main_inv (hist @ [a]) s'"
proof (cases a)
  case SignalArrives
  assume "main_inv hist s" "main_step a s = Some s'"
  with SignalArrives show ?thesis by (cases "mn_pc s") (auto simp: main_inv_def)
next
  case EntryReturns
  assume "main_inv hist s" "main_step a s = Some s'"
  with EntryReturns show ?thesis by (cases "mn_pc s") (auto simp: main_inv_def split: if_splits)
next
  case (MainMoves b)
  assume inv: "main_inv hist s" and m: "main_step a s = Some s'"
  show ?thesis
  proof (cases "mn_pc s")
    case MWait
    with MainMoves inv m show ?thesis by (auto simp: main_inv_def split: if_splits)
  next
    case (MClosing i)
    with MainMoves inv m show ?thesis
      by (cases "i < length main_closers") (auto simp: global_close_def main_inv_def take_Suc_conv_app_nth)
  qed (use MainMoves inv m in \<open>auto simp: main_inv_def\<close>)
qed

lemma main_inv_run: "main_inv hist s \<Longrightarrow> main_run acts s = Some s' \<Longrightarrow> main_inv (hist @ acts) s'"
proof (induction acts arbitrary: hist s)
  case (Cons a acts)
  then obtain t where t: "main_step a s = Some t" "main_run acts t = Some s'" by (auto simp: bind_eq_Some_conv)
  from Cons.IH[OF main_inv_step[OF Cons.prems(1) t(1)] t(2)] show ?case by simp
qed simp

text \<open>\<^verbatim>\<open>main\<close> ends only after a signal or the end of its entry, and then it has cancelled the context
  and closed the five loggers and, last, the management pool; before the cancellation nothing is closed.\<close>

theorem main_closes_all:
  assumes "main_run acts main_start_state = Some s"
  shows "(mn_pc s \<noteq> MWait \<longrightarrow> SignalArrives \<in> set acts \<or> EntryReturns \<in> set acts) \<and>
    (mn_closed s \<noteq> [] \<longrightarrow> mn_ctxDone s) \<and> (\<exists>k. mn_closed s = take k main_closers) \<and> (mn_pc s = MExit \<longrightarrow> mn_closed s = main_closers)"
proof -
  have "main_inv [] main_start_state" by (simp add: main_inv_def main_start_state_def)
  from main_inv_run[OF this assms] have inv: "main_inv acts s" by simp
  have "\<exists>k. mn_closed s = take k main_closers"
    using inv by (cases "mn_pc s") (auto simp: main_inv_def intro: exI[of _ 0] exI[of _ "length main_closers"])
  with inv show ?thesis by (auto simp: main_inv_def split: main_pc.splits)
qed

text \<open>It does not wait for the entry, which may still be running when all is closed.\<close>

lemma main_closes_all_witness:
  "\<exists>s. main_run (SignalArrives # replicate 9 (MainMoves True)) main_start_state = Some s \<and>
    mn_closed s = main_closers \<and> mn_ctxDone s \<and> mn_entry s"
proof -
  have "case main_run (SignalArrives # replicate 9 (MainMoves True)) main_start_state of
      Some s \<Rightarrow> mn_pc s = MExit \<and> mn_entry s | None \<Rightarrow> False" by code_simp
  then obtain s where s: "main_run (SignalArrives # replicate 9 (MainMoves True)) main_start_state = Some s"
    "mn_pc s = MExit" "mn_entry s" by (auto split: option.splits)
  from main_closes_all[OF s(1)] s show ?thesis by (auto simp: main_closers_def)
qed

end
