(* ===== verification/PackageVars.thy ===== *)
theory PackageVars
  imports Entries
begin

text \<open>
  \<^verbatim>\<open>global/manage/manage_pool.go\<close> and \<^verbatim>\<open>global/metric/metric.go\<close>: the package
  variables for the pool of the management database and for the metrics.  \<^verbatim>\<open>global/init.go\<close>
  sets the first and gives the second to every pool, but nothing ever sets the second: it is a nil
  interface, and a call of one of its methods is a nil dereference.
\<close>

section \<open>The variables\<close>

definition manage_var :: "('w, 'c, 'm) conn_pool option" where
  "manage_var = None"

definition metric_var :: "'m option" where
  "metric_var = None"

section \<open>The pool over a nil metric\<close>

text \<open>\<^verbatim>\<open>gen\<close>, \<^verbatim>\<open>Close\<close> and \<^verbatim>\<open>Use\<close> of
  \<^verbatim>\<open>extension/pool/timeout_pool.go\<close> as far as their first call of the metric.\<close>

definition timeout_gen :: "('w, 'c, 'm) pool_env \<Rightarrow> (('w, 'c, 'm) timeout_pool, 'c) goS" where
  "timeout_gen e p =
    (if pl_isClose p then (Ok (pe_zero e), p)
     else case pe_gen e (pl_world p) of
       (Err er, w) \<Rightarrow> (Err (EWrap (Some er) ''gen failed''), p\<lparr>pl_world := w\<rparr>)
     | (r, w) \<Rightarrow> (r, p\<lparr>pl_world := w\<rparr>))"

definition nil_close :: "('w, 'c, 'm) pool_env \<Rightarrow> (('w, 'c, 'm) timeout_pool, unit) goS" where
  "nil_close e p =
    (if pl_isClose p then (Err (sentinel_err ClosedError ''SyncExpirePool already closed''), p)
     else let q = (case pl_chan p of None \<Rightarrow> [] | Some c \<Rightarrow> ch_queue c);
        p = p\<lparr>pl_isClose := True, pl_world := drain e ti_data q (pl_world p),
          pl_chan := map_option (ch_queue_update (\<lambda>_. [])) (pl_chan p)\<rparr> in
       case close_chan (pl_chan p) of
         Ok ch \<Rightarrow> (Panic PNilDeref, p\<lparr>pl_chan := ch\<rparr>)
       | Err er \<Rightarrow> (Err er, p)
       | Panic x \<Rightarrow> (Panic x, p))"

definition nil_init :: "('w, 'c, 'm) pool_env \<Rightarrow> (('w, 'c, 'm) timeout_pool, unit) goS" where
  "nil_init e p =
    (if pl_isInit p then (Ok (), p)
     else (Panic PNilDeref,
       if pl_chan p = None
       then p\<lparr>pl_realMax := real_max e, pl_chan := Some \<lparr>ch_queue = [], ch_closed = False\<rparr>\<rparr> else p))"

definition nil_get ::
    "('w, 'c, 'm) pool_env \<Rightarrow> int \<Rightarrow> int \<Rightarrow> (('w, 'c, 'm) timeout_pool, 'r) goS" where
  "nil_get e idleTimeout sec p =
    (case try_receive (pl_chan p) of
      (Item x, ch) \<Rightarrow>
        if expired idleTimeout sec x then (Panic PNilDeref, close_item e (ti_data x) (p\<lparr>pl_chan := ch\<rparr>))
        else (Panic PNilDeref, p\<lparr>pl_chan := ch, pl_use := pl_use p + 1\<rparr>)
    | (ZeroItem, ch) \<Rightarrow> (Panic PNilDeref, p\<lparr>pl_use := pl_use p + 1\<rparr>)
    | (NothingReady, ch) \<Rightarrow> (case timeout_gen e p of
          (Ok c, p) \<Rightarrow> (Panic PNilDeref, p\<lparr>pl_use := pl_use p + 1\<rparr>)
        | (Err er, p) \<Rightarrow> (Panic PNilDeref, p\<lparr>pl_accErr := pl_accErr p + 1\<rparr>)
        | (Panic x, p) \<Rightarrow> (Panic x, p)))"

definition nil_use ::
    "('w, 'c, 'm) pool_env \<Rightarrow> int \<Rightarrow> int \<Rightarrow> (('w, 'c, 'm) timeout_pool, 'r) goS" where
  "nil_use e idleTimeout sec p =
    (if pl_isClose p then (Err (sentinel_err ClosedError ''SyncExpirePool already closed''), p)
     else if pe_done e (pl_world p)
     then (case nil_close e p of
         (Panic x, p) \<Rightarrow> (Panic x, p)
       | (_, p) \<Rightarrow> (Err (sentinel_err ClosedError ''SyncExpirePool already camcel context''), p))
     else bindS (nil_init e) (\<lambda>_. nil_get e idleTimeout sec) p)"

section \<open>It is the pool, up to its first call of the metric\<close>

text \<open>An environment whose metrics only remember that they have been called.\<close>

definition watched :: "('w, 'c, bool) pool_env \<Rightarrow> bool" where
  "watched e \<longleftrightarrow> pe_assignment e = (\<lambda>_ _ _ _. True) \<and> pe_assignments e = (\<lambda>_ _ _. True) \<and> pe_delete e = (\<lambda>_ _. True)"

lemma watched_calls [simp]:
  assumes "watched e"
  shows "pe_assignment e n k v m" "pe_assignments e n kvs m" "pe_delete e n m"
  using assms by (simp_all add: watched_def)

lemma finish_metric: "watched e \<Longrightarrow> pl_metric p \<Longrightarrow> pl_metric (snd (finish e mk i r p))"
  by (cases r) (auto simp: finish_def Let_def close_item_def set_gauges_def upd_metric_def split: go.split)

lemma gen_item_metric:
  "watched e \<Longrightarrow> gen_item e p = (r, q) \<Longrightarrow>
    (pl_metric p \<longrightarrow> pl_metric q) \<and> (\<forall>er. r = Err er \<longrightarrow> pl_metric q) \<and> ((\<nexists>er. r = Err er) \<longrightarrow> pl_metric q = pl_metric p)"
  by (auto simp: gen_item_def pool_gen_def wrapS_def on_pool_world_def upd_metric_def Let_def
      split: if_splits prod.splits go.splits)

lemma scan_metric: "watched e \<Longrightarrow> pl_metric p \<Longrightarrow> pl_metric (snd (timeout_scan e idle sec xs p))"
proof (induction e idle sec xs p rule: timeout_scan.induct)
  case (1 e idle sec p)
  then show ?case using gen_item_metric[OF 1(1) prod.collapse[symmetric], of p]
    by (auto split: prod.splits received.splits)
qed (auto simp: Let_def upd_metric_def)

lemma timeout_gen_is_gen: "timeout_gen e = pool_gen e"
proof
  fix p
  show "timeout_gen e p = pool_gen e p"
    by (cases "pe_gen e (pl_world p)"; cases "fst (pe_gen e (pl_world p))")
      (auto simp: timeout_gen_def pool_gen_def wrapS_def on_pool_world_def)
qed

text \<open>Over metrics that remember, a call of the pool has called them exactly when the same call
  panics over a nil metric; one that has not does the same.\<close>

lemma open_close_calls:
  assumes "pool_ok e p" "\<not> pl_isClose p"
  shows "fst (nil_close e p) = Panic PNilDeref"
    and "pl_world (snd (nil_close e p)) = pl_world (snd (pool_close e ti_data p))"
    and "watched e \<Longrightarrow> pl_metric (snd (pool_close e ti_data p))"
  using assms
  by (cases "pl_chan p"; auto simp: nil_close_def pool_close_def close_chan_def Let_def upd_metric_def pool_ok_def)+

lemma use_tail_metric:
  assumes "watched e" "get q = (Ok c, q')"
  shows "pl_metric (snd (bindS get (\<lambda>item p.
       let p = set_gauges e (p\<lparr>pl_use := pl_use p + 1\<rparr>) in
       case on_pool_world (f item) p of (r, p) \<Rightarrow> finish e mk item r p) q))"
  using assms
  by (auto simp: Let_def on_pool_world_def set_gauges_def upd_metric_def split: prod.split intro!: finish_metric)

text \<open>Over metrics that only remember, a use of the pool has called them exactly when the same use
  panics over a nil metric; one that has not does the same.\<close>

theorem nil_use_watched:
  assumes "watched e" "\<not> pl_metric p" "pool_ok e p"
  shows "if pl_metric (snd (timeout_use e idle sec sec' f p)) then fst (nil_use e idle sec p) = Panic PNilDeref
    else nil_use e idle sec p = timeout_use e idle sec sec' f p"
proof (cases "pl_isClose p \<or> pe_done e (pl_world p)")
  case True
  show ?thesis
  proof (cases "pl_isClose p")
    case True
    with assms(2) show ?thesis by (simp add: timeout_use_def use_with_def nil_use_def)
  next
    case False
    with True open_close_calls[OF assms(3) False] assms(1) show ?thesis
      by (auto simp: timeout_use_def use_with_def nil_use_def split: prod.split go.split)
  qed
next
  case opn: False
  let ?tail = "\<lambda>item p. let p = set_gauges e (p\<lparr>pl_use := pl_use p + 1\<rparr>) in
       case on_pool_world (f item) p of (r, p) \<Rightarrow> finish e (\<lambda>c. \<lparr>ti_data = c, ti_last = nanos sec'\<rparr>) item r p"
  have use: "timeout_use e idle sec sec' f p = bindS (timeout_get e idle sec) ?tail (init_pool e p)"
    using opn by (simp add: timeout_use_def use_with_def)
  obtain g q where g: "timeout_get e idle sec (init_pool e p) = (g, q)" by fastforce
  have tail: "if \<exists>c. g = Ok c then pl_metric (snd (timeout_use e idle sec sec' f p)) else snd (timeout_use e idle sec sec' f p) = q"
    using use_tail_metric[OF assms(1), of "timeout_get e idle sec"] g unfolding use by (cases g) auto
  show ?thesis
  proof (cases "pl_isInit p")
    case False
    then have "pl_metric (init_pool e p)" using assms(1) by (simp add: init_pool_def Let_def upd_metric_def)
    then have "pl_metric q" using scan_metric[OF assms(1)] g by (metis timeout_get_def snd_conv)
    with tail have "pl_metric (snd (timeout_use e idle sec sec' f p))" by (auto split: if_splits)
    with opn False show ?thesis by (simp add: nil_use_def nil_init_def bindS_def)
  next
    case True
    then have init: "init_pool e p = p" by (simp add: init_pool_def)
    obtain c where c: "pl_chan p = Some c" "\<not> ch_closed c" using True assms(3) opn by (auto simp: pool_ok_def)
    show ?thesis
    proof (cases "ch_queue c")
      case Nil
      with c g init have gen: "gen_item e p = (g, q)" by (simp add: timeout_get_def try_receive_def)
      with gen_item_metric[OF assms(1) gen] tail use g init opn True c Nil assms(2) show ?thesis
        by (cases g) (auto simp: nil_use_def nil_init_def nil_get_def try_receive_def timeout_gen_is_gen gen_item_def Let_def
            split: go.splits prod.splits)
    next
      case (Cons x xs)
      have "pl_metric q" if "expired idle sec x"
        using assms(1) g init c Cons that scan_metric[OF assms(1)]
        by (auto simp: timeout_get_def try_receive_def Let_def upd_metric_def dest!: arg_cong[of _ _ snd] split: if_splits)
      with tail use g init opn True c Cons show ?thesis
        by (auto simp: nil_use_def nil_init_def nil_get_def try_receive_def timeout_get_def Let_def split: if_splits)
    qed
  qed
qed

section \<open>The program\<close>

text \<open>\<^verbatim>\<open>RunExecute\<close> and \<^verbatim>\<open>RunQuery\<close> of a pool that was given the value
  of a variable as its metric.\<close>

definition use_var ::
    "'m option \<Rightarrow> int \<Rightarrow> int \<Rightarrow> ('c \<Rightarrow> ('w, 'r) goS) \<Rightarrow> (('w, 'c, 'm) conn_pool, 'r) goS" where
  "use_var metric sec sec' f c =
    (case metric of
      None \<Rightarrow> on_pool (nil_use (cp_env c) idle_timeout sec) c
    | Some _ \<Rightarrow> cp_use sec sec' f c)"

definition run_execute_var ::
    "'m option \<Rightarrow> ('w, 'c) conn_ops \<Rightarrow> int \<Rightarrow> int \<Rightarrow> conn_args \<Rightarrow> (('w, 'c, 'm) conn_pool, unit) goS" where
  "run_execute_var metric ops sec sec' arg =
    bindS (use_var metric sec sec' (\<lambda>data.
        bindS (wrapS ''RunExecute Failed : %s'' (co_execute ops data arg))
          (\<lambda>_. retS \<lparr>rw_rows = [], rw_colName = []\<rparr>)))
      (\<lambda>_. retS ())"

definition run_query_var ::
    "'m option \<Rightarrow> ('w, 'c) conn_ops \<Rightarrow> int \<Rightarrow> int \<Rightarrow> conn_args \<Rightarrow> (('w, 'c, 'm) conn_pool, rows \<times> string list) goS" where
  "run_query_var metric ops sec sec' arg =
    bindS (use_var metric sec sec' (\<lambda>data.
        bindS (wrapS ''RunExecute Failed : %s'' (co_execute ops data arg))
          (\<lambda>_. retS \<lparr>rw_rows = [], rw_colName = []\<rparr>)))
      (\<lambda>ret. retS (rw_rows ret, rw_colName ret))"

text \<open>\<^verbatim>\<open>manage.ManageP.RunQuery\<close>, with the variable's value as the state.\<close>

definition manage_query ::
    "'m option \<Rightarrow> ('w, 'c) conn_ops \<Rightarrow> int \<Rightarrow> int \<Rightarrow> conn_args \<Rightarrow> (('w, 'c, 'm) conn_pool option, rows \<times> string list) goS" where
  "manage_query metric ops sec sec' arg v =
    (case v of
      None \<Rightarrow> (Panic PNilDeref, None)
    | Some c \<Rightarrow> (case run_query_var metric ops sec sec' arg c of (r, c) \<Rightarrow> (r, Some c)))"

lemma use_var_given: "use_var (Some m) = cp_use"
  by (simp add: fun_eq_iff use_var_def)

lemma metric_given: "run_execute_var (Some m) = cp_run_execute" "run_query_var (Some m) = cp_run_query"
  by (simp_all add: fun_eq_iff run_execute_var_def run_query_var_def use_var_given cp_run_execute_def cp_run_query_def)

text \<open>The first use of a pool the program has made.\<close>

lemma fresh_use:
  assumes "new_conn_pool newGen base ident info m w = Ok c"
  shows "\<exists>p. on_pool (nil_use (cp_env c) idle_timeout sec) c = ((Panic PNilDeref :: 'r go), c\<lparr>cp_pool := p\<rparr>) \<and> pl_world p = w"
proof -
  have c: "cp_pool c = new_pool m w" using assms by (auto simp: new_conn_pool_def bind_go_Ok_iff)
  obtain q where q: "nil_close (cp_env c) (new_pool m w) = (Panic PNilDeref, q)" "pl_world q = w"
    by (auto simp: nil_close_def new_pool_def close_chan_def)
  have "fst (nil_use (cp_env c) idle_timeout sec (new_pool m w) :: 'r go \<times> _) = Panic PNilDeref \<and>
      pl_world (snd (nil_use (cp_env c) idle_timeout sec (new_pool m w) :: 'r go \<times> _)) = w"
    using q by (simp add: nil_use_def nil_init_def bindS_def) (simp add: new_pool_def)
  then show ?thesis
    by (auto simp: on_pool_def c split: prod.split)
qed

lemma master_panics:
  assumes "query \<lparr>a_Query = pc_DbSyncList conf, a_Args = None, a_IsTransaction = False\<rparr> q = (Panic x, q')"
  shows "master_entry ctl query conf ((False, outside) # turns) (s\<lparr>ms_query := q\<rparr>) =
    (Panic x, s\<lparr>ms_query := q', ms_pm := (ms_pm s)\<lparr>pm_os := outside (pm_os (ms_pm s))\<rparr>\<rparr>)"
  using assms by (simp add: master_turn_def master_round_def db_list_ident_def wrapS_def Let_def)

text \<open>C40: With the variables as the program leaves them, the first call on any connection pool panics,
  whatever its driver, its generator and its context, and no connection has been made for it; so the
  master's first turn panics before any process is started or killed, with the pool of the management
  database that the start makes as with none.\<close>

theorem master_panics_on_nil_metric:
  assumes "manage = manage_var \<or> manage = Some c \<and> new_conn_pool newGen base ident info m w = Ok c"
  shows "\<exists>manage'. master_entry ctl (manage_query metric_var ops sec sec') conf ((False, outside) # turns) (s\<lparr>ms_query := manage\<rparr>) =
      (Panic PNilDeref, s\<lparr>ms_query := manage', ms_pm := (ms_pm s)\<lparr>pm_os := outside (pm_os (ms_pm s))\<rparr>\<rparr>) \<and>
    (manage = Some c \<longrightarrow> (\<exists>p. manage' = Some (c\<lparr>cp_pool := p\<rparr>) \<and> pl_world p = w \<and>
      run_execute_var metric_var ops sec sec' arg c = (Panic PNilDeref, c\<lparr>cp_pool := p\<rparr>)))"
proof (cases manage)
  case None
  then show ?thesis
    by (intro exI[of _ None]) (simp add: manage_query_def master_panics[where q' = None] del: master_entry.simps)
next
  case (Some d)
  with assms have c: "manage = Some c" "new_conn_pool newGen base ident info m w = Ok c" by (auto simp: manage_var_def)
  obtain p where p: "on_pool (nil_use (cp_env c) idle_timeout sec) c = ((Panic PNilDeref :: ret_wrapper go), c\<lparr>cp_pool := p\<rparr>)"
      "pl_world p = w"
    using fresh_use[OF c(2)] by blast
  then have "manage_query metric_var ops sec sec' arg' (Some c) = (Panic PNilDeref, Some (c\<lparr>cp_pool := p\<rparr>))"
    "run_execute_var metric_var ops sec sec' arg c = (Panic PNilDeref, c\<lparr>cp_pool := p\<rparr>)" for arg'
    by (simp_all add: manage_query_def run_execute_var_def run_query_var_def use_var_def metric_var_def)
  with p(2) c(1) show ?thesis
    by (intro exI[of _ "Some (c\<lparr>cp_pool := p\<rparr>)"] conjI impI exI[of _ p]) (simp_all add: master_panics del: master_entry.simps)
qed

lemma master_panics_on_nil_metric_witness:
  "\<exists>c manage'. new_conn_pool (\<lambda>_ _. Ok (pe_gen (probe_env 1))) (probe_env 1) ''internalManage'' zero_conn_config None 5 = Ok c \<and>
    master_entry table_ctl (manage_query metric_var (\<lparr>co_execute = \<lambda>_ _. retS (), co_query = \<lambda>_ _. retS ([], [])\<rparr>) 0 0)
      default_process_config [(False, os_exit 7), (False, id)] \<lparr>ms_query = Some c, ms_pm = table_pm [7, 8], ms_slept = 0\<rparr> =
      (Panic PNilDeref, \<lparr>ms_query = manage', ms_pm = (table_pm [7, 8])\<lparr>pm_os := os_exit 7 (pm_os (table_pm [7, 8]))\<rparr>, ms_slept = 0\<rparr>)"
proof -
  obtain c where c: "new_conn_pool (\<lambda>_ _. Ok (pe_gen (probe_env 1))) (probe_env 1) ''internalManage'' zero_conn_config None 5 = Ok c"
    by (simp add: new_conn_pool_def)
  then have "Some c = manage_var \<or> Some c = Some c \<and>
      new_conn_pool (\<lambda>_ _. Ok (pe_gen (probe_env 1))) (probe_env 1) ''internalManage'' zero_conn_config None 5 = Ok c" by simp
  from master_panics_on_nil_metric[OF this, of table_ctl "\<lparr>co_execute = \<lambda>_ _. retS (), co_query = \<lambda>_ _. retS ([], [])\<rparr>" 0 0
      default_process_config "os_exit 7" "[(False, id)]" "\<lparr>ms_query = Some c, ms_pm = table_pm [7, 8], ms_slept = 0\<rparr>"] c
  show ?thesis by auto
qed

end
