(* ===== verification/PoolResources.thy ===== *)
theory PoolResources
  imports ConnPool "HOL-Library.Multiset"
begin

text \<open>
  What a connection pool needs to know of its connections so that it loses none: a contract on
  making, using and closing them, in terms of the multiset of connections that are open in the world;
  and where it comes from, for connections that take something of what they share and give it back.
\<close>

section \<open>The contract\<close>

locale pooled_resource =
  fixes e :: "('w, 'c, 'm) pool_env"
    and use :: "'c \<Rightarrow> conn_args \<Rightarrow> ('w, unit) goS"
    and opened :: "'c multiset \<Rightarrow> 'w \<Rightarrow> bool"
  assumes gen_opens: "opened A w \<Longrightarrow> pe_gen e w = (r, w') \<Longrightarrow>
      (case r of Ok c \<Rightarrow> opened (add_mset c A) w' | Err er \<Rightarrow> opened A w' | Panic x \<Rightarrow> False)"
    and use_keeps: "opened A w \<Longrightarrow> c \<in># A \<Longrightarrow> use c arg w = (u, w') \<Longrightarrow> opened A w' \<and> \<not> is_panic u"
    and close_closes: "opened (add_mset c A) w \<Longrightarrow> opened A (pe_close e c w)"

text \<open>The idle connections of a pool.\<close>

definition idle_items :: "('w, 'c, 'm) timeout_pool \<Rightarrow> 'c multiset" where
  "idle_items p = (case pl_chan p of None \<Rightarrow> {#} | Some c \<Rightarrow> mset (map ti_data (ch_queue c)))"

lemma idle_items_frame [simp]:
  "idle_items (upd_metric g p) = idle_items p" "idle_items (set_gauges e p) = idle_items p"
  "idle_items (close_item e c p) = idle_items p" "idle_items (p\<lparr>pl_use := u\<rparr>) = idle_items p"
  "idle_items (p\<lparr>pl_accErr := n\<rparr>) = idle_items p" "idle_items (p\<lparr>pl_world := w\<rparr>) = idle_items p"
  by (simp_all add: idle_items_def upd_metric_def set_gauges_def close_item_def)

lemma idle_items_new [simp]: "idle_items (new_pool m w) = {#}"
  by (simp add: idle_items_def new_pool_def)

lemma running_frame [simp]:
  "running e (upd_metric g p) = running e p" "running e (set_gauges e' p) = running e p"
  "running e (close_item e' c p) = running e p" "running e (p\<lparr>pl_use := u\<rparr>) = running e p"
  "running e (p\<lparr>pl_accErr := n\<rparr>) = running e p" "running e (p\<lparr>pl_world := w\<rparr>) = running e p"
  by (simp_all add: running_def)

lemma running_ok: "running e p \<Longrightarrow> pool_ok e p"
  by (simp add: running_def)

context pooled_resource
begin

section \<open>One call of a pool that loses nothing\<close>

definition stocked :: "('w, 'c, 'm) timeout_pool \<Rightarrow> bool" where
  "stocked p \<longleftrightarrow> pool_ok e p \<and> opened (idle_items p) (pl_world p)"

lemma gen_item_stocked:
  assumes "running e p" "opened (idle_items p) (pl_world p)" "gen_item e p = (r, q)"
  shows "running e q \<and> (case r of Ok c \<Rightarrow> opened (add_mset c (idle_items q)) (pl_world q)
    | Err er \<Rightarrow> opened (idle_items q) (pl_world q) | Panic x \<Rightarrow> False)"
proof -
  obtain g w where g: "pe_gen e (pl_world p) = (g, w)" by fastforce
  have "\<not> pl_isClose p" using assms(1) by (simp add: running_def)
  with assms(1,3) gen_opens[OF assms(2) g] g show ?thesis
    by (cases g) (auto simp: gen_item_def pool_gen_def wrapS_def on_pool_world_def Let_def)
qed

lemma scan_stocked:
  assumes "running e p" "opened (idle_items p) (pl_world p)"
    and "timeout_scan e t sec q p = (r, p')" "ch_queue (the (pl_chan p)) = q"
  shows "running e p' \<and> (case r of Ok c \<Rightarrow> opened (add_mset c (idle_items p')) (pl_world p')
    | Err er \<Rightarrow> opened (idle_items p') (pl_world p') | Panic x \<Rightarrow> False)"
  using assms
proof (induction q arbitrary: p)
  case Nil
  obtain c where c: "pl_chan p = Some c" "\<not> ch_closed c" "ch_queue c = []"
    using Nil by (auto simp: running_def pool_ok_def)
  then have "gen_item e p = (r, p')" using Nil by (simp add: try_receive_def)
  from gen_item_stocked[OF Nil(1,2) this] show ?case .
next
  case (Cons x xs)
  obtain c where c: "pl_chan p = Some c" "ch_queue c = x # xs"
    using Cons.prems by (auto simp: running_def)
  let ?p = "p\<lparr>pl_chan := Some (c\<lparr>ch_queue := xs\<rparr>)\<rparr>"
  have run: "running e ?p" using Cons.prems(1) c by (auto simp: running_def pool_ok_def)
  have items: "idle_items p = add_mset (ti_data x) (idle_items ?p)" by (simp add: idle_items_def c)
  show ?case
  proof (cases "expired t sec x")
    case True
    let ?q = "upd_metric (pe_assignment e (pe_name e) idle_key (chan_len (pl_chan ?p))) (close_item e (ti_data x) ?p)"
    have "timeout_scan e t sec xs ?q = (r, p')" using Cons.prems(3) c True by (simp add: try_receive_def)
    moreover have "opened (idle_items ?q) (pl_world ?q)"
      using close_closes Cons.prems(2) items by simp
    ultimately show ?thesis using run Cons.IH[of ?q] by simp
  next
    case False
    with Cons.prems c have "r = Ok (ti_data x)" "p' = ?p" by (simp_all add: try_receive_def)
    with run items Cons.prems(2) show ?thesis by simp
  qed
qed

lemma finish_stocked:
  assumes "running e p" "opened (add_mset c (idle_items p)) (pl_world p)" "\<not> is_panic r"
    and "finish e mk c r p = (r', p')" "ti_data (mk c) = c"
  shows "stocked p' \<and> \<not> is_panic r'"
proof -
  obtain ch where ch: "pl_chan p = Some ch" "\<not> ch_closed ch" "\<not> pl_isClose p"
      "pl_realMax p = real_max e" "int (length (ch_queue ch)) \<le> real_max e"
    using assms(1) by (auto simp: running_def pool_ok_def)
  have closed: "opened (idle_items p) (pe_close e c (pl_world p))" by (rule close_closes[OF assms(2)])
  show ?thesis
  proof (cases r)
    case (Ok v)
    show ?thesis
    proof (cases "int (length (ch_queue ch)) < real_max e")
      case True
      let ?ch = "Some (ch\<lparr>ch_queue := ch_queue ch @ [mk c]\<rparr>)"
      from assms(4) ch Ok True have r: "r' = Ok v" and
        p': "p' = set_gauges e ((set_gauges e (p\<lparr>pl_use := pl_use p - 1\<rparr>))\<lparr>pl_chan := ?ch\<rparr>)"
        by (auto simp: finish_def Let_def send_def)
      have "idle_items p' = add_mset c (idle_items p)" by (simp add: p' idle_items_def ch assms(5))
      moreover have "pl_world p' = pl_world p" by (simp add: p' set_gauges_def upd_metric_def)
      moreover have "pool_ok e p'" using assms(1) True ch
        by (simp add: p' running_def pool_ok_def set_gauges_def upd_metric_def)
      ultimately show ?thesis using assms(2) r by (simp add: stocked_def)
    next
      case False
      with assms(1,4) ch Ok closed show ?thesis
        by (auto simp: finish_def Let_def stocked_def running_ok)
    qed
  next
    case (Err er)
    with assms(1,4) closed show ?thesis by (auto simp: finish_def Let_def stocked_def running_ok)
  qed (use assms(3) in simp)
qed

lemma drain_stocked: "opened (mset (map ti_data q)) w \<Longrightarrow> opened {#} (drain e ti_data q w)"
  by (induction q arbitrary: w) (auto dest: close_closes)

lemma close_stocked:
  assumes "stocked p" "pool_close e ti_data p = (r, p')"
  shows "stocked p' \<and> \<not> is_panic r \<and> pl_isClose p' \<and> idle_items p' = {#} \<and> opened {#} (pl_world p')"
proof -
  from assms have ok: "pool_ok e p'" "pl_isClose p'" "\<not> is_panic r"
    using pool_close_ok[of e p ti_data r p'] by (auto simp: stocked_def)
  then have items: "idle_items p' = {#}" by (auto simp: pool_ok_def idle_items_def split: option.split)
  have "opened {#} (pl_world p')"
  proof (cases "pl_isClose p")
    case True
    then have "p' = p" using assms(2) by (simp add: pool_close_def)
    with assms(1) items show ?thesis by (simp add: stocked_def)
  next
    case False
    then have "pl_world p' = drain e ti_data (case pl_chan p of None \<Rightarrow> [] | Some c \<Rightarrow> ch_queue c) (pl_world p)"
      using pool_close_ok[of e p ti_data r p'] assms by (simp add: stocked_def)
    with drain_stocked assms(1) show ?thesis by (auto simp: stocked_def idle_items_def split: option.splits)
  qed
  with ok items show ?thesis by (simp add: stocked_def)
qed

text \<open>Whatever is called on a pool, it keeps every connection that is open and closes all at its close.\<close>

lemma use_stocked:
  assumes "stocked p" "timeout_use e t sec sec' f p = (r, p')"
    and f: "\<And>A w c u w'. opened A w \<Longrightarrow> c \<in># A \<Longrightarrow> f c w = (u, w') \<Longrightarrow> opened A w' \<and> \<not> is_panic u"
  shows "stocked p' \<and> \<not> is_panic r"
proof (cases "pl_isClose p \<or> pe_done e (pl_world p)")
  case True
  obtain x q where cl: "pool_close e ti_data p = (x, q)" by fastforce
  from True assms(1,2) cl close_stocked[OF assms(1) cl] show ?thesis
    by (cases x) (auto simp: timeout_use_def use_with_def split: if_splits)
next
  case False
  let ?p = "init_pool e p"
  have run: "running e ?p" by (rule running_init) (use assms(1) False in \<open>simp_all add: stocked_def\<close>)
  have items: "idle_items ?p = idle_items p" using assms(1)
    by (auto simp: init_pool_def Let_def idle_items_def stocked_def pool_ok_def upd_metric_def split: option.split)
  obtain g p1 where g: "timeout_scan e t sec (ch_queue (the (pl_chan ?p))) ?p = (g, p1)" by fastforce
  have get: "timeout_get e t sec ?p = (g, p1)" using run g by (auto simp: timeout_get_def running_def)
  have "opened (idle_items ?p) (pl_world ?p)" using assms(1) items by (simp add: stocked_def)
  from scan_stocked[OF run this g refl] have p1: "running e p1"
    "case g of Ok c \<Rightarrow> opened (add_mset c (idle_items p1)) (pl_world p1) | Err er \<Rightarrow> opened (idle_items p1) (pl_world p1) | Panic x \<Rightarrow> False"
    by simp_all
  show ?thesis
  proof (cases g)
    case (Ok c)
    let ?p2 = "set_gauges e (p1\<lparr>pl_use := pl_use p1 + 1\<rparr>)"
    have wld: "pl_world ?p2 = pl_world p1" by simp
    obtain u w where u: "f c (pl_world p1) = (u, w)" by fastforce
    have w: "opened (add_mset c (idle_items p1)) w" "\<not> is_panic u"
      using f[of "add_mset c (idle_items p1)", OF _ _ u] p1(2) Ok by auto
    have "finish e (\<lambda>c. \<lparr>ti_data = c, ti_last = nanos sec'\<rparr>) c u (?p2\<lparr>pl_world := w\<rparr>) = (r, p')"
      using assms(2) False get Ok u wld by (simp add: timeout_use_def use_with_def Let_def on_pool_world_def)
    from finish_stocked[OF _ _ w(2) this] p1(1) w(1) show ?thesis by simp
  qed (use assms(2) False get p1 in \<open>auto simp: timeout_use_def use_with_def stocked_def running_ok\<close>)
qed

text \<open>The calls of \<^verbatim>\<open>connpool/factory.go\<close> on a pool with this environment.\<close>

lemma calls_stocked:
  assumes "cp_env c = e" "stocked (cp_pool c)" "\<And>d. co_execute ops d = use d" "cp_call ops op c = (r, c')"
  shows "cp_env c' = e \<and> stocked (cp_pool c') \<and> \<not> is_panic r \<and>
    (op = PoolClose \<longrightarrow> opened {#} (pl_world (cp_pool c')))"
proof -
  have body: "opened A w' \<and> \<not> is_panic u"
    if "opened A w" "d \<in># A"
      "bindS (wrapS msg (co_execute ops d arg)) (\<lambda>_. retS \<lparr>rw_rows = [], rw_colName = []\<rparr>) w = (u, w')"
    for A w d arg u w' msg
  proof -
    obtain x t where x: "use d arg w = (x, t)" by fastforce
    with use_keeps[OF that(1,2) x] that(3) show ?thesis
      by (cases x) (auto simp: assms(3) bindS_def wrapS_def)
  qed
  have use: "cp_env d = e \<and> stocked (cp_pool d) \<and> \<not> is_panic u"
    if "cp_use sec sec' (\<lambda>data. bindS (wrapS msg (co_execute ops data arg))
        (\<lambda>_. retS \<lparr>rw_rows = [], rw_colName = []\<rparr>)) c = (u, d)" for sec sec' msg arg u d
    using that use_stocked[OF assms(2) _ body] assms(1)
    by (auto simp: cp_use_def on_pool_def split: prod.splits)
  show ?thesis
  proof (cases op)
    case (PoolExecute sec sec' arg)
    obtain u d where u: "cp_use sec sec' (\<lambda>data. bindS (wrapS ''RunExecute Failed : %s'' (co_execute ops data arg))
        (\<lambda>_. retS \<lparr>rw_rows = [], rw_colName = []\<rparr>)) c = (u, d)" by fastforce
    from use[OF u] u assms(4) PoolExecute show ?thesis
      by (cases u) (auto simp: cp_run_execute_def)
  next
    case (PoolQuery sec sec' arg)
    obtain u d where u: "cp_use sec sec' (\<lambda>data. bindS (wrapS ''RunExecute Failed : %s'' (co_execute ops data arg))
        (\<lambda>_. retS \<lparr>rw_rows = [], rw_colName = []\<rparr>)) c = (u, d)" by fastforce
    from use[OF u] u assms(4) PoolQuery show ?thesis
      by (cases u) (auto simp: cp_run_query_def forget_def)
  next
    case PoolClose
    obtain u p where u: "pool_close e ti_data (cp_pool c) = (u, p)" by fastforce
    from close_stocked[OF assms(2) u] u assms(1,4) PoolClose show ?thesis
      by (auto simp: cp_close_def on_pool_def)
  qed
qed

lemma all_calls_stocked:
  "cp_env c = e \<Longrightarrow> stocked (cp_pool c) \<Longrightarrow> (\<And>d. co_execute ops d = use d) \<Longrightarrow>
    cp_env (fold (\<lambda>op c. snd (cp_call ops op c)) calls c) = e \<and>
    stocked (cp_pool (fold (\<lambda>op c. snd (cp_call ops op c)) calls c))"
proof (induction calls arbitrary: c)
  case (Cons op calls)
  from calls_stocked[OF Cons.prems(1,2) Cons.prems(3) prod.collapse[symmetric]] Cons.IH Cons.prems(3) show ?case by simp
qed simp

end

section \<open>Connections over shared state\<close>

text \<open>A pool's connections are structures of their own on what they share (handles, processes, a
  database).  A connection is reached through its place in \<open>hp_conns\<close>, as the code has pointers.\<close>

record ('s, 'l) conn_heap =
  hp_shared :: 's
  hp_conns :: "'l list"

definition heap_at :: "nat \<Rightarrow> ('s \<times> 'l, 'a) goS \<Rightarrow> (('s, 'l) conn_heap, 'a) goS" where
  "heap_at i m w = (case m (hp_shared w, hp_conns w ! i) of (r, (s, l)) \<Rightarrow>
    (r, \<lparr>hp_shared = s, hp_conns = (hp_conns w)[i := l]\<rparr>))"

definition heap_gen :: "('s, 'l) goS \<Rightarrow> (('s, 'l) conn_heap, nat) goS" where
  "heap_gen g w =
    (case g (hp_shared w) of
      (Ok l, s) \<Rightarrow> (Ok (length (hp_conns w)), \<lparr>hp_shared = s, hp_conns = hp_conns w @ [l]\<rparr>)
    | (Err e, s) \<Rightarrow> (Err e, w\<lparr>hp_shared := s\<rparr>)
    | (Panic p, s) \<Rightarrow> (Panic p, w\<lparr>hp_shared := s\<rparr>))"

definition heap_close :: "('s \<times> 'l, unit) goS \<Rightarrow> nat \<Rightarrow> ('s, 'l) conn_heap \<Rightarrow> ('s, 'l) conn_heap" where
  "heap_close close i w = snd (heap_at i close w)"

definition heap_env ::
    "('s, 'l) goS \<Rightarrow> ('s \<times> 'l, unit) goS \<Rightarrow> string \<Rightarrow> conn_config \<Rightarrow> (('s, 'l) conn_heap, nat, 'm) pool_env \<Rightarrow>
     (('s, 'l) conn_heap, nat, 'm) pool_env" where
  "heap_env gen close ident info base =
    base\<lparr>pe_name := ident, pe_gen := heap_gen gen, pe_max := cc_MaxConn info, pe_close := heap_close close\<rparr>"

lemma heap_gen_steps [simp]:
  "heap_gen (wrapS msg g) = wrapS msg (heap_gen g)"
  "heap_gen (bindS (liftS r) f) = bindS (liftS r) (\<lambda>x. heap_gen (f x))"
  by (rule ext; cases r; simp add: heap_gen_def wrapS_def failS_def panicS_def split: prod.split;
      auto simp: heap_gen_def wrapS_def split: prod.split go.split)+

text \<open>The contract of one connection with what it shares: \<open>own N s\<close> says that exactly \<open>N\<close> is taken of
  it, \<open>held l\<close> is what the connection \<open>l\<close> has taken.\<close>

locale shared_conn =
  fixes gen :: "('s, 'l) goS"
    and use :: "conn_args \<Rightarrow> ('s \<times> 'l, unit) goS"
    and close :: "('s \<times> 'l, unit) goS"
    and own :: "'r multiset \<Rightarrow> 's \<Rightarrow> bool"
    and held :: "'l \<Rightarrow> 'r multiset"
    and live :: "'l \<Rightarrow> bool"
  assumes gen_takes: "own N s \<Longrightarrow> gen s = (r, s') \<Longrightarrow>
      (case r of Ok l \<Rightarrow> live l \<and> own (held l + N) s' | Err er \<Rightarrow> own N s' | Panic x \<Rightarrow> False)"
    and use_holds: "own (held l + N) s \<Longrightarrow> live l \<Longrightarrow> use arg (s, l) = (u, (s', l')) \<Longrightarrow>
      live l' \<and> own (held l' + N) s' \<and> \<not> is_panic u"
    and close_gives_back: "own (held l + N) s \<Longrightarrow> live l \<Longrightarrow> close (s, l) = (u, (s', l')) \<Longrightarrow>
      \<not> live l' \<and> held l' = {#} \<and> own N s'"

definition live_slots :: "('l \<Rightarrow> bool) \<Rightarrow> 'l list \<Rightarrow> nat set" where
  "live_slots live ls = {i. i < length ls \<and> live (ls ! i)}"

lemma finite_live_slots [simp]: "finite (live_slots live ls)"
  by (simp add: live_slots_def)

lemma live_slots_append: "live_slots live (ls @ [l]) = (if live l then insert (length ls) (live_slots live ls) else live_slots live ls)"
  by (auto simp: live_slots_def nth_append less_Suc_eq)

lemma live_slots_update:
  "i < length ls \<Longrightarrow> live_slots live (ls[i := l]) = (if live l then insert i (live_slots live ls) else live_slots live ls - {i})"
  by (auto simp: live_slots_def nth_list_update split: if_splits)

lemma sum_list_at:
  fixes f :: "'a \<Rightarrow> 'b :: comm_monoid_add"
  assumes "i < length xs"
  obtains N where "\<And>x. sum_list (map f (xs[i := x])) = f x + N" "sum_list (map f xs) = f (xs ! i) + N"
proof
  let ?N = "sum_list (map f (take i xs)) + sum_list (map f (drop (Suc i) xs))"
  show "sum_list (map f (xs[i := x])) = f x + ?N" for x
    using assms by (simp add: upd_conv_take_nth_drop ac_simps)
  have "map f xs = map f (take i xs @ xs ! i # drop (Suc i) xs)"
    using id_take_nth_drop[OF assms] by simp
  then show "sum_list (map f xs) = f (xs ! i) + ?N" by (simp add: ac_simps)
qed

context shared_conn
begin

definition heap_stock :: "'r multiset \<Rightarrow> nat multiset \<Rightarrow> ('s, 'l) conn_heap \<Rightarrow> bool" where
  "heap_stock M A w \<longleftrightarrow> A = mset_set (live_slots live (hp_conns w)) \<and>
    (\<forall>l \<in> set (hp_conns w). live l \<or> held l = {#}) \<and> own (sum_list (map held (hp_conns w)) + M) (hp_shared w)"

lemma heap_stock_item: "heap_stock M A w \<Longrightarrow> i \<in># A \<Longrightarrow> i < length (hp_conns w) \<and> live (hp_conns w ! i)"
  by (simp add: heap_stock_def live_slots_def)

text \<open>What happens to one connection, with the rest \<open>N\<close> of what is taken.\<close>

lemma heap_at_stock:
  assumes "heap_stock M A w" "i < length (hp_conns w)" "heap_at i m w = (r, w')"
    and step: "\<And>N s' l'. own (held (hp_conns w ! i) + N) (hp_shared w) \<Longrightarrow> m (hp_shared w, hp_conns w ! i) = (r, (s', l')) \<Longrightarrow>
      (live l' \<longleftrightarrow> lv) \<and> (live l' \<or> held l' = {#}) \<and> own (held l' + N) s'"
  shows "heap_stock M (mset_set (if lv then insert i (live_slots live (hp_conns w)) else live_slots live (hp_conns w) - {i})) w'"
proof -
  obtain s' l' where m: "m (hp_shared w, hp_conns w ! i) = (r, (s', l'))"
      "w' = \<lparr>hp_shared = s', hp_conns = (hp_conns w)[i := l']\<rparr>"
    using assms(3) by (auto simp: heap_at_def split: prod.splits)
  obtain N where N: "\<And>l. sum_list (map held ((hp_conns w)[i := l])) = held l + N"
      "sum_list (map held (hp_conns w)) = held (hp_conns w ! i) + N"
    using sum_list_at[OF assms(2)] by blast
  have "own (held (hp_conns w ! i) + (N + M)) (hp_shared w)"
    using assms(1) N(2) by (simp add: heap_stock_def add.assoc)
  from step[OF this m(1)] have post: "live l' = lv" "live l' \<or> held l' = {#}" "own (held l' + (N + M)) s'" by blast+
  have "\<forall>l \<in> set ((hp_conns w)[i := l']). live l \<or> held l = {#}"
    using assms(1) post(2) set_update_subset_insert[of "hp_conns w" i l'] by (auto simp: heap_stock_def)
  with m(2) post N(1) assms(2) show ?thesis
    by (simp add: heap_stock_def live_slots_update add.assoc)
qed

sublocale pooled: pooled_resource "heap_env gen close ident info base" "\<lambda>i arg. heap_at i (use arg)" "heap_stock M"
  for ident info base M
proof unfold_locales
  fix A w r w'
  assume w: "heap_stock M A w" and "pe_gen (heap_env gen close ident info base) w = (r, w')"
  then have run: "heap_gen gen w = (r, w')" by (simp add: heap_env_def)
  obtain x s where x: "gen (hp_shared w) = (x, s)" by fastforce
  have "own (sum_list (map held (hp_conns w)) + M) (hp_shared w)" using w by (simp add: heap_stock_def)
  note post = gen_takes[OF this x]
  have "length (hp_conns w) \<notin> live_slots live (hp_conns w)" by (simp add: live_slots_def)
  with w run x post show "case r of Ok c \<Rightarrow> heap_stock M (add_mset c A) w' | Err er \<Rightarrow> heap_stock M A w' | Panic x \<Rightarrow> False"
    by (cases x) (auto simp: heap_gen_def heap_stock_def live_slots_append ac_simps)
next
  fix A w i arg u w'
  assume w: "heap_stock M A w" "i \<in># A" and run: "heap_at i (use arg) w = (u, w')"
  note i = heap_stock_item[OF w]
  have own: "own (sum_list (map held (hp_conns w)) + M) (hp_shared w)" using w by (simp add: heap_stock_def)
  obtain N where "sum_list (map held (hp_conns w)) = held (hp_conns w ! i) + N" using sum_list_at i by metis
  with own have "own (held (hp_conns w ! i) + (N + M)) (hp_shared w)" by (simp add: add.assoc)
  then have "\<not> is_panic u"
    using use_holds[of "hp_conns w ! i" "N + M" "hp_shared w" arg] i run by (auto simp: heap_at_def split: prod.splits)
  moreover have "heap_stock M (mset_set (insert i (live_slots live (hp_conns w)))) w'"
    using heap_at_stock[OF w(1) _ run, of True] i use_holds by simp
  moreover have "insert i (live_slots live (hp_conns w)) = live_slots live (hp_conns w)"
    using i by (auto simp: live_slots_def)
  ultimately show "heap_stock M A w' \<and> \<not> is_panic u" using w(1) by (simp add: heap_stock_def)
next
  fix A w i
  assume w: "heap_stock M (add_mset i A) w"
  have i: "i < length (hp_conns w)" "live (hp_conns w ! i)" using heap_stock_item[OF w, of i] by simp_all
  obtain r w' where run: "heap_at i close w = (r, w')" by fastforce
  have "(live l' \<longleftrightarrow> False) \<and> (live l' \<or> held l' = {#}) \<and> own (held l' + N) s'"
    if "own (held (hp_conns w ! i) + N) (hp_shared w)" "close (hp_shared w, hp_conns w ! i) = (r, (s', l'))" for N s' l'
    using close_gives_back[OF that(1) i(2) that(2)] by simp
  from heap_at_stock[OF w i(1) run this]
  have "heap_stock M (mset_set (live_slots live (hp_conns w) - {i})) w'" by simp
  moreover have "A = mset_set (live_slots live (hp_conns w) - {i})"
    using w i by (simp add: heap_stock_def mset_set.remove live_slots_def)
  ultimately show "heap_stock M A (pe_close (heap_env gen close ident info base) i w)"
    using run by (simp add: heap_env_def heap_close_def)
qed

lemma heap_stock_size:
  assumes "\<And>l. live l \<Longrightarrow> size (held l) = k" "heap_stock M A w"
  shows "\<exists>H. size H = k * size A \<and> own (H + M) (hp_shared w)"
proof -
  have "(\<forall>l \<in> set ls. live l \<or> held l = {#}) \<Longrightarrow> size (sum_list (map held ls)) = k * card (live_slots live ls)" for ls
  proof (induction ls rule: rev_induct)
    case (snoc l ls)
    moreover have "length ls \<notin> live_slots live ls" by (simp add: live_slots_def)
    ultimately show ?case using assms(1) by (auto simp: live_slots_append)
  qed (simp add: live_slots_def)
  with assms(2) show ?thesis by (auto simp: heap_stock_def)
qed

text \<open>A pool of such connections has taken what its idle connections hold, and nothing at its end.\<close>

lemma pool_takes:
  assumes c0: "cp_env c0 = heap_env gen close ident info base" "cp_pool c0 = new_pool m \<lparr>hp_shared = s, hp_conns = []\<rparr>" "own M s"
    and ops: "\<And>i. co_execute ops i = (\<lambda>arg. heap_at i (use arg))" and k: "\<And>l. live l \<Longrightarrow> size (held l) = k"
    and c: "c = fold (\<lambda>op c. snd (cp_call ops op c)) calls c0"
  shows "(\<exists>H. size H = k * size (idle_items (cp_pool c)) \<and> own (H + M) (hp_shared (pl_world (cp_pool c)))) \<and>
    \<not> is_panic (fst (cp_call ops op c)) \<and>
    own M (hp_shared (pl_world (cp_pool (snd (cp_call ops PoolClose c)))))"
proof -
  let ?e = "heap_env gen close ident info base"
  have "heap_stock M {#} \<lparr>hp_shared = s, hp_conns = []\<rparr>" using c0(3) by (simp add: heap_stock_def live_slots_def)
  with c0(2) have "pooled.stocked ident info base M (cp_pool c0)"
    by (simp add: pooled.stocked_def) (simp add: new_pool_def)
  with pooled.all_calls_stocked[OF c0(1) _ ops]
  have c: "cp_env c = ?e" "pooled.stocked ident info base M (cp_pool c)" by (simp_all add: c)
  note call = pooled.calls_stocked[OF c ops prod.collapse[symmetric]]
  from c(2) have "\<exists>H. size H = k * size (idle_items (cp_pool c)) \<and> own (H + M) (hp_shared (pl_world (cp_pool c)))"
    using heap_stock_size[OF k] by (simp add: pooled.stocked_def)
  moreover from call have "\<not> is_panic (fst (cp_call ops op c))" by blast
  moreover from call[of PoolClose] have "own M (hp_shared (pl_world (cp_pool (snd (cp_call ops PoolClose c)))))"
    using heap_stock_size[OF k, of M "{#}"] by auto
  ultimately show ?thesis by blast
qed

end

end
