(* ===== verification/PooledOdbc.thy ===== *)
theory PooledOdbc
  imports OdbcConn Generators PoolResources
begin

text \<open>
  A pool of ODBC connections, from the generator of \<^verbatim>\<open>connpool/internal/gen/odbc.go\<close>
  through \<^verbatim>\<open>connpool/factory.go\<close> to the binding: what it holds of the library's handles.
\<close>

section \<open>The connections of a pool\<close>

text \<open>A connection (\<open>odbcConn\<close>) without what it shares with the others, the binding's state.\<close>

type_synonym odbc_slot = "odbc_obj option \<times> bool"

definition odbc_at :: "('w odbc_conn, 'a) goS \<Rightarrow> ('w ffi \<times> odbc_slot, 'a) goS" where
  "odbc_at m st = (case st of (s, (raw, closed)) \<Rightarrow>
    (case m \<lparr>oc_ffi = s, oc_raw = raw, oc_closed = closed\<rparr> of (r, c) \<Rightarrow> (r, (oc_ffi c, (oc_raw c, oc_closed c)))))"

text \<open>\<^verbatim>\<open>ffi.OpenODBC\<close> and \<^verbatim>\<open>connection.NewOdbcConn\<close>, and the driver's two methods
  that the pool calls.\<close>

definition odbc_open_conn :: "'w odbc_api \<Rightarrow> string \<Rightarrow> ('w ffi, odbc_slot) goS" where
  "odbc_open_conn api dsn s =
    (case open_odbc api dsn s of
      (Ok h, s1) \<Rightarrow> let c = new_odbc_conn s1 (new_odbc_obj h) in (Ok (oc_raw c, oc_closed c), oc_ffi c)
    | (Err e, s1) \<Rightarrow> (Err e, s1)
    | (Panic p, s1) \<Rightarrow> (Panic p, s1))"

definition odbc_slot_execute :: "'w odbc_api \<Rightarrow> 'w ctx_err \<Rightarrow> conn_args \<Rightarrow> ('w ffi \<times> odbc_slot, unit) goS" where
  "odbc_slot_execute api ctx arg = odbc_at (odbc_run_execute api ctx (Some arg))"

definition odbc_slot_close :: "'w odbc_api \<Rightarrow> ('w ffi \<times> odbc_slot, unit) goS" where
  "odbc_slot_close api = odbc_at (odbc_close api)"

text \<open>\<^verbatim>\<open>Gen\<close> of the generator on that state.\<close>

definition odbc_slot_gen :: "'w odbc_api \<Rightarrow> conn_config \<Rightarrow> ('w ffi, odbc_slot) goS" where
  "odbc_slot_gen api info =
    bindS (liftS (odbc_dsn info)) (\<lambda>dsn. wrapS ''ODBC connection creation failed'' (odbc_open_conn api dsn))"

section \<open>What a connection holds\<close>

definition slot_handles :: "odbc_slot \<Rightarrow> resource multiset" where
  "slot_handles c = (case fst c of None \<Rightarrow> {#} | Some ob \<Rightarrow> {#ob_env ob, ob_dbc ob#})"

definition live_slot :: "odbc_slot \<Rightarrow> bool" where
  "live_slot c \<longleftrightarrow> (\<exists>ob. c = (Some ob, False) \<and> \<not> ob_closed ob)"

text \<open>The ledger, for a library that reports no negative length and a configuration whose
  \<^verbatim>\<open>dsn\<close> is no nil.\<close>

definition odbc_own :: "'w odbc_api \<Rightarrow> conn_config \<Rightarrow> resource multiset \<Rightarrow> 'w ffi \<Rightarrow> bool" where
  "odbc_own api info N s \<longleftrightarrow> nonneg_lengths api \<and> map_of (cc_OptionMap info) ''dsn'' \<noteq> Some GNil \<and> ledger api N s"

lemma run_execute_raw: "odbc_run_execute api ctx arg c = (r, c') \<Longrightarrow> oc_raw c' = oc_raw c"
  by (auto simp: odbc_run_execute_def on_ffi_def split: option.splits if_splits prod.splits)

lemma odbc_dsn_calm: "map_of (cc_OptionMap info) ''dsn'' \<noteq> Some GNil \<Longrightarrow> \<not> is_panic (odbc_dsn info)"
  by (auto simp: odbc_dsn_def gen_option_def split: option.split goval.split)

text \<open>The two views of what a connection owns.\<close>

lemma odbc_owns_slot:
  "odbc_owns api N c \<longleftrightarrow> (live_slot (oc_raw c, oc_closed c) \<or> (oc_raw c, oc_closed c) = (None, True)) \<and>
    ledger api (slot_handles (oc_raw c, oc_closed c) + N) (oc_ffi c)"
proof (cases "oc_raw c")
  case (Some ob)
  have "live_slot (Some ob, b) \<longleftrightarrow> \<not> b \<and> \<not> ob_closed ob" for b by (auto simp: live_slot_def)
  with Some show ?thesis by (simp add: odbc_owns_def slot_handles_def)
qed (simp add: odbc_owns_def live_slot_def slot_handles_def)

lemma odbc_slot_gen_takes:
  assumes "odbc_own api info N s" "odbc_slot_gen api info s = (r, s')"
  shows "case r of Ok l \<Rightarrow> live_slot l \<and> odbc_own api info (slot_handles l + N) s' | Err e \<Rightarrow> odbc_own api info N s' | Panic p \<Rightarrow> False"
proof (cases "odbc_dsn info")
  case (Ok dsn)
  obtain x t where x: "open_odbc api dsn s = (x, t)" by fastforce
  have "ledger api N s" using assms(1) by (simp add: odbc_own_def)
  note post = holdsD[OF holds_open_odbc this x]
  moreover have "odbc_slot_gen api info s = (wrap_err ''ODBC connection creation failed''
      (bind_go x (\<lambda>h. Ok (Some (new_odbc_obj h), False))), t)"
    using Ok x by (cases x) (simp_all add: odbc_slot_gen_def odbc_open_conn_def wrapS_def new_odbc_conn_def Let_def)
  ultimately show ?thesis using assms
    by (cases x) (simp_all add: odbc_own_def live_slot_def slot_handles_def new_odbc_obj_def split: go.split)
qed (use assms odbc_dsn_calm[of info] in \<open>auto simp: odbc_slot_gen_def odbc_own_def\<close>)

interpretation odbc_pool: shared_conn "odbc_slot_gen api info" "odbc_slot_execute api ctx" "odbc_slot_close api"
  "odbc_own api info" slot_handles live_slot
  for api :: "'lib odbc_api" and info :: conn_config and ctx :: "'lib ctx_err"
proof unfold_locales
  show "odbc_own api info N s \<Longrightarrow> odbc_slot_gen api info s = (r, s') \<Longrightarrow>
      (case r of Ok l \<Rightarrow> live_slot l \<and> odbc_own api info (slot_handles l + N) s' | Err er \<Rightarrow> odbc_own api info N s' | Panic x \<Rightarrow> False)"
    for N s r s' by (rule odbc_slot_gen_takes)
next
  fix l N s arg u s' l'
  assume s: "odbc_own api info (slot_handles l + N) s" "live_slot l" and "odbc_slot_execute api ctx arg (s, l) = (u, (s', l'))"
  then obtain c where c: "odbc_run_execute api ctx (Some arg) \<lparr>oc_ffi = s, oc_raw = fst l, oc_closed = snd l\<rparr> = (u, c)"
      "s' = oc_ffi c" "l' = (oc_raw c, oc_closed c)"
    by (cases l) (auto simp: odbc_slot_execute_def odbc_at_def split: prod.splits)
  have "odbc_owns api N \<lparr>oc_ffi = s, oc_raw = fst l, oc_closed = snd l\<rparr>" using s by (simp add: odbc_owns_slot odbc_own_def)
  from owns_execute[OF this c(1)] s(1) have u: "\<not> is_panic u" "odbc_owns api N c"
    by (auto simp: still_owns_def odbc_own_def split: if_splits)
  from u run_execute_raw[OF c(1)] s c(2,3)
  show "live_slot l' \<and> odbc_own api info (slot_handles l' + N) s' \<and> \<not> is_panic u"
    by (auto simp: odbc_owns_slot odbc_own_def live_slot_def)
next
  fix l N s u s' l'
  assume s: "odbc_own api info (slot_handles l + N) s" "live_slot l" and "odbc_slot_close api (s, l) = (u, (s', l'))"
  then obtain c where c: "odbc_close api \<lparr>oc_ffi = s, oc_raw = fst l, oc_closed = snd l\<rparr> = (u, c)"
      "s' = oc_ffi c" "l' = (oc_raw c, oc_closed c)"
    by (cases l) (auto simp: odbc_slot_close_def odbc_at_def split: prod.splits)
  have "odbc_owns api N \<lparr>oc_ffi = s, oc_raw = fst l, oc_closed = snd l\<rparr>" using s by (simp add: odbc_owns_slot odbc_own_def)
  from owns_close[OF this c(1)] s(1) have "odbc_owns api N c" "oc_raw c = None"
    by (auto simp: still_owns_def odbc_own_def split: if_splits)
  with s(1) c(2,3)
  show "\<not> live_slot l' \<and> slot_handles l' = {#} \<and> odbc_own api info N s'"
    by (auto simp: odbc_owns_slot odbc_own_def live_slot_def slot_handles_def)
qed

section \<open>The pool holds the handles of its idle connections\<close>

lemma new_odbc_pool:
  assumes "cc_DBType info = ''odbc''" "cl_odbc libs = (\<lambda>dsn. heap_gen (odbc_open_conn api dsn))"
    and "pe_close base = heap_close (odbc_slot_close api)"
    and "new_conn_pool (new_generator libs) base ident info m w = Ok c"
  shows "cp_env c = heap_env (odbc_slot_gen api info) (odbc_slot_close api) ident info base" "cp_pool c = new_pool m w"
  using assms
  by (cases base; auto simp: new_conn_pool_def new_generator_def generator_of_def odbc_gen_def heap_env_def odbc_slot_gen_def)+


text \<open>A pool of one connection over the counting library.\<close>

definition counter_libs :: "(((nat \<times> nat \<times> bool) ffi, odbc_slot) conn_heap, nat, unit) client_libs" where
  "counter_libs = \<lparr>cl_redis = \<lambda>_. panicS PNilDeref, cl_local = \<lambda>_. panicS PNilDeref, cl_kafka = \<lambda>_ _. panicS PNilDeref,
    cl_cassandra = \<lambda>_. panicS PNilDeref, cl_odbc = (\<lambda>dsn. heap_gen (odbc_open_conn (counter_api True) dsn)),
    cl_sql_open = \<lambda>_ _. Panic PNilDeref, cl_sql_conn = \<lambda>_ _. panicS PNilDeref\<rparr>"

definition counter_base :: "(((nat \<times> nat \<times> bool) ffi, odbc_slot) conn_heap, nat, unit) pool_env" where
  "counter_base = \<lparr>pe_name = [], pe_gen = panicS PNilDeref, pe_max = 0, pe_done = (\<lambda>_. False), pe_zero = 0,
    pe_close = heap_close (odbc_slot_close (counter_api True)), pe_assignment = (\<lambda>_ _ _ m. m),
    pe_assignments = (\<lambda>_ _ m. m), pe_delete = (\<lambda>_ m. m)\<rparr>"

definition counter_ops :: "(((nat \<times> nat \<times> bool) ffi, odbc_slot) conn_heap, nat) conn_ops" where
  "counter_ops = \<lparr>co_execute = (\<lambda>i arg. heap_at i (odbc_slot_execute (counter_api True) (Pair None) arg)),
    co_query = \<lambda>_ _. retS ([], [])\<rparr>"

definition counter_conf :: conn_config where
  "counter_conf = zero_conn_config\<lparr>cc_DBType := ''odbc'', cc_MaxConn := 1, cc_OptionMap := [(''dsn'', GString ''d'')]\<rparr>"


end
