(* ===== verification/PooledLocal.thy ===== *)
theory PooledLocal
  imports ShellConn PoolResources
begin

text \<open>
  A pool of local programs, from \<^verbatim>\<open>connpool/internal/gen/local.go\<close> through
  \<^verbatim>\<open>connpool/factory.go\<close> to \<^verbatim>\<open>local_sh_conn.go\<close>: which programs are running.
\<close>

section \<open>The programs that run\<close>

text \<open>What \<^verbatim>\<open>os/exec\<close> documents, for a view \<open>procs\<close> of the children that have not been waited
  for: starting a program adds it, killing it and waiting for it takes it out, the rest leaves the
  children alone; nothing of it panics.\<close>

definition same_programs :: "('w \<Rightarrow> 'h multiset) \<Rightarrow> ('w, 'a) goS \<Rightarrow> bool" where
  "same_programs procs m \<longleftrightarrow> (\<forall>w r w'. m w = (r, w') \<longrightarrow> \<not> is_panic r \<and> procs w' = procs w)"

definition program_table :: "('w, 'h) sh_os \<Rightarrow> ('w \<Rightarrow> 'h multiset) \<Rightarrow> bool" where
  "program_table os procs \<longleftrightarrow>
    (\<forall>p. same_programs procs (sh_stdin_pipe os p)) \<and> (\<forall>p. same_programs procs (sh_stdout_pipe os p)) \<and>
    (\<forall>h t. same_programs procs (sh_write os h t)) \<and> (\<forall>h w. procs (sh_kill os h w) = procs w - {#h#}) \<and>
    (\<forall>p a w r w'. sh_start os p a w = (r, w') \<longrightarrow>
      (case r of Ok h \<Rightarrow> procs w' = add_mset h (procs w) | Err e \<Rightarrow> procs w' = procs w | Panic x \<Rightarrow> False)) \<and>
    (\<forall>p a w r w'. sh_spawn os p a w = (r, w') \<longrightarrow>
      (case r of Ok _ \<Rightarrow> \<exists>h. procs w' = add_mset h (procs w) | Err e \<Rightarrow> procs w' = procs w | Panic x \<Rightarrow> False))"

lemma same_programsD: "same_programs procs m \<Longrightarrow> m w = (r, w') \<Longrightarrow> \<not> is_panic r \<and> procs w' = procs w"
  by (simp add: same_programs_def)

lemma program_tableD:
  assumes "program_table os procs"
  shows "sh_stdin_pipe os p w = (r, w') \<Longrightarrow> \<not> is_panic r \<and> procs w' = procs w"
    "sh_stdout_pipe os p w = (r, w') \<Longrightarrow> \<not> is_panic r \<and> procs w' = procs w"
    "sh_write os h t w = (r, w') \<Longrightarrow> \<not> is_panic r \<and> procs w' = procs w"
    "sh_start os p a w = (r', w') \<Longrightarrow>
      (case r' of Ok h \<Rightarrow> procs w' = add_mset h (procs w) | Err e \<Rightarrow> procs w' = procs w | Panic x \<Rightarrow> False)"
    "sh_spawn os p a w = (r, w') \<Longrightarrow>
      (case r of Ok _ \<Rightarrow> \<exists>h. procs w' = add_mset h (procs w) | Err e \<Rightarrow> procs w' = procs w | Panic x \<Rightarrow> False)"
    "procs (sh_kill os h w) = procs w - {#h#}"
proof -
  note t = assms[unfolded program_table_def]
  show "sh_stdin_pipe os p w = (r, w') \<Longrightarrow> \<not> is_panic r \<and> procs w' = procs w"
    using t by (blast dest: same_programsD)
  show "sh_stdout_pipe os p w = (r, w') \<Longrightarrow> \<not> is_panic r \<and> procs w' = procs w"
    using t by (blast dest: same_programsD)
  show "sh_write os h t w = (r, w') \<Longrightarrow> \<not> is_panic r \<and> procs w' = procs w"
    using t by (blast dest: same_programsD)
  show "sh_start os p a w = (r', w') \<Longrightarrow>
      (case r' of Ok h \<Rightarrow> procs w' = add_mset h (procs w) | Err e \<Rightarrow> procs w' = procs w | Panic x \<Rightarrow> False)"
    using t by blast
  show "sh_spawn os p a w = (r, w') \<Longrightarrow>
      (case r of Ok _ \<Rightarrow> \<exists>h. procs w' = add_mset h (procs w) | Err e \<Rightarrow> procs w' = procs w | Panic x \<Rightarrow> False)"
    using t by blast
  show "procs (sh_kill os h w) = procs w - {#h#}" using t by blast
qed

section \<open>A connection and its program\<close>

definition program_of :: "'h local_conn \<Rightarrow> 'h multiset" where
  "program_of c = (case lc_proc c of None \<Rightarrow> {#} | Some h \<Rightarrow> if lc_isCloseFlag c then {#} else {#h#})"

definition live_program :: "'h local_conn \<Rightarrow> bool" where
  "live_program c \<longleftrightarrow> \<not> lc_isCloseFlag c \<and> lc_isInteractive c \<and> lc_proc c \<noteq> None"

definition programs_own :: "('w, 'h) sh_os \<Rightarrow> ('w \<Rightarrow> 'h multiset) \<Rightarrow> local_options \<Rightarrow> 'h multiset \<Rightarrow> 'w \<Rightarrow> bool" where
  "programs_own os procs opt N w \<longleftrightarrow> program_table os procs \<and> lo_interactive opt \<and> procs w = N"

lemma new_local_program:
  assumes own: "programs_own os procs opt N w" and run: "new_local_sh_conn os opt w = (r, w')"
  shows "case r of Ok c \<Rightarrow> live_program c \<and> programs_own os procs opt (program_of c + N) w' |
    Err e \<Rightarrow> programs_own os procs opt N w' | Panic x \<Rightarrow> False"
proof -
  have t: "program_table os procs" "lo_interactive opt" "procs w = N" using own by (simp_all add: programs_own_def)
  note steps = program_tableD[OF t(1)]
  obtain a w1 where a: "sh_stdin_pipe os (lo_proc opt) w = (a, w1)" by fastforce
  obtain b w2 where b: "sh_stdout_pipe os (lo_proc opt) w1 = (b, w2)" by fastforce
  obtain h w3 where h: "sh_start os (lo_proc opt) (lo_args opt) w2 = (h, w3)" by fastforce
  note ps = steps(1)[OF a] steps(2)[OF b] steps(4)[OF h]
  show ?thesis
  proof (cases a)
    case Ok
    note 1 = this
    show ?thesis
    proof (cases b)
      case Ok
      with 1 run t a b h ps show ?thesis
        by (cases h) (auto simp: new_local_sh_conn_def Let_def bindS_def wrapS_def live_program_def program_of_def programs_own_def)
    qed (use 1 run t a b ps in \<open>auto simp: new_local_sh_conn_def Let_def bindS_def wrapS_def programs_own_def\<close>)
  qed (use run t a ps in \<open>auto simp: new_local_sh_conn_def Let_def bindS_def wrapS_def programs_own_def\<close>)
qed

lemma live_execute:
  assumes "live_program l"
  obtains h tx where "lc_proc l = Some h"
    "local_run_execute os ff widen arg (s, l) =
      (case sh_write os h tx s of (r, s') \<Rightarrow> (wrap_err ''process write error, %s'' r, (s', l)))"
proof -
  from assms obtain h where h: "lc_proc l = Some h" "\<not> lc_isCloseFlag l" "lc_isInteractive l" by (auto simp: live_program_def)
  define tx where "tx = make_param ff widen (lc_inputNextLineChar l) (lc_inputDivisionChar l) (lc_inputEndChar l) arg"
  have w: "write_param os ff widen l arg = bindS (wrapS ''process write error, %s'' (sh_write os h tx)) (\<lambda>_. retS h)"
    by (simp only: write_param_def h option.case tx_def)
  obtain x t where x: "sh_write os h tx s = (x, t)" by fastforce
  have "local_run_execute os ff widen arg (s, l) = (wrap_err ''process write error, %s'' x, (t, l))"
    using h(2,3) x by (cases x) (simp_all add: local_run_execute_def w on_os_def bindS_def wrapS_def)
  with x h(1) show ?thesis by (intro that[of h tx]) simp_all
qed

interpretation local_pool: shared_conn "new_local_sh_conn os opt" "local_run_execute os ff widen" "local_close os"
  "programs_own os procs opt" program_of live_program
  for os :: "('sys, 'prog) sh_os" and opt ff widen procs
proof unfold_locales
  show "programs_own os procs opt N s \<Longrightarrow> new_local_sh_conn os opt s = (r, s') \<Longrightarrow>
      (case r of Ok l \<Rightarrow> live_program l \<and> programs_own os procs opt (program_of l + N) s' |
        Err er \<Rightarrow> programs_own os procs opt N s' | Panic x \<Rightarrow> False)" for N s r s'
    by (rule new_local_program)
next
  fix l N s arg u s' l'
  assume own: "programs_own os procs opt (program_of l + N) s" "live_program l"
    and run: "local_run_execute os ff widen arg (s, l) = (u, (s', l'))"
  obtain h tx where h: "local_run_execute os ff widen arg (s, l) =
      (case sh_write os h tx s of (r, s') \<Rightarrow> (wrap_err ''process write error, %s'' r, (s', l)))"
    using live_execute[OF own(2)] by metis
  obtain x t where x: "sh_write os h tx s = (x, t)" by fastforce
  with h run have "s' = t" "l' = l" "is_panic u = is_panic x" by (cases x; simp)+
  with own program_tableD(3)[OF _ x, of procs] show "live_program l' \<and> programs_own os procs opt (program_of l' + N) s' \<and> \<not> is_panic u"
    by (auto simp: programs_own_def)
next
  fix l N s u s' l'
  assume own: "programs_own os procs opt (program_of l + N) s" "live_program l"
    and run: "local_close os (s, l) = (u, (s', l'))"
  then obtain h where "lc_proc l = Some h" by (auto simp: live_program_def)
  with own run program_tableD(6)[of os procs h s]
  show "\<not> live_program l' \<and> program_of l' = {#} \<and> programs_own os procs opt N s'"
    by (auto simp: local_close_def live_program_def program_of_def programs_own_def)
qed

section \<open>The pool\<close>

lemma new_local_pool:
  assumes "cc_DBType info = ''local''" "cl_local libs = (\<lambda>opt. heap_gen (new_local_sh_conn os opt))"
    and "pe_close base = heap_close (local_close os)" "new_local_generator info = Ok opt"
    and "new_conn_pool (new_generator libs) base ident info m w = Ok c"
  shows "cp_env c = heap_env (new_local_sh_conn os opt) (local_close os) ident info base" "cp_pool c = new_pool m w"
  using assms
  by (cases base; auto simp: new_conn_pool_def new_generator_def generator_of_def heap_env_def)+

text \<open>C6: A pool of interactive local programs runs exactly one program for each idle connection, beside
  the children there were before, whatever is called on it and however starts and writes fail; no call
  on it panics; and once it is closed, all its programs have been killed and waited for.\<close>

theorem pooled_programs_end:
  assumes table: "program_table os procs" and opt: "new_local_generator info = Ok opt" "lo_interactive opt"
    and driver: "\<And>i. co_execute ops i = (\<lambda>arg. heap_at i (local_run_execute os ff widen arg))"
    and pool: "cc_DBType info = ''local''" "cl_local libs = (\<lambda>opt. heap_gen (new_local_sh_conn os opt))"
      "pe_close base = heap_close (local_close os)"
      "new_conn_pool (new_generator libs) base ident info m \<lparr>hp_shared = w, hp_conns = []\<rparr> = Ok c0"
    and c: "c = fold (\<lambda>op c. snd (cp_call ops op c)) calls c0"
  shows "(\<exists>H. size H = size (idle_items (cp_pool c)) \<and> procs (hp_shared (pl_world (cp_pool c))) = H + procs w) \<and>
    \<not> is_panic (fst (cp_call ops op c)) \<and>
    procs (hp_shared (pl_world (cp_pool (snd (cp_call ops PoolClose c))))) = procs w"
proof -
  have "programs_own os procs opt (procs w) w" using table opt by (simp add: programs_own_def)
  then have own: "programs_own os procs opt (procs w) w" .
  have one: "size (program_of l) = 1" if "live_program l" for l
    using that by (auto simp: live_program_def program_of_def)
  note local_pool.pool_takes[OF new_local_pool[OF pool(1-3) opt(1) pool(4)] own driver one c, of op]
  then show ?thesis by (simp only: programs_own_def mult_1) blast
qed

text \<open>A command that is not interactive is started by every execution and waited for by none: it is
  still there after the close.\<close>

theorem spawned_program_stays:
  assumes "program_table os procs" "new_local_sh_conn os opt w = (Ok c, w1)" "\<not> lo_interactive opt"
    and "local_run_execute os ff widen arg (w1, c) = (Ok (), (w2, c2))"
  shows "\<exists>h w3 c3. local_close os (w2, c2) = (Ok (), (w3, c3)) \<and> procs w3 = add_mset h (procs w)"
proof -
  have c: "\<not> lc_isCloseFlag c" "\<not> lc_isInteractive c" "w1 = w"
    using assms(2,3) by (auto simp: new_local_sh_conn_def Let_def)
  obtain x v where x: "sh_spawn os (lc_execPath c) (lc_args c) w = (x, v)" by fastforce
  then have "c2 = c" "w2 = v" "x = Ok ()"
    using assms(4) c by (cases x; simp add: local_run_execute_def on_os_def wrapS_def)+
  with program_tableD(5)[OF assms(1) x(1)] c show ?thesis
    by (auto simp: local_close_def)
qed

section \<open>The theorems at work\<close>

text \<open>A system that numbers its programs; writing to the first one fails.\<close>

definition count_os :: "(nat \<times> nat list, nat) sh_os" where
  "count_os = \<lparr>sh_stdin_pipe = \<lambda>_. retS (), sh_stdout_pipe = \<lambda>_. retS (),
    sh_start = \<lambda>_ _ (n, ps). (Ok n, (Suc n, n # ps)),
    sh_write = \<lambda>h _. if h = 0 then failS (ESys ''pipe'') else retS (),
    sh_read = \<lambda>_ w. ([], w), sh_kill = \<lambda>h (n, ps). (n, remove1 h ps),
    sh_spawn = \<lambda>_ _ (n, ps). (Ok (), (Suc n, n # ps)), sh_output = \<lambda>_ _. retS []\<rparr>"

lemma count_os_table: "program_table count_os (\<lambda>w. mset (snd w))"
  by (auto simp: program_table_def same_programs_def count_os_def)

definition shell_conf :: conn_config where
  "shell_conf = zero_conn_config\<lparr>cc_DBType := ''local'', cc_Name := ''sh'', cc_MaxConn := 2, cc_OptionMap :=
    (''interactive'', GBool True) # map (\<lambda>k. (k, GString ''x''))
      [''output.splitchar'', ''output.newline'', ''output.endchar'', ''input.nextline'', ''input.division'', ''input.endchar'']\<rparr>"

definition shell_options :: local_options where
  "shell_options = \<lparr>lo_interactive = True, lo_proc = ''sh'', lo_outputSplitChar = ''x'', lo_outputNewlineChar = ''x'',
    lo_inputNextLineChar = ''x'', lo_inputDivisionChar = ''x'', lo_inputEndChar = ''x'', lo_outputEndChar = ''x'', lo_args = []\<rparr>"

definition shell_libs :: "((nat \<times> nat list, nat local_conn) conn_heap, nat, unit) client_libs" where
  "shell_libs = \<lparr>cl_redis = \<lambda>_. panicS PNilDeref, cl_local = (\<lambda>opt. heap_gen (new_local_sh_conn count_os opt)),
    cl_kafka = \<lambda>_ _. panicS PNilDeref, cl_cassandra = \<lambda>_. panicS PNilDeref, cl_odbc = \<lambda>_. panicS PNilDeref,
    cl_sql_open = \<lambda>_ _. Panic PNilDeref, cl_sql_conn = \<lambda>_ _. panicS PNilDeref\<rparr>"

definition shell_base :: "((nat \<times> nat list, nat local_conn) conn_heap, nat, unit) pool_env" where
  "shell_base = \<lparr>pe_name = [], pe_gen = panicS PNilDeref, pe_max = 0, pe_done = (\<lambda>_. False), pe_zero = 0,
    pe_close = heap_close (local_close count_os), pe_assignment = (\<lambda>_ _ _ m. m), pe_assignments = (\<lambda>_ _ m. m),
    pe_delete = (\<lambda>_ m. m)\<rparr>"

definition shell_ops :: "((nat \<times> nat list, nat local_conn) conn_heap, nat) conn_ops" where
  "shell_ops = \<lparr>co_execute = (\<lambda>i arg. heap_at i (local_run_execute count_os (\<lambda>_. []) (\<lambda>_. 0) arg)), co_query = \<lambda>_ _. retS ([], [])\<rparr>"

text \<open>The first execution fails and its program is killed; the next call runs a second one.\<close>

lemma pooled_programs_end_witness:
  "\<exists>c0. new_conn_pool (new_generator shell_libs) shell_base ''p'' shell_conf () \<lparr>hp_shared = (0, [7]), hp_conns = []\<rparr> = Ok c0 \<and>
    (let c = fold (\<lambda>op c. snd (cp_call shell_ops op c))
        [PoolExecute 0 1 \<lparr>a_Query = [], a_Args = None, a_IsTransaction = False\<rparr>,
         PoolQuery 2 3 \<lparr>a_Query = [], a_Args = None, a_IsTransaction = False\<rparr>] c0 in
     snd (hp_shared (pl_world (cp_pool (snd (cp_call shell_ops PoolClose c))))) = [7])"
proof -
  let ?new = "new_conn_pool (new_generator shell_libs) shell_base ''p'' shell_conf () \<lparr>hp_shared = (0, [7]), hp_conns = []\<rparr>"
  have opt: "new_local_generator shell_conf = Ok shell_options" by code_simp
  have "(case ?new of Ok c \<Rightarrow> True | _ \<Rightarrow> False)" by code_simp
  then obtain c0 where c0: "?new = Ok c0" by (auto split: go.splits)
  have facts: "lo_interactive shell_options"
    "\<And>i. co_execute shell_ops i = (\<lambda>arg. heap_at i (local_run_execute count_os (\<lambda>_. []) (\<lambda>_. 0) arg))"
    "cc_DBType shell_conf = ''local''" "cl_local shell_libs = (\<lambda>opt. heap_gen (new_local_sh_conn count_os opt))"
    "pe_close shell_base = heap_close (local_close count_os)"
    by (simp_all add: shell_options_def shell_ops_def shell_conf_def shell_libs_def shell_base_def)
  from pooled_programs_end[OF count_os_table opt facts c0 refl] c0 show ?thesis
    by (auto simp only: Let_def snd_conv mset_single_iff_right mset.simps)
qed

end
