(* ===== verification/Spec2Isabelle.thy ===== *)
theory Spec2Isabelle
  imports ScriptPlan PlanBufferV1 Errlist ShReader Pools Pool_Interleaving ConnPool Master
    SharedState Syncd Background RotateWriter Startup OdbcConn PooledSql ShellConn RedisConn
    CassandraConn KafkaConn DriverReplies LuaVm FileLogger SyncPool NewPlan ProcWindows Waiting Messages
    MetricPrint SharedPlan Shared_Interleaving UsePool_Interleaving Entries PackageVars PooledOdbc PooledLocal
begin

text \<open>
  Verification of oncecall, a Go program that copies data between databases by scripts.

  THE PROGRAM.  A master process (\<^verbatim>\<open>cmd/oncecall_sync/entry/master.go\<close>) keeps one child
  process per database that its management database lists.  A child, the sync process
  (\<^verbatim>\<open>entry/syncd.go\<close>), fetches its own connection, the connections of the other
  databases and its scripts, keeps a connection pool per database and a plan per script, and runs
  the plans.  A plan (\<^verbatim>\<open>plan/script_plan.go\<close>) initialises itself once, then in every
  round runs its read statements in order, stores each result in the plan buffer
  (\<^verbatim>\<open>plan/plan_buffer.go\<close>) and at last runs its sync statement, whose parameters are
  made from constants, from buffered cells or by a script engine.  All database access goes through
  \<^verbatim>\<open>connpool/factory.go\<close>, a pool (\<^verbatim>\<open>extension/pool\<close>) of connections of one
  of seven drivers, which counts its items in a metric store (\<^verbatim>\<open>extension/metric\<close>).

  THE THEORIES, in the order of their imports.
  \<^item> \<open>Prelude\<close>: errors, panics and results (\<open>go\<close>), operations with state (\<open>goS\<close>), dynamic values
    (\<open>goval\<close>, the type \<^verbatim>\<open>any\<close>), slices with Go's index rules, and the rules the
    other theories reason with.  \<open>Gostd\<close>: what is used of \<^verbatim>\<open>strconv\<close> and
    \<^verbatim>\<open>strings\<close>.
  \<^item> \<open>Syncmap\<close>: \<^verbatim>\<open>utils/generic\<close> and \<^verbatim>\<open>utils/convert_bind.go\<close>; the typed
    map as the locale \<open>keyed_store\<close>.  \<open>Cfg\<close>: the records of \<^verbatim>\<open>cfg/typed.go\<close>,
    \<^verbatim>\<open>connpool/types\<close> and \<^verbatim>\<open>state/ident.go\<close>.
  \<^item> \<open>Round_Store\<close>: the contract of a buffer of rounds, a locale with \<open>PlanBuffer\<close>
    (\<^verbatim>\<open>plan/plan_buffer.go\<close>) and \<open>PlanBufferV1\<close>
    (\<^verbatim>\<open>plan/new/plan_buffer.go\<close>) as its interpretations.
  \<^item> \<open>ScriptPlan\<close>: \<^verbatim>\<open>plan/script_plan.go\<close> and \<^verbatim>\<open>plan/plan_state.go\<close>.
  \<^item> \<open>Errlist\<close>: \<^verbatim>\<open>errlist\<close>, the chains of wrapped errors, and that they refine the
    abstract errors the other theories use.
  \<^item> \<open>Shutils\<close>, \<open>ShReader\<close>: \<^verbatim>\<open>connpool/internal/utils\<close>, the text protocol of the
    shell drivers.
  \<^item> \<open>Metric\<close>, \<open>Pools\<close>, \<open>Pool_Interleaving\<close>: \<^verbatim>\<open>extension/metric\<close> (the locale
    \<open>metric_extension\<close>) and \<^verbatim>\<open>extension/pool\<close>, first one call at a time with every
    effect, then several goroutines as a step relation on the shared fields.  \<open>MetricPrint\<close>: the text
    of the metrics.
  \<^item> \<open>ConnPool\<close>: \<^verbatim>\<open>connpool/factory.go\<close>, and the locale \<open>rowless_source\<close> of what its
    queries do to their clients, the theories \<open>Master\<close> and \<open>Syncd\<close>.  \<open>Closer\<close>: what can be closed, the
    locales \<open>closable\<close> and \<open>closable_once\<close>, interpreted on the pools, the shell and the ODBC connection.
  \<^item> \<open>Master\<close>: \<^verbatim>\<open>entry/master.go\<close> and \<^verbatim>\<open>entry/master\<close>.  \<open>SharedState\<close>:
    \<^verbatim>\<open>state/state.go\<close>, with its pool map under several goroutines in \<open>Shared_Interleaving\<close>.
    \<open>SharedPlan\<close>: a plan on the pools of the shared state, the locale \<open>rowless_ctl\<close>.  \<open>Syncd\<close>: \<^verbatim>\<open>entry/syncd.go\<close> and
    \<^verbatim>\<open>entry/syncd\<close>.
  \<^item> \<open>RotateWriter\<close>: \<^verbatim>\<open>utils/log_file.go\<close>.  \<open>Startup\<close>: \<^verbatim>\<open>global/init.go\<close>,
    \<^verbatim>\<open>utils/parse.go\<close> and \<^verbatim>\<open>main.go\<close>.
  \<^item> \<open>Background\<close>: the background loop of \<^verbatim>\<open>entry/syncd.go\<close> and the goroutines it starts,
    a step relation on the plan map, the thread states and the program counters.  \<open>Entries\<close>: the
    loops of the two entries over lists of turns, and \<^verbatim>\<open>main\<close>'s wait and close-down.
  \<^item> \<open>SqlConn\<close>, \<open>ShellConn\<close>, \<open>RedisConn\<close>, \<open>CassandraConn\<close>, \<open>KafkaConn\<close>, \<open>OdbcConn\<close>: the seven drivers of
    \<^verbatim>\<open>connpool/internal/connection\<close> (\<open>ShellConn\<close> has the local and the SSH one), each over a
    record of the calls it makes to its client library.  \<open>OdbcFfi\<close>: \<^verbatim>\<open>connpool/internal/ffi/odbc.go\<close>
    with a ledger of the handles and the C memory that are allocated; a handle that the library
    refuses to free stays in it.
  \<^item> \<open>Generators\<close>: \<^verbatim>\<open>connpool/internal/gen\<close>, the options and connection strings of each
    database type, put into the factory of \<open>ConnPool\<close>.  \<open>PooledSql\<close>: the \<^verbatim>\<open>database/sql\<close> driver
    under the pool.  \<open>PoolResources\<close>: what connections take of what they share, the locale
    \<open>shared_conn\<close>, under a pool, the locale \<open>pooled_resource\<close>; \<open>PooledOdbc\<close> and \<open>PooledLocal\<close>: its
    interpretations on the ODBC driver and binding and on the local programs.
    \<open>DriverReplies\<close>: what a plan makes of the rows of Kafka and Redis.
  \<^item> \<open>LuaVm\<close>: \<^verbatim>\<open>vm/lua/lua_vm.go\<close>; a script is a tree of the calls it makes to the engine.
  \<^item> \<open>FileLogger\<close>: \<^verbatim>\<open>extension/log/file.go\<close> on the files of \<open>RotateWriter\<close>.  \<open>SyncPool\<close>:
    the object pools of \<^verbatim>\<open>utils/generic/sync.go\<close>, and \<open>UsePool_Interleaving\<close> the second of them under
    several goroutines.
  \<^item> \<open>NewPlan\<close>: \<^verbatim>\<open>plan/new/plan_impl.go\<close>, the unfinished second plan, function by function.
    \<open>ProcWindows\<close>: the process queries of the Windows files under the process manager of \<open>Master\<close>.
    \<open>Waiting\<close>: \<^verbatim>\<open>utils/context.go\<close> as a step relation, \<^verbatim>\<open>utils/sleep.go\<close>.
    \<open>Messages\<close>: \<^verbatim>\<open>msg\<close>.  \<open>PackageVars\<close>: the variables of \<^verbatim>\<open>global/manage\<close> and
    \<^verbatim>\<open>global/metric\<close>, and a pool whose metric is nil.

  HOW CODE IS MODELLED.  A struct is a record with the code's fields; a method is one definition
  on it, composed as the code composes its calls.  An error is a value \<open>Err\<close>, a run-time panic a
  value \<open>Panic\<close> which no later step catches.  Sequence numbers are 64-bit words, compared signed;
  lengths and indices of slices, which are too small to wrap, are integers.  The second buffer adds to
  a row that a script chooses: there the sum wraps at 64 bits, and allocating a column that is
  negative or larger than memory can be panics (\<open>make_anys\<close>, \<open>any_limit\<close>).  A map is an
  association list in visiting order; where the code ranges over a map the theorems hold for every
  order.  Locks that are held for a whole method are left out, and the method is one step; where
  they are not, \<open>Pool_Interleaving\<close>, \<open>UsePool_Interleaving\<close> and \<open>Shared_Interleaving\<close> have the
  smaller steps.  A loop that ends only on outside events is a function on the list of its turns.

  WHAT THE LEMMAS SHOW.  Invariants that every operation keeps (buffers, pools, metrics, error
  chains, process tables, thread states, the counters of an object pool and the pools of the shared
  map in every interleaving, the gauges of a pool, the ledger of ODBC resources); what is read back after
  it is stored or sent (both buffers, the shared maps, the text protocol, text from ODBC in pieces, the
  tables of a shell command however its output is cut); agreement of two versions of
  one operation (cell by cell and whole tables, the three line scanners, the timed and the simple
  pool, the fixed parameters of both plans); refinements (\<open>new_error\<close> to the abstract wrap, the loop of
  the master to the last list it could fetch); what a pool of ODBC connections holds of the library and
  a pool of local programs of the system at any moment, and that they hold nothing once closed; what a failing call leaves in a database, alone and through the
  pool; what value types cross the script engine; termination of the scanners and of the goroutines
  that merge contexts; and, where the code does something else than its names and messages say,
  theorems of what it does, up to whole plans and processes: no script ever copies a cell, a plan that
  reads Kafka never succeeds, a sync process never starts, and with the
  metrics the program has its first use of a pool would end it.

  BOUNDS.  The scanners are functions whose recursion ends when each cut is not empty; with an
  empty separator they return nothing (\<open>None\<close>), which is proved for the first and excluded from
  the second kind of inputs.  The polling loop of Kafka, the fetch loop and the piecewise reading of
  ODBC are partial functions whose value is \<open>None\<close> when they do not return, and so is every call made of
  them, up to the life of a connection; for Kafka both that and that they do return are proved, for
  the pieces of a text that they do.  No definition takes fuel.

  PARAMETERS.  Code that is not in the repository, or reached only through an interface: the client
  libraries of the drivers (\<open>sql_lib\<close>, \<open>odbc_api\<close>, \<open>sh_os\<close>, \<open>redis_do\<close>, \<open>cql_session\<close>, \<open>kafka_lib\<close>) and
  how clients are opened (\<open>client_libs\<close>), PowerShell (\<open>powershell\<close>), the interpreter of scripts and its reading of numbers (the
  trees \<open>lua_prog\<close>, the record \<open>lua_num\<close>), the encoder of log lines (\<open>log_env\<close>); in the theories that
  use drivers or engines through an interface, drivers and generators (\<open>conn_ops\<close>, the argument of
  \<open>new_conn_pool\<close>) and the script engine and the pools of a plan (\<open>plan_ctl\<close>); the operating system
  (\<open>os_ctl\<close>, of which \<open>table_ctl\<close> is a process table that keeps zombies), files (\<open>fs\<close>), the TOML and
  JSON parsers, MD5, the clock, \<^verbatim>\<open>float64\<close> arithmetic and formatting, and the loggers at
  start-up (\<open>boot_env\<close>).  Log lines are left out elsewhere.  That ODBC delivers text as documented
  (\<open>gives_text\<close>) and reports no negative length (\<open>nonneg_lengths\<close>), that programs are children until they are
  waited for (\<open>program_table\<close>), and that databases keep uncommitted work apart (\<open>rolls_back\<close>, \<open>tx_api\<close>), are named
  hypotheses of the theorems that need them, each with an instance.

  NOT MODELLED.  \<^verbatim>\<open>readRunPrevBind\<close> of the second plan, whose callback has no return
  statement, so that the package does not compile; the profiling server; the opening of the clients and the SSH
  dialling, which are one library call each; log lines and their texts.  What is left of the
  implementation's files are imports, interfaces (their methods are modelled where they are
  implemented) and cgo declarations.  The typed map has no interleavings of its own: each of its
  operations is one atomic call of \<^verbatim>\<open>sync.Map\<close>, and sequences of them are in
  \<open>Shared_Interleaving\<close> and \<open>Background\<close>.

  LIMITS.  The names of log files are joined without cleaning the path, which is the same for clean
  directories and names.  Apart from the second buffer no allocation runs out of memory.  The calls
  of a pool on its metric and on its items' \<^verbatim>\<open>Close\<close> return; a metric that is nil is in
  \<open>PackageVars\<close>.  The interleavings of a pool begin when it has been initialised.  \<open>table_ctl\<close> forks as
  long as there are process numbers left, and never refuses to kill a child.
\<close>

end
